(* ===== verification/BcosPrelude.thy ===== *)
theory BcosPrelude
  imports Main "HOL-Library.Word"
begin

text \<open>
  Shared vocabulary of the development: byte strings and the fixed-width integer
  types of the C++ sources, exceptions as the left component of a sum, and the
  association lists that stand for \<open>std::unordered_map\<close> and \<open>std::map\<close>.
  The iteration order of an unordered map is the order of its association list, so
  a statement over all lists with distinct keys is a statement over every iteration order.
\<close>

named_theorems result_simps \<open>evaluation of computations that may throw\<close>
named_theorems amap_simps \<open>lookup, insertion and deletion in association lists\<close>

section \<open>Bytes and integer types\<close>

type_synonym byte = "8 word"
type_synonym bytes = "byte list"

text \<open>\<open>uint64_t\<close> and \<open>size_t\<close> counters are natural numbers below this bound.\<close>

abbreviation size_max :: nat where
  "size_max \<equiv> 2 ^ 64 - 1"

section \<open>Computations that may throw\<close>

text \<open>\<open>Inl e\<close> is a thrown exception, \<open>Inr x\<close> a normal return.\<close>

definition bindE :: "'e + 'a \<Rightarrow> ('a \<Rightarrow> 'e + 'b) \<Rightarrow> 'e + 'b" where
  "bindE m f = (case m of Inl e \<Rightarrow> Inl e | Inr x \<Rightarrow> f x)"

lemma bindE_Inr [simp, result_simps]: "bindE (Inr x) f = f x"
  by (simp add: bindE_def)

lemma bindE_Inl [simp, result_simps]: "bindE (Inl e) f = Inl e"
  by (simp add: bindE_def)

lemma bindE_eq_Inr [result_simps]: "bindE m f = Inr y \<longleftrightarrow> (\<exists>x. m = Inr x \<and> f x = Inr y)"
  by (cases m) (auto simp: bindE_def)

lemma bindE_cong [fundef_cong]:
  assumes "m = m'" and "\<And>x. m' = Inr x \<Longrightarrow> f x = g x"
  shows "bindE m f = bindE m' g"
  using assms by (cases m') (auto simp: bindE_def)

text \<open>A loop whose body may throw, collecting the results.\<close>

fun mapE :: "('a \<Rightarrow> 'e + 'b) \<Rightarrow> 'a list \<Rightarrow> 'e + 'b list" where
  "mapE f [] = Inr []"
| "mapE f (x # xs) = bindE (f x) (\<lambda>y. bindE (mapE f xs) (\<lambda>ys. Inr (y # ys)))"

lemma mapE_Inr: "(\<And>x. x \<in> set xs \<Longrightarrow> f x = Inr (g x)) \<Longrightarrow> mapE f xs = Inr (map g xs)"
  by (induction xs) auto

lemma mapE_map_inverse: "(\<And>x. x \<in> set xs \<Longrightarrow> f (g x) = Inr x) \<Longrightarrow> mapE f (map g xs) = Inr xs"
  by (induction xs) auto

lemma bindE_assoc: "bindE (bindE m f) g = bindE m (\<lambda>x. bindE (f x) g)"
  by (cases m) auto

section \<open>Association lists as maps\<close>

type_synonym ('k, 'v) amap = "('k \<times> 'v) list"

text \<open>\<open>operator[]=\<close>: overwrite the value of a present key in place, else add an entry.\<close>

fun amap_set :: "'k \<Rightarrow> 'v \<Rightarrow> ('k, 'v) amap \<Rightarrow> ('k, 'v) amap" where
  "amap_set k v [] = [(k, v)]"
| "amap_set k v ((k', v') # m) = (if k = k' then (k, v) # m else (k', v') # amap_set k v m)"

definition amap_del :: "'k \<Rightarrow> ('k, 'v) amap \<Rightarrow> ('k, 'v) amap" where
  "amap_del k m = filter (\<lambda>(k', _). k' \<noteq> k) m"

definition amap_ok :: "('k, 'v) amap \<Rightarrow> bool" where
  "amap_ok m = distinct (map fst m)"

lemma map_of_amap_set [simp, amap_simps]: "map_of (amap_set k v m) = (map_of m)(k \<mapsto> v)"
  by (induction k v m rule: amap_set.induct) (auto simp: fun_eq_iff)

lemma map_of_amap_del [simp, amap_simps]: "map_of (amap_del k m) = (map_of m)(k := None)"
  by (induction m) (auto simp: amap_del_def fun_eq_iff)

lemma keys_amap_set [simp, amap_simps]: "fst ` set (amap_set k v m) = insert k (fst ` set m)"
  by (induction k v m rule: amap_set.induct) auto

lemma amap_ok_Nil [simp, amap_simps]: "amap_ok []"
  by (simp add: amap_ok_def)

lemma amap_ok_set [simp, amap_simps]: "amap_ok m \<Longrightarrow> amap_ok (amap_set k v m)"
proof (induction k v m rule: amap_set.induct)
  case (2 k v k' v' m)
  then show ?case
    using keys_amap_set [of k v m] by (auto simp: amap_ok_def)
qed (simp add: amap_ok_def)

lemma amap_ok_filter [simp, amap_simps]: "amap_ok m \<Longrightarrow> amap_ok (filter P m)"
  by (simp add: amap_ok_def distinct_map_filter)

lemma amap_ok_del [simp, amap_simps]: "amap_ok m \<Longrightarrow> amap_ok (amap_del k m)"
  by (simp add: amap_del_def)

lemma length_amap_set [amap_simps]:
  "amap_ok m \<Longrightarrow> length (amap_set k v m) = (if map_of m k = None then Suc (length m) else length m)"
  by (induction k v m rule: amap_set.induct) (auto simp: amap_ok_def)

end
