(* ===== verification/CommonData.thy ===== *)
theory CommonData
  imports BcosPrelude
begin

text \<open>
  The byte-level conversions of \<open>libdevcore/CommonData.h\<close>, \<open>libdevcore/CommonData.cpp\<close>
  and the views of \<open>libdevcore/vector_ref.h\<close>: hexadecimal text, big-endian
  integers, nibbles and cropping. The lemmas are the round trips the codecs above rely on.
\<close>

named_theorems bigendian_simps \<open>conversions between numbers and big-endian byte strings\<close>

section \<open>Big-endian integers\<close>

text \<open>
  \<open>toBigEndian\<close> fills a buffer of \<open>n\<close> bytes from its end; the value is consumed eight
  bits at a time, and what does not fit is dropped.
\<close>

fun toBigEndian :: "nat \<Rightarrow> nat \<Rightarrow> bytes" where
  "toBigEndian 0 v = []"
| "toBigEndian (Suc n) v = toBigEndian n (v div 256) @ [of_nat (v mod 256)]"

text \<open>\<open>fromBigEndian\<close> at the unbounded type; a fixed-width instance keeps the low bits.\<close>

definition fromBigEndian :: "bytes \<Rightarrow> nat" where
  "fromBigEndian bs = foldl (\<lambda>ret b. ret * 256 + unat b) 0 bs"

definition fromBigEndian_w :: "nat \<Rightarrow> bytes \<Rightarrow> nat" where
  "fromBigEndian_w w bs = foldl (\<lambda>ret b. (ret * 256 + unat b) mod 2 ^ w) 0 bs"

fun bytesRequired :: "nat \<Rightarrow> nat" where
  "bytesRequired i = (if i = 0 then 0 else Suc (bytesRequired (i div 256)))"

declare bytesRequired.simps [simp del]

definition toCompactBigEndian :: "nat \<Rightarrow> nat \<Rightarrow> bytes" where
  "toCompactBigEndian v mn = toBigEndian (max mn (bytesRequired v)) v"

section \<open>Views\<close>

text \<open>\<open>vector_ref::cropped\<close>: out of bounds in any way gives the empty view.\<close>

definition cropped :: "'a list \<Rightarrow> nat \<Rightarrow> nat \<Rightarrow> 'a list" where
  "cropped d b c = (if b \<le> length d \<and> c \<le> length d \<and> b + c \<le> length d then take c (drop b d) else [])"

definition cropped_from :: "'a list \<Rightarrow> nat \<Rightarrow> 'a list" where
  "cropped_from d b = (if b \<le> length d then drop b d else [])"

section \<open>Hexadecimal text and nibbles\<close>

text \<open>\<open>fromHexChar\<close> returns \<open>-1\<close> on a character that is no hex digit.\<close>

definition fromHexChar :: "char \<Rightarrow> int" where
  "fromHexChar c =
     (let i = int (of_char c) in
      if 48 \<le> i \<and> i \<le> 57 then i - 48
      else if 97 \<le> i \<and> i \<le> 102 then i - 97 + 10
      else if 65 \<le> i \<and> i \<le> 70 then i - 65 + 10
      else -1)"

definition hexdigits :: string where
  "hexdigits = ''0123456789abcdef''"

fun toHex :: "bytes \<Rightarrow> string" where
  "toHex [] = []"
| "toHex (b # bs) = hexdigits ! (unat b div 16) # hexdigits ! (unat b mod 16) # toHex bs"

definition toHexPrefixed :: "bytes \<Rightarrow> string" where
  "toHexPrefixed bs = ''0x'' @ toHex bs"

definition isHex :: "string \<Rightarrow> bool" where
  "isHex s =
     list_all (\<lambda>c. fromHexChar c \<noteq> -1) (if take 2 s = ''0x'' then drop 2 s else s)"

datatype hex_error = BadHexCharacter

text \<open>The pair loop of \<open>fromHex\<close>; \<open>throw\<close> is \<open>WhenError::Throw\<close>, otherwise a bad
  character makes the whole result the empty byte string.\<close>

fun fromHex_pairs :: "bool \<Rightarrow> string \<Rightarrow> bytes \<Rightarrow> hex_error + bytes" where
  "fromHex_pairs throw (h # l # s) ret =
     (if fromHexChar h \<noteq> -1 \<and> fromHexChar l \<noteq> -1
      then fromHex_pairs throw s (ret @ [of_int (fromHexChar h * 16 + fromHexChar l)])
      else if throw then Inl BadHexCharacter else Inr [])"
| "fromHex_pairs throw s ret = Inr ret"

definition fromHex :: "string \<Rightarrow> bool \<Rightarrow> hex_error + bytes" where
  "fromHex s throw =
     (let t = (if 2 \<le> length s \<and> s ! 0 = CHR ''0'' \<and> s ! 1 = CHR ''x'' then drop 2 s else s) in
      if odd (length s)
      then (let h = fromHexChar (hd t) in
            if h \<noteq> -1 then fromHex_pairs throw (tl t) [of_int h]
            else if throw then Inl BadHexCharacter else Inr [])
      else fromHex_pairs throw t [])"

text \<open>\<open>isHash<T>\<close> at a hash type of \<open>sz\<close> bytes.\<close>

definition isHash :: "nat \<Rightarrow> string \<Rightarrow> bool" where
  "isHash sz h =
     ((length h = sz * 2 \<or> (length h = sz * 2 + 2 \<and> take 2 h = ''0x'')) \<and> isHex h)"

text \<open>\<open>escaped\<close>: \<open>char\<close> is signed, so the comparison with the blank also holds for
  every byte from 128 on.\<close>

definition prettyEscapes :: "char \<Rightarrow> char option" where
  "prettyEscapes = map_of [(CHR 0x0D, CHR ''r''), (CHR 0x0A, CHR ''n''), (CHR 0x09, CHR ''t''), (CHR 0x0B, CHR ''v'')]"

definition escaped_char :: "bool \<Rightarrow> char \<Rightarrow> string" where
  "escaped_char all i =
     (if i = CHR 0x22 \<and> \<not> all then [CHR 0x5C, CHR 0x22]
      else if i = CHR 0x5C \<and> \<not> all then [CHR 0x5C, CHR 0x5C]
      else if prettyEscapes i \<noteq> None \<and> \<not> all then [CHR 0x5C, the (prettyEscapes i)]
      else let n = (of_char i :: nat) in
        if n < 32 \<or> 128 \<le> n \<or> all
        then [CHR 0x5C, CHR ''x'', hexdigits ! (n div 16), hexdigits ! (n mod 16)]
        else [i])"

definition escaped :: "string \<Rightarrow> bool \<Rightarrow> string" where
  "escaped s all = [CHR 0x22] @ concat (map (escaped_char all) s) @ [CHR 0x22]"

fun commonPrefix :: "'a list \<Rightarrow> 'a list \<Rightarrow> nat" where
  "commonPrefix (x # xs) (y # ys) = (if x \<noteq> y then 0 else Suc (commonPrefix xs ys))"
| "commonPrefix xs ys = 0"

fun asNibbles :: "bytes \<Rightarrow> bytes" where
  "asNibbles [] = []"
| "asNibbles (b # bs) = b div 16 # b mod 16 # asNibbles bs"

section \<open>Lemmas on big-endian integers\<close>

lemma length_toBigEndian [simp, bigendian_simps]: "length (toBigEndian n v) = n"
  by (induction n arbitrary: v) auto

lemma fromBigEndian_Nil [simp]: "fromBigEndian [] = 0"
  by (simp add: fromBigEndian_def)

lemma fromBigEndian_snoc [simp, bigendian_simps]:
  "fromBigEndian (bs @ [b]) = fromBigEndian bs * 256 + unat b"
  by (simp add: fromBigEndian_def)

lemma unat_of_nat_byte [simp, bigendian_simps]: "n < 256 \<Longrightarrow> unat (of_nat n :: byte) = n"
  by (simp add: unat_of_nat take_bit_nat_eq_self)

lemma unat_byte_less [simp]: "unat (b :: byte) < 256"
  using unsigned_less [of b] by simp

lemma fromBigEndian_toBigEndian [bigendian_simps]:
  "fromBigEndian (toBigEndian n v) = v mod 256 ^ n"
proof (induction n arbitrary: v)
  case (Suc n)
  have "v mod 256 ^ Suc n = (v div 256) mod 256 ^ n * 256 + v mod 256"
    using mod_mult2_eq [of v 256 "256 ^ n"] by (simp add: mult.commute)
  with Suc show ?case by simp
qed simp

lemma fromBigEndian_bound: "fromBigEndian bs < 256 ^ length bs"
proof (induction bs rule: rev_induct)
  case (snoc b bs)
  have "unat b < 256" by simp
  moreover have "(fromBigEndian bs + 1) * 256 \<le> 256 ^ length bs * 256"
    using snoc by (intro mult_le_mono1) simp
  ultimately have "fromBigEndian bs * 256 + unat b < 256 ^ length bs * 256"
    by (simp only: add_mult_distrib)
  then show ?case by (simp add: mult.commute)
qed simp

lemma toBigEndian_fromBigEndian [bigendian_simps]:
  "toBigEndian (length bs) (fromBigEndian bs) = bs"
proof (induction bs rule: rev_induct)
  case (snoc b bs)
  have "unat b < 256" by simp
  then have "(fromBigEndian bs * 256 + unat b) div 256 = fromBigEndian bs"
    and "(fromBigEndian bs * 256 + unat b) mod 256 = unat b" by simp_all
  with snoc show ?case by simp
qed simp

lemma fromBigEndian_w_eq [bigendian_simps]: "fromBigEndian_w w bs = fromBigEndian bs mod 2 ^ w"
proof (induction bs rule: rev_induct)
  case (snoc b bs)
  have "(x mod 2 ^ w * 256 + unat b) mod 2 ^ w = (x * 256 + unat b) mod 2 ^ w" for x :: nat
    by (metis mod_add_left_eq mod_mult_left_eq)
  with snoc show ?case
    by (simp add: fromBigEndian_w_def fromBigEndian_def)
qed (simp add: fromBigEndian_w_def)

lemma bytesRequired_0 [simp]: "bytesRequired 0 = 0"
  by (simp add: bytesRequired.simps)

lemma bytesRequired_pos: "0 < i \<Longrightarrow> bytesRequired i = Suc (bytesRequired (i div 256))"
  by (simp add: bytesRequired.simps)

lemma bytesRequired_upper: "i < 256 ^ bytesRequired i"
proof (induction i rule: bytesRequired.induct)
  case (1 i)
  then show ?case
    by (cases "i = 0") (auto simp: bytesRequired_pos less_mult_imp_div_less div_less_iff_less_mult mult.commute)
qed

lemma bytesRequired_le: "i < 256 ^ n \<Longrightarrow> bytesRequired i \<le> n"
proof (induction n arbitrary: i)
  case (Suc n)
  show ?case
  proof (cases "i = 0")
    case False
    from Suc.prems have "i div 256 < 256 ^ n" by (simp add: less_mult_imp_div_less mult.commute)
    with Suc.IH False show ?thesis by (simp add: bytesRequired_pos)
  qed simp
qed simp

lemma bytesRequired_eq_0 [simp]: "bytesRequired i = 0 \<longleftrightarrow> i = 0"
  by (subst bytesRequired.simps) simp

lemma hd_toBigEndian_Required: "0 < i \<Longrightarrow> hd (toBigEndian (bytesRequired i) i) \<noteq> 0"
proof (induction i rule: bytesRequired.induct)
  case (1 i)
  show ?case
  proof (cases "i div 256 = 0")
    case True
    then have "i < 256" by simp
    with "1.prems" have "unat (of_nat i :: byte) \<noteq> 0" by simp
    then have "(of_nat i :: byte) \<noteq> 0" by (metis unat_0)
    with True \<open>i < 256\<close> "1.prems" show ?thesis by (simp add: bytesRequired_pos)
  next
    case False
    then have "toBigEndian (bytesRequired (i div 256)) (i div 256) \<noteq> []"
      by (metis bytesRequired_eq_0 length_toBigEndian list.size(3))
    then have "hd (toBigEndian (bytesRequired i) i) = hd (toBigEndian (bytesRequired (i div 256)) (i div 256))"
      using "1.prems" by (simp add: bytesRequired_pos [of i])
    with False "1" show ?thesis by simp
  qed
qed

lemma fromBigEndian_compact [simp, bigendian_simps]:
  "fromBigEndian (toBigEndian (bytesRequired i) i) = i"
  using bytesRequired_upper [of i] by (simp add: fromBigEndian_toBigEndian)

lemma toBigEndian_numeral:
  "toBigEndian (numeral k) v = toBigEndian (pred_numeral k) (v div 256) @ [of_nat (v mod 256)]"
  by (simp only: numeral_eq_Suc [of k] toBigEndian.simps)

section \<open>Lemmas on hexadecimal text\<close>

lemma hexdigits_all:
  "\<forall>n\<in>set [0..<16]. fromHexChar (hexdigits ! n) = int n \<and> hexdigits ! n \<noteq> CHR ''x''"
  by code_simp

lemma fromHexChar_hexdigits: "n < 16 \<Longrightarrow> fromHexChar (hexdigits ! n) = int n"
  using hexdigits_all by simp

lemma hexdigits_not_x: "n < 16 \<Longrightarrow> hexdigits ! n \<noteq> CHR ''x''"
  using hexdigits_all by simp

lemma of_int_nibbles: "(of_int (int (unat b div 16) * 16 + int (unat b mod 16)) :: byte) = b"
proof -
  have "int (unat b div 16) * 16 + int (unat b mod 16) = int (unat b)"
    by (metis div_mult_mod_eq of_nat_add of_nat_mult of_nat_numeral)
  then show ?thesis by simp
qed

lemma fromHex_pairs_toHex: "fromHex_pairs t (toHex bs) ret = Inr (ret @ bs)"
proof (induction bs arbitrary: ret)
  case (Cons b bs)
  have "unat b div 16 < 16" "unat b mod 16 < 16" using unat_byte_less [of b] by linarith+
  with Cons of_int_nibbles [of b] show ?case by (simp add: fromHexChar_hexdigits)
qed simp

lemma even_length_toHex [simp]: "even (length (toHex bs))"
  by (induction bs) auto

lemma length_toHex [simp]: "length (toHex bs) = 2 * length bs"
  by (induction bs) auto

lemma toHex_no_prefix: "\<not> (2 \<le> length (toHex bs) \<and> toHex bs ! 0 = CHR ''0'' \<and> toHex bs ! 1 = CHR ''x'')"
  by (cases bs) (auto simp: hexdigits_not_x)

lemma fromHex_toHex: "fromHex (toHex bs) t = Inr bs"
  unfolding fromHex_def Let_def if_not_P [OF toHex_no_prefix] by (simp add: fromHex_pairs_toHex)

lemma fromHex_toHexPrefixed: "fromHex (toHexPrefixed bs) t = Inr bs"
  by (simp add: fromHex_def toHexPrefixed_def fromHex_pairs_toHex)

lemma isHex_toHex_aux: "list_all (\<lambda>c. fromHexChar c \<noteq> -1) (toHex bs)"
proof (induction bs)
  case (Cons b bs)
  have "unat b div 16 < 16" "unat b mod 16 < 16" using unat_byte_less [of b] by linarith+
  with Cons show ?case by (simp add: fromHexChar_hexdigits)
qed simp

lemma isHash_toHex: "length bs = sz \<Longrightarrow> isHash sz (toHexPrefixed bs)"
  by (simp add: isHash_def isHex_def toHexPrefixed_def isHex_toHex_aux)

lemma commonPrefix_le: "commonPrefix xs ys \<le> length xs \<and> commonPrefix xs ys \<le> length ys"
  by (induction xs ys rule: commonPrefix.induct) auto

lemma commonPrefix_take: "take (commonPrefix xs ys) xs = take (commonPrefix xs ys) ys"
  by (induction xs ys rule: commonPrefix.induct) auto

lemma commonPrefix_maximal:
  "commonPrefix xs ys < length xs \<Longrightarrow> commonPrefix xs ys < length ys \<Longrightarrow>
    xs ! commonPrefix xs ys \<noteq> ys ! commonPrefix xs ys"
  by (induction xs ys rule: commonPrefix.induct) auto

lemma toHex_inj: "toHex a = toHex b \<Longrightarrow> a = b"
  by (metis Inr_inject fromHex_toHex)

end
