(* ===== verification/RLP.thy ===== *)
theory RLP
  imports CommonData
begin

text \<open>
  The Recursive Linear Prefix codec: \<open>libdevcore/RLP.h\<close> and \<open>libdevcore/RLP.cpp\<close>.
  The reader (\<open>class RLP\<close>) is a view of bytes together with the cache of \<open>operator[]\<close>;
  every accessor that may throw returns a value of the sum type over \<open>rlp_error\<close>. The
  writer (\<open>class RLPStream\<close>) is an output buffer with a stack of open lists. The
  second half holds the reference encoding and the lemmas that relate both to it.
\<close>

named_theorems rlp_defs \<open>the reader's definitions, for unfolding\<close>

section \<open>Constants and errors\<close>

definition c_rlpMaxLengthBytes :: nat where [simp]: "c_rlpMaxLengthBytes = 8"
definition c_rlpDataImmLenStart :: nat where [simp]: "c_rlpDataImmLenStart = 0x80"
definition c_rlpListStart :: nat where [simp]: "c_rlpListStart = 0xc0"
definition c_rlpDataImmLenCount :: nat where
  [simp]: "c_rlpDataImmLenCount = c_rlpListStart - c_rlpDataImmLenStart - c_rlpMaxLengthBytes"
definition c_rlpDataIndLenZero :: nat where
  [simp]: "c_rlpDataIndLenZero = c_rlpDataImmLenStart + c_rlpDataImmLenCount - 1"
definition c_rlpListImmLenCount :: nat where
  [simp]: "c_rlpListImmLenCount = 256 - c_rlpListStart - c_rlpMaxLengthBytes"
definition c_rlpListIndLenZero :: nat where
  [simp]: "c_rlpListIndLenZero = c_rlpListStart + c_rlpListImmLenCount - 1"

text \<open>
  The exceptions of the reader and the writer. The last two are no exceptions of the
  source: \<open>ReadPastEnd\<close> marks the one place where the code would copy bytes behind its view,
  \<open>AssertFailed\<close> an \<open>assert\<close> that stops the process while an item is converted.
\<close>

datatype rlp_error = BadRLP | BadCast | OversizeRLP | UndersizeRLP | RLPException | ReadPastEnd | AssertFailed

text \<open>The conversion flags, a bit set.\<close>

definition AllowNonCanon :: "nat \<Rightarrow> bool" where [simp]: "AllowNonCanon s = odd s"
definition ThrowOnFail :: "nat \<Rightarrow> bool" where [simp]: "ThrowOnFail s = odd (s div 4)"
definition FailIfTooBig :: "nat \<Rightarrow> bool" where [simp]: "FailIfTooBig s = odd (s div 8)"
definition FailIfTooSmall :: "nat \<Rightarrow> bool" where [simp]: "FailIfTooSmall s = odd (s div 16)"

definition Strict :: nat where [simp]: "Strict = 12"
definition VeryStrict :: nat where [simp]: "VeryStrict = 28"
definition LaissezFaire :: nat where [simp]: "LaissezFaire = 1"
definition ThrowIfTooSmall :: nat where [simp]: "ThrowIfTooSmall = 20"

section \<open>The reader\<close>

definition isNull :: "bytes \<Rightarrow> bool" where [rlp_defs]: "isNull d = (length d = 0)"

definition isEmpty :: "bytes \<Rightarrow> bool" where [rlp_defs]:
  "isEmpty d = (\<not> isNull d \<and> (unat (d ! 0) = c_rlpDataImmLenStart \<or> unat (d ! 0) = c_rlpListStart))"

definition isData :: "bytes \<Rightarrow> bool" where [rlp_defs]:
  "isData d = (\<not> isNull d \<and> unat (d ! 0) < c_rlpListStart)"

definition isList :: "bytes \<Rightarrow> bool" where [rlp_defs]:
  "isList d = (\<not> isNull d \<and> unat (d ! 0) \<ge> c_rlpListStart)"

definition isSingleByte :: "bytes \<Rightarrow> bool" where [rlp_defs]:
  "isSingleByte d = (\<not> isNull d \<and> unat (d ! 0) < c_rlpDataImmLenStart)"

definition lengthSize :: "bytes \<Rightarrow> nat" where [rlp_defs]:
  "lengthSize d =
     (if isData d \<and> unat (d ! 0) > c_rlpDataIndLenZero then unat (d ! 0) - c_rlpDataIndLenZero
      else if isList d \<and> unat (d ! 0) > c_rlpListIndLenZero then unat (d ! 0) - c_rlpListIndLenZero
      else 0)"

definition payloadOffset :: "bytes \<Rightarrow> nat" where [rlp_defs]:
  "payloadOffset d = (if isSingleByte d then 0 else 1 + lengthSize d)"

definition requireGood :: "bytes \<Rightarrow> rlp_error + unit" where [rlp_defs]:
  "requireGood d =
     (if isNull d then Inl BadRLP
      else if unat (d ! 0) \<noteq> c_rlpDataImmLenStart + 1 then Inr ()
      else if length d < 2 then Inl BadRLP
      else if unat (d ! 1) < c_rlpDataImmLenStart then Inl BadRLP
      else Inr ())"

text \<open>The two branches of \<open>length\<close> with an explicit length: \<open>ls\<close> bytes, minimal \<open>lim\<close>.
  The accumulator is a \<open>size_t\<close>.\<close>

definition explicitLength :: "bytes \<Rightarrow> nat \<Rightarrow> nat \<Rightarrow> rlp_error + nat" where [rlp_defs]:
  "explicitLength d ls lim =
     (if length d \<le> ls then Inl BadRLP
      else if length d > 1 \<and> d ! 1 = 0 then Inl BadRLP
      else if ls > 8 then Inl UndersizeRLP
      else if d ! 1 = 0 then Inl BadRLP
      else let ret = fromBigEndian_w 64 (take ls (drop 1 d)) in
        if ret < lim then Inl BadRLP
        else if ret \<ge> size_max - 0x100 then Inl UndersizeRLP
        else Inr ret)"

definition rlp_length :: "bytes \<Rightarrow> rlp_error + nat" where [rlp_defs]:
  "rlp_length d =
     (if isNull d then Inr 0
      else bindE (requireGood d) (\<lambda>_.
        let n = unat (d ! 0) in
        if n < c_rlpDataImmLenStart then Inr 1
        else if n \<le> c_rlpDataIndLenZero then Inr (n - c_rlpDataImmLenStart)
        else if n < c_rlpListStart
          then explicitLength d (n - c_rlpDataIndLenZero)
                 (c_rlpListStart - c_rlpDataImmLenStart - c_rlpMaxLengthBytes)
        else if n \<le> c_rlpListIndLenZero then Inr (n - c_rlpListStart)
        else explicitLength d (n - c_rlpListIndLenZero) (0x100 - c_rlpListStart - c_rlpMaxLengthBytes)))"

definition actualSize :: "bytes \<Rightarrow> rlp_error + nat" where [rlp_defs]:
  "actualSize d =
     (if isNull d then Inr 0
      else if isSingleByte d then Inr 1
      else if isData d \<or> isList d then bindE (rlp_length d) (\<lambda>l. Inr (payloadOffset d + l))
      else Inr 0)"

text \<open>
  The constructor. The second test runs on the data the first one may have reset, but
  compares with the size of the original view.
\<close>

definition rlp_open :: "bytes \<Rightarrow> nat \<Rightarrow> rlp_error + bytes" where [rlp_defs]:
  "rlp_open d s =
     bindE (if FailIfTooBig s
            then bindE (actualSize d) (\<lambda>n.
                   if n < length d then if ThrowOnFail s then Inl OversizeRLP else Inr [] else Inr d)
            else Inr d) (\<lambda>d1.
     if FailIfTooSmall s
     then bindE (actualSize d1) (\<lambda>n.
            if n > length d then if ThrowOnFail s then Inl UndersizeRLP else Inr [] else Inr d1)
     else Inr d1)"

definition sizeAsEncoded :: "bytes \<Rightarrow> rlp_error + nat" where [rlp_defs]:
  "sizeAsEncoded d = bindE (rlp_open d ThrowIfTooSmall) actualSize"

definition payload :: "bytes \<Rightarrow> rlp_error + bytes" where [rlp_defs]:
  "payload d =
     bindE (rlp_length d) (\<lambda>l.
       if l > length d then Inl BadRLP else Inr (cropped d (payloadOffset d) l))"

definition isInt :: "bytes \<Rightarrow> rlp_error + bool" where [rlp_defs]:
  "isInt d =
     (if isNull d then Inr False
      else bindE (requireGood d) (\<lambda>_.
        let n = unat (d ! 0) in
        if n < c_rlpDataImmLenStart then Inr (n \<noteq> 0)
        else if n = c_rlpDataImmLenStart then Inr True
        else if n \<le> c_rlpDataIndLenZero
          then if length d \<le> 1 then Inl BadRLP else Inr (d ! 1 \<noteq> 0)
        else if n < c_rlpListStart
          then if length d \<le> 1 + n - c_rlpDataIndLenZero then Inl BadRLP
               else Inr (d ! (1 + n - c_rlpDataIndLenZero) \<noteq> 0)
        else Inr False))"

text \<open>\<open>items\<close>: the loop ends since every non-empty view has a positive encoded size.\<close>

lemma actualSize_pos: "actualSize d = Inr n \<Longrightarrow> d \<noteq> [] \<Longrightarrow> 0 < n"
  by (auto simp: actualSize_def payloadOffset_def isNull_def isData_def isList_def bindE_eq_Inr
      split: if_splits)

lemma sizeAsEncoded_eq: "sizeAsEncoded d = Inr n \<longleftrightarrow> actualSize d = Inr n \<and> n \<le> length d"
  by (cases "actualSize d") (auto simp: sizeAsEncoded_def rlp_open_def bindE_eq_Inr split: if_splits)

lemma sizeAsEncoded_pos: "sizeAsEncoded d = Inr n \<Longrightarrow> d \<noteq> [] \<Longrightarrow> 0 < n"
  by (auto simp: sizeAsEncoded_eq dest: actualSize_pos)

function items_loop :: "bytes \<Rightarrow> nat \<Rightarrow> rlp_error + nat" where
  "items_loop d i =
     (if length d = 0 then Inr i
      else bindE (sizeAsEncoded d) (\<lambda>n. items_loop (cropped_from d n) (i + 1)))"
  by pat_completeness auto
termination
  by (relation "measure (length \<circ> fst)")
     (auto simp: cropped_from_def dest: sizeAsEncoded_pos)

declare items_loop.simps [simp del]

definition rlp_items :: "bytes \<Rightarrow> rlp_error + nat" where
  "rlp_items d = (if isList d then bindE (payload d) (\<lambda>p. items_loop p 0) else Inr 0)"

definition itemCount :: "bytes \<Rightarrow> rlp_error + nat" where
  "itemCount d = (if isList d then rlp_items d else Inr 0)"

definition itemCountStrict :: "bytes \<Rightarrow> rlp_error + nat" where
  "itemCountStrict d = (if \<not> isList d then Inl BadCast else rlp_items d)"

definition rlp_size :: "bytes \<Rightarrow> rlp_error + nat" where
  "rlp_size d = (if isData d then rlp_length d else Inr 0)"

definition sizeStrict :: "bytes \<Rightarrow> rlp_error + nat" where
  "sizeStrict d = (if \<not> isData d then Inl BadCast else rlp_length d)"

subsection \<open>Conversions\<close>

text \<open>
  \<open>toBytes\<close> copies \<open>length()\<close> bytes from the start of the payload's view, whatever the
  view's own size.
\<close>

definition toBytes :: "nat \<Rightarrow> bytes \<Rightarrow> rlp_error + bytes" where [rlp_defs]:
  "toBytes flags d =
     (if \<not> isData d then if ThrowOnFail flags then Inl BadCast else Inr []
      else bindE (payload d) (\<lambda>p. bindE (rlp_length d) (\<lambda>l.
             if length p < l then Inl ReadPastEnd else Inr (take l p))))"

definition toBytesConstRef :: "nat \<Rightarrow> bytes \<Rightarrow> rlp_error + bytes" where [rlp_defs]:
  "toBytesConstRef flags d =
     (if \<not> isData d then if ThrowOnFail flags then Inl BadCast else Inr []
      else bindE (payload d) (\<lambda>p. bindE (rlp_length d) (\<lambda>l. Inr (cropped p 0 l))))"

text \<open>\<open>toInt\<close> at an unsigned type of \<open>w\<close> bits, \<open>maxSize\<close> being its bytes.\<close>

definition toInt :: "nat \<Rightarrow> nat \<Rightarrow> bytes \<Rightarrow> rlp_error + nat" where [rlp_defs]:
  "toInt w flags d =
     bindE (requireGood d) (\<lambda>_. bindE (isInt d) (\<lambda>int.
       if (\<not> int \<and> \<not> AllowNonCanon flags) \<or> isList d \<or> isNull d
       then if ThrowOnFail flags then Inl BadCast else Inr 0
       else bindE (payload d) (\<lambda>p.
         if length p > w div 8 \<and> FailIfTooBig flags
         then if ThrowOnFail flags then Inl BadCast else Inr 0
         else Inr (fromBigEndian_w w p))))"

text \<open>The value of a 64-bit pattern read as \<open>int64_t\<close>.\<close>

definition as_int64 :: "nat \<Rightarrow> int" where
  "as_int64 n = (if n < 2 ^ 63 then int n else int n - 2 ^ 64)"

definition toPositiveInt64 :: "nat \<Rightarrow> bytes \<Rightarrow> rlp_error + int" where [rlp_defs]:
  "toPositiveInt64 flags d =
     bindE (toInt 64 flags d) (\<lambda>n.
       if ThrowOnFail flags \<and> as_int64 n < 0 then Inl BadCast else Inr (as_int64 n))"

definition toHash :: "nat \<Rightarrow> nat \<Rightarrow> bytes \<Rightarrow> rlp_error + bytes" where [rlp_defs]:
  "toHash N flags d =
     bindE (requireGood d) (\<lambda>_. bindE (payload d) (\<lambda>p.
       let l = length p in
       if \<not> isData d \<or> (l > N \<and> FailIfTooBig flags) \<or> (l < N \<and> FailIfTooSmall flags)
       then if ThrowOnFail flags then Inl BadCast else Inr (replicate N 0)
       else let s = min N l in Inr (replicate (N - s) 0 @ take s p)))"

subsection \<open>Iteration\<close>

text \<open>
  An iterator is the view of the current item and the number of bytes behind it. A view
  is an offset into the parent's data with a size, the offset \<open>None\<close> being the null view.
  The loop of a range-based \<open>for\<close> stops only when the current view is the end iterator,
  so it is a partial function: \<open>None\<close> is a loop that never ends.
\<close>

record rlp_iter =
  it_off :: "nat option"
  it_size :: nat
  it_remaining :: nat

definition iter_view :: "bytes \<Rightarrow> rlp_iter \<Rightarrow> bytes" where
  "iter_view d it = (case it_off it of None \<Rightarrow> [] | Some n \<Rightarrow> take (it_size it) (drop n d))"

definition iter_begin :: "bytes \<Rightarrow> rlp_error + rlp_iter" where
  "iter_begin d =
     (if isList d
      then bindE (payload d) (\<lambda>pl. bindE (sizeAsEncoded pl) (\<lambda>n.
        Inr \<lparr>it_off = (if payloadOffset d + length pl \<le> length d \<and> rlp_length d = Inr (length pl)
                        then Some (payloadOffset d) else None),
             it_size = n, it_remaining = length pl - n\<rparr>))
      else Inr \<lparr>it_off = Some (length d), it_size = 0, it_remaining = 0\<rparr>)"

definition iter_end :: "bytes \<Rightarrow> rlp_iter" where
  "iter_end d = \<lparr>it_off = Some (length d), it_size = 0, it_remaining = 0\<rparr>"

definition iter_next :: "bytes \<Rightarrow> rlp_iter \<Rightarrow> rlp_error + rlp_iter" where
  "iter_next d it =
     (let nxt = map_option (\<lambda>n. n + it_size it) (it_off it) in
      if it_remaining it \<noteq> 0
      then bindE (sizeAsEncoded (iter_view d \<lparr>it_off = nxt, it_size = it_remaining it, it_remaining = 0\<rparr>)) (\<lambda>n.
             Inr \<lparr>it_off = nxt, it_size = n, it_remaining = it_remaining it - min (it_remaining it) n\<rparr>)
      else Inr \<lparr>it_off = nxt, it_size = 0, it_remaining = 0\<rparr>)"

partial_function (option) iter_loop ::
  "(bytes \<Rightarrow> rlp_error + 'a) \<Rightarrow> bytes \<Rightarrow> rlp_iter \<Rightarrow> 'a list \<Rightarrow> (rlp_error + 'a list) option" where
  "iter_loop conv d it acc =
     (if it_off it = it_off (iter_end d) \<and> it_size it = it_size (iter_end d) then Some (Inr acc)
      else case bindE (rlp_open (iter_view d it) VeryStrict) conv of
        Inl e \<Rightarrow> Some (Inl e)
      | Inr x \<Rightarrow> (case iter_next d it of
          Inl e \<Rightarrow> Some (Inl e)
        | Inr it' \<Rightarrow> iter_loop conv d it' (acc @ [x])))"

definition rlp_foreach :: "(bytes \<Rightarrow> rlp_error + 'a) \<Rightarrow> bytes \<Rightarrow> (rlp_error + 'a list) option" where
  "rlp_foreach conv d =
     (case iter_begin d of Inl e \<Rightarrow> Some (Inl e) | Inr it \<Rightarrow> iter_loop conv d it [])"

definition toList :: "nat \<Rightarrow> bytes \<Rightarrow> (rlp_error + bytes list) option" where
  "toList flags d =
     (if \<not> isList d then Some (if ThrowOnFail flags then Inl BadCast else Inr [])
      else rlp_foreach Inr d)"

text \<open>\<open>toVector<T>\<close>, \<open>conv\<close> being \<open>convert<T>\<close> with the given flags.\<close>

definition toVector :: "(nat \<Rightarrow> bytes \<Rightarrow> rlp_error + 'a) \<Rightarrow> nat \<Rightarrow> bytes \<Rightarrow> (rlp_error + 'a list) option" where
  "toVector conv flags d =
     (if isList d
      then (case itemCount d of Inl e \<Rightarrow> Some (Inl e) | Inr _ \<Rightarrow> rlp_foreach (conv flags) d)
      else Some (if ThrowOnFail flags then Inl BadCast else Inr []))"

subsection \<open>Indexing\<close>

text \<open>
  An \<open>RLP\<close> object: its data and the mutable cache of \<open>operator[]\<close>. The operation returns
  the outcome and the object with its cache, also when it throws.
\<close>

record rlp =
  m_data :: bytes
  m_lastIndex :: nat
  m_lastEnd :: nat
  m_lastItem :: bytes

definition rlp_obj :: "bytes \<Rightarrow> rlp" where
  "rlp_obj d = \<lparr>m_data = d, m_lastIndex = size_max, m_lastEnd = 0, m_lastItem = []\<rparr>"

definition index_reset :: "nat \<Rightarrow> rlp \<Rightarrow> (rlp_error + unit) \<times> rlp" where
  "index_reset i r =
     (if i < m_lastIndex r
      then (case bindE (payload (m_data r)) (\<lambda>p. bindE (sizeAsEncoded p) (\<lambda>n. Inr (p, n))) of
              Inl e \<Rightarrow> (Inl e, r)
            | Inr (p, n) \<Rightarrow> (Inr (), r\<lparr>m_lastEnd := n, m_lastItem := cropped p 0 n, m_lastIndex := 0\<rparr>))
      else (Inr (), r))"

text \<open>The \<open>for\<close> loop; it runs at most \<open>i - m_lastIndex\<close> times.\<close>

fun index_loop :: "nat \<Rightarrow> rlp \<Rightarrow> (rlp_error + unit) \<times> rlp" where
  "index_loop 0 r = (Inr (), r)"
| "index_loop (Suc k) r =
     (if length (m_lastItem r) = 0 then (Inr (), r)
      else case payload (m_data r) of
        Inl e \<Rightarrow> (Inl e, r)
      | Inr p \<Rightarrow>
          let it = cropped_from p (m_lastEnd r) in
          (case sizeAsEncoded it of
             Inl e \<Rightarrow> (Inl e, r\<lparr>m_lastItem := it\<rparr>)
           | Inr n \<Rightarrow>
               let it' = cropped it 0 n in
               index_loop k (r\<lparr>m_lastItem := it', m_lastEnd := m_lastEnd r + length it',
                               m_lastIndex := m_lastIndex r + 1\<rparr>)))"

definition rlp_index :: "rlp \<Rightarrow> nat \<Rightarrow> (rlp_error + bytes) \<times> rlp" where
  "rlp_index r i =
     (case index_reset i r of
        (Inl e, r1) \<Rightarrow> (Inl e, r1)
      | (Inr _, r1) \<Rightarrow>
          (case index_loop (i - m_lastIndex r1) r1 of
             (Inl e, r2) \<Rightarrow> (Inl e, r2)
           | (Inr _, r2) \<Rightarrow> (rlp_open (m_lastItem r2) ThrowIfTooSmall, r2)))"

definition toPair ::
  "(bytes \<Rightarrow> rlp_error + 'a) \<Rightarrow> (bytes \<Rightarrow> rlp_error + 'b) \<Rightarrow> 'a \<times> 'b \<Rightarrow> nat \<Rightarrow> bytes \<Rightarrow> rlp_error + 'a \<times> 'b" where
  "toPair conv1 conv2 dflt flags d =
     bindE (itemCountStrict d) (\<lambda>n.
       if n \<noteq> 2 then if ThrowOnFail flags then Inl BadCast else Inr dflt
       else (case rlp_index (rlp_obj d) 0 of
               (Inl e, _) \<Rightarrow> Inl e
             | (Inr a, r) \<Rightarrow> bindE (conv1 a) (\<lambda>x.
                 bindE (fst (rlp_index r 1)) (\<lambda>b. bindE (conv2 b) (\<lambda>y. Inr (x, y))))))"

section \<open>The writer\<close>

text \<open>The head of \<open>m_listStack\<close> is the \<open>back()\<close> of the vector: items left, start offset.\<close>

record rlpstream =
  m_out :: bytes
  m_listStack :: "(nat \<times> nat) list"

definition rlpstream_new :: rlpstream where
  "rlpstream_new = \<lparr>m_out = [], m_listStack = []\<rparr>"

definition pushInt :: "nat \<Rightarrow> nat \<Rightarrow> bytes \<Rightarrow> bytes" where
  "pushInt i br out = out @ toBigEndian br i"

definition pushCount :: "nat \<Rightarrow> nat \<Rightarrow> bytes \<Rightarrow> rlp_error + bytes" where
  "pushCount count base out =
     (let br = bytesRequired count in
      if br + base > 0xff then Inl RLPException
      else Inr (pushInt count br (out @ [of_nat (br + base)])))"

text \<open>The loop of \<open>noteAppended\<close>: close every list that the new items complete.\<close>

fun note_loop :: "nat \<Rightarrow> (nat \<times> nat) list \<Rightarrow> bytes \<Rightarrow> rlp_error + rlpstream" where
  "note_loop cnt [] out = Inr \<lparr>m_out = out, m_listStack = []\<rparr>"
| "note_loop cnt ((left, p) # st) out =
     (if left < cnt then Inl RLPException
      else if left - cnt \<noteq> 0
        then Inr \<lparr>m_out = out, m_listStack = (left - cnt, p) # st\<rparr>
      else
        let s = length out - p; brs = bytesRequired s in
        if s < c_rlpListImmLenCount
        then note_loop 1 st (take p out @ [of_nat (c_rlpListStart + s)] @ drop p out)
        else if c_rlpListIndLenZero + brs \<le> 0xff
        then note_loop 1 st (take p out @ [of_nat (c_rlpListIndLenZero + brs)] @ toBigEndian brs s @ drop p out)
        else Inl RLPException)"

definition noteAppended :: "nat \<Rightarrow> rlpstream \<Rightarrow> rlp_error + rlpstream" where
  "noteAppended cnt s =
     (if cnt = 0 then Inr s else note_loop cnt (m_listStack s) (m_out s))"

definition appendRaw :: "bytes \<Rightarrow> nat \<Rightarrow> rlpstream \<Rightarrow> rlp_error + rlpstream" where
  "appendRaw bs cnt s = noteAppended cnt (s\<lparr>m_out := m_out s @ bs\<rparr>)"

definition appendList_raw :: "bytes \<Rightarrow> rlpstream \<Rightarrow> rlp_error + rlpstream" where
  "appendList_raw rlp s =
     (if length rlp < c_rlpListImmLenCount
      then appendRaw rlp 1 (s\<lparr>m_out := m_out s @ [of_nat (length rlp + c_rlpListStart)]\<rparr>)
      else bindE (pushCount (length rlp) c_rlpListIndLenZero (m_out s)) (\<lambda>out.
             appendRaw rlp 1 (s\<lparr>m_out := out\<rparr>)))"

definition appendList :: "nat \<Rightarrow> rlpstream \<Rightarrow> rlp_error + rlpstream" where
  "appendList items s =
     (if items \<noteq> 0 then Inr (s\<lparr>m_listStack := (items, length (m_out s)) # m_listStack s\<rparr>)
      else appendList_raw [] s)"

definition append_data :: "bytes \<Rightarrow> bool \<Rightarrow> rlpstream \<Rightarrow> rlp_error + rlpstream" where
  "append_data bs compact s =
     (let d = (if compact then dropWhile (\<lambda>b. b = 0) bs else bs); n = length d in
      bindE (if n = 1 \<and> unat (d ! 0) < c_rlpDataImmLenStart
             then Inr (s\<lparr>m_out := m_out s @ [d ! 0]\<rparr>)
             else bindE (if n < c_rlpDataImmLenCount
                         then Inr (m_out s @ [of_nat (n + c_rlpDataImmLenStart)])
                         else pushCount n c_rlpDataIndLenZero (m_out s)) (\<lambda>out.
                    appendRaw d 0 (s\<lparr>m_out := out\<rparr>)))
        (noteAppended 1))"

definition append_bigint :: "nat \<Rightarrow> rlpstream \<Rightarrow> rlp_error + rlpstream" where
  "append_bigint i s =
     bindE (if i = 0 then Inr (m_out s @ [of_nat c_rlpDataImmLenStart])
            else if i < c_rlpDataImmLenStart then Inr (m_out s @ [of_nat i])
            else let br = bytesRequired i in
              bindE (if br < c_rlpDataImmLenCount
                     then Inr (m_out s @ [of_nat (br + c_rlpDataImmLenStart)])
                     else let brbr = bytesRequired br in
                       if c_rlpDataIndLenZero + brbr > 0xff then Inl RLPException
                       else Inr (pushInt br brbr (m_out s @ [of_nat (c_rlpDataIndLenZero + brbr)])))
                (\<lambda>out. Inr (pushInt i br out)))
       (\<lambda>out. noteAppended 1 (s\<lparr>m_out := out\<rparr>))"

text \<open>\<open>append(unsigned)\<close>: every narrower and wider built-in integer type is converted to the
  32-bit \<open>unsigned\<close> first.\<close>

definition append_unsigned :: "int \<Rightarrow> rlpstream \<Rightarrow> rlp_error + rlpstream" where
  "append_unsigned i s = append_bigint (nat (i mod 2 ^ 32)) s"

definition append_hash :: "bytes \<Rightarrow> bool \<Rightarrow> bool \<Rightarrow> rlpstream \<Rightarrow> rlp_error + rlpstream" where
  "append_hash h compact allOrNothing s =
     (if allOrNothing \<and> list_all (\<lambda>b. b = 0) h then append_data [] False s else append_data h compact s)"

fun append_all :: "('a \<Rightarrow> rlpstream \<Rightarrow> rlp_error + rlpstream) \<Rightarrow> 'a list \<Rightarrow> rlpstream \<Rightarrow> rlp_error + rlpstream" where
  "append_all app [] s = Inr s"
| "append_all app (x # xs) s = bindE (app x s) (append_all app xs)"

definition appendVector :: "('a \<Rightarrow> rlpstream \<Rightarrow> rlp_error + rlpstream) \<Rightarrow> 'a list \<Rightarrow> rlpstream \<Rightarrow> rlp_error + rlpstream" where
  "appendVector app xs s = bindE (appendList (length xs) s) (append_all app xs)"

definition append_pair ::
  "(rlpstream \<Rightarrow> rlp_error + rlpstream) \<Rightarrow> (rlpstream \<Rightarrow> rlp_error + rlpstream) \<Rightarrow> rlpstream \<Rightarrow> rlp_error + rlpstream" where
  "append_pair app1 app2 s = bindE (appendList 2 s) (\<lambda>s1. bindE (app1 s1) app2)"

definition rlp_out :: "rlpstream \<Rightarrow> rlp_error + bytes" where
  "rlp_out s = (if m_listStack s \<noteq> [] then Inl RLPException else Inr (m_out s))"

section \<open>The reference encoding\<close>

definition rlp_header :: "nat \<Rightarrow> nat \<Rightarrow> bytes" where
  "rlp_header base n =
     (if n < 56 then [of_nat (base + n)]
      else of_nat (base + 55 + bytesRequired n) # toBigEndian (bytesRequired n) n)"

definition enc_data :: "bytes \<Rightarrow> bytes" where
  "enc_data bs =
     (if length bs = 1 \<and> unat (hd bs) < 0x80 then bs else rlp_header 0x80 (length bs) @ bs)"

definition enc_list :: "bytes \<Rightarrow> bytes" where
  "enc_list pl = rlp_header 0xc0 (length pl) @ pl"

definition enc_int :: "nat \<Rightarrow> bytes" where
  "enc_int i = enc_data (toBigEndian (bytesRequired i) i)"

text \<open>The sizes \<open>length\<close> accepts.\<close>

definition rlp_size_ok :: "nat \<Rightarrow> bool" where
  "rlp_size_ok n = (n < size_max - 0x100)"

subsection \<open>The reader on the reference encoding\<close>

lemma bytesRequired_le8: "rlp_size_ok n \<Longrightarrow> bytesRequired n \<le> 8"
  by (rule bytesRequired_le) (simp add: rlp_size_ok_def)

lemma bytesRequired_ge1: "56 \<le> n \<Longrightarrow> 1 \<le> bytesRequired n"
  by (simp add: bytesRequired_pos)

lemma explicitLength_bigendian:
  assumes "56 \<le> n" "rlp_size_ok n"
  shows "explicitLength (h # toBigEndian (bytesRequired n) n @ r) (bytesRequired n) 56 = Inr n"
proof -
  let ?t = "toBigEndian (bytesRequired n) n"
  have br: "1 \<le> bytesRequired n" "bytesRequired n \<le> 8"
    using assms bytesRequired_le8 bytesRequired_ge1 by blast+
  then have ne: "?t \<noteq> []" by (metis One_nat_def length_toBigEndian list.size(3) not_one_le_zero)
  then have "(?t @ r) ! 0 = hd ?t" using assms by (simp add: nth_append hd_conv_nth)
  with hd_toBigEndian_Required [of n] assms have nz: "(?t @ r) ! 0 \<noteq> 0" by simp
  have "fromBigEndian_w 64 ?t = n"
    using assms by (simp add: fromBigEndian_w_eq rlp_size_ok_def)
  with br nz assms show ?thesis
    by (simp add: explicitLength_def rlp_size_ok_def not_less)
qed

lemma unat_header_byte: "b + n < 256 \<Longrightarrow> unat (of_nat b + of_nat n :: byte) = b + n"
  by (metis of_nat_add unat_of_nat_byte)

lemma rlp_header_nonempty [simp]: "rlp_header b n \<noteq> []"
  by (simp add: rlp_header_def)

lemma rlp_header_hd:
  assumes "rlp_size_ok n" "b \<le> 0xc0"
  shows "unat (rlp_header b n ! 0) = (if n < 56 then b + n else b + 55 + bytesRequired n)"
  using assms bytesRequired_le8 [of n]
  by (auto simp del: of_nat_add simp: rlp_header_def)

lemma length_rlp_header: "length (rlp_header b n) = (if n < 56 then 1 else 1 + bytesRequired n)"
  by (simp add: rlp_header_def)

lemma data_header_reads:
  assumes "rlp_size_ok n" and "\<not> (n = 1 \<and> r \<noteq> [] \<and> unat (hd r) < 0x80)" and "n \<le> length r"
  defines "d \<equiv> rlp_header 0x80 n @ r"
  shows "isNull d = False" "isData d" "\<not> isList d" "\<not> isSingleByte d"
    and "rlp_length d = Inr n" and "payloadOffset d = length (rlp_header 0x80 n)"
    and "requireGood d = Inr ()"
proof -
  have br: "56 \<le> n \<Longrightarrow> 1 \<le> bytesRequired n \<and> bytesRequired n \<le> 8"
    using assms(1) bytesRequired_le8 bytesRequired_ge1 by blast
  have h: "unat (d ! 0) = (if n < 56 then 0x80 + n else 0xb7 + bytesRequired n)"
    using rlp_header_hd [of n 128] assms(1) by (simp add: d_def nth_append)
  have ne: "d \<noteq> []" by (simp add: d_def)
  then show 1: "isNull d = False" by (simp add: isNull_def)
  show 2: "isData d" "\<not> isList d" "\<not> isSingleByte d"
    using ne h br by (auto simp: isData_def isList_def isSingleByte_def isNull_def)
  have "n = 1 \<Longrightarrow> 2 \<le> length d \<and> 0x80 \<le> unat (d ! 1)"
    using assms(2,3) by (cases r) (auto simp: d_def rlp_header_def)
  then show 3: "requireGood d = Inr ()"
    using h 1 br by (auto simp: requireGood_def)
  show "payloadOffset d = length (rlp_header 0x80 n)"
    using h 2 br by (auto simp: payloadOffset_def lengthSize_def length_rlp_header)
  have "56 \<le> n \<Longrightarrow> explicitLength d (bytesRequired n) 56 = Inr n"
    using explicitLength_bigendian [of n _ r] assms(1) by (simp add: d_def rlp_header_def)
  then show "rlp_length d = Inr n"
    using h 1 3 br by (auto simp: rlp_length_def)
qed

lemma list_header_reads:
  fixes r :: bytes
  assumes "rlp_size_ok n"
  defines "d \<equiv> rlp_header 0xc0 n @ r"
  shows "isNull d = False" "\<not> isData d" "isList d" "\<not> isSingleByte d"
    and "rlp_length d = Inr n" and "payloadOffset d = length (rlp_header 0xc0 n)"
    and "requireGood d = Inr ()"
proof -
  have br: "56 \<le> n \<Longrightarrow> 1 \<le> bytesRequired n \<and> bytesRequired n \<le> 8"
    using assms(1) bytesRequired_le8 bytesRequired_ge1 by blast
  have h: "unat (d ! 0) = (if n < 56 then 0xc0 + n else 0xf7 + bytesRequired n)"
    using rlp_header_hd [of n 192] assms(1) by (simp add: d_def nth_append)
  have ne: "d \<noteq> []" by (simp add: d_def)
  then show 1: "isNull d = False" by (simp add: isNull_def)
  show 2: "\<not> isData d" "isList d" "\<not> isSingleByte d"
    using ne h br by (auto simp: isData_def isList_def isSingleByte_def isNull_def)
  show 3: "requireGood d = Inr ()"
    using h 1 br by (auto simp: requireGood_def)
  show "payloadOffset d = length (rlp_header 0xc0 n)"
    using h 2 br by (auto simp: payloadOffset_def lengthSize_def length_rlp_header)
  have "56 \<le> n \<Longrightarrow> explicitLength d (bytesRequired n) 56 = Inr n"
    using explicitLength_bigendian [of n _ r] assms(1) by (simp add: d_def rlp_header_def)
  then show "rlp_length d = Inr n"
    using h 1 3 br by (auto simp: rlp_length_def)
qed

lemma single_byte_reads:
  assumes "unat b < 0x80"
  shows "isData (b # r)" "\<not> isList (b # r)" "isSingleByte (b # r)" "requireGood (b # r) = Inr ()"
    and "rlp_length (b # r) = Inr 1" "payloadOffset (b # r) = 0" "isNull (b # r) = False"
  using assms by (auto simp: isNull_def isData_def isList_def isSingleByte_def requireGood_def
      rlp_length_def payloadOffset_def)

lemma cropped_append [simp]: "cropped (h @ bs @ r) (length h) (length bs) = bs"
  by (simp add: cropped_def)

text \<open>What every accessor reads at the front of a view that starts with an encoding.\<close>

lemma enc_data_reads:
  assumes "rlp_size_ok (length bs)"
  shows "isData (enc_data bs @ r)" "\<not> isList (enc_data bs @ r)" "requireGood (enc_data bs @ r) = Inr ()"
    and "rlp_length (enc_data bs @ r) = Inr (length bs)"
    and "payload (enc_data bs @ r) = Inr bs"
    and "actualSize (enc_data bs @ r) = Inr (length (enc_data bs))"
    and "enc_data bs \<noteq> []" "isNull (enc_data bs @ r) = False"
proof -
  consider (single) b where "bs = [b]" "unat b < 0x80"
    | (long) "\<not> (length bs = 1 \<and> unat (hd bs) < 0x80)"
    by (metis One_nat_def length_0_conv length_Suc_conv list.sel(1))
  then have "isData (enc_data bs @ r) \<and> \<not> isList (enc_data bs @ r) \<and> requireGood (enc_data bs @ r) = Inr ()
      \<and> rlp_length (enc_data bs @ r) = Inr (length bs) \<and> payload (enc_data bs @ r) = Inr bs
      \<and> actualSize (enc_data bs @ r) = Inr (length (enc_data bs)) \<and> enc_data bs \<noteq> []
      \<and> isNull (enc_data bs @ r) = False"
  proof cases
    case single
    then show ?thesis
      using single_byte_reads [of b r]
      by (simp add: enc_data_def payload_def actualSize_def cropped_def)
  next
    case long
    then have "\<not> (length bs = 1 \<and> bs @ r \<noteq> [] \<and> unat (hd (bs @ r)) < 0x80)"
      by (cases bs) auto
    note reads = data_header_reads [OF assms this]
    have "enc_data bs = rlp_header 0x80 (length bs) @ bs"
      using long by (auto simp: enc_data_def)
    with reads show ?thesis by (simp add: payload_def actualSize_def)
  qed
  then show "isData (enc_data bs @ r)" "\<not> isList (enc_data bs @ r)" "requireGood (enc_data bs @ r) = Inr ()"
    and "rlp_length (enc_data bs @ r) = Inr (length bs)"
    and "payload (enc_data bs @ r) = Inr bs"
    and "actualSize (enc_data bs @ r) = Inr (length (enc_data bs))"
    and "enc_data bs \<noteq> []" "isNull (enc_data bs @ r) = False" by blast+
qed

lemma enc_list_reads:
  assumes "rlp_size_ok (length pl)"
  shows "\<not> isData (enc_list pl @ r)" "isList (enc_list pl @ r)" "requireGood (enc_list pl @ r) = Inr ()"
    and "rlp_length (enc_list pl @ r) = Inr (length pl)"
    and "payload (enc_list pl @ r) = Inr pl"
    and "actualSize (enc_list pl @ r) = Inr (length (enc_list pl))"
    and "enc_list pl \<noteq> []" "payloadOffset (enc_list pl @ r) = length (rlp_header 0xc0 (length pl))"
  using list_header_reads [OF assms, of "pl @ r"]
  by (simp_all add: enc_list_def payload_def actualSize_def)

lemmas enc_data_reads0 = enc_data_reads(1-6,8) [where r = "[]", unfolded append_Nil2]
lemmas enc_list_reads0 = enc_list_reads(1-6,8) [where r = "[]", unfolded append_Nil2]

subsection \<open>Items of a sequence\<close>

text \<open>A byte string that is read as one item whatever follows it.\<close>

definition rlp_item :: "bytes \<Rightarrow> bool" where
  "rlp_item e = (e \<noteq> [] \<and> (\<forall>r. actualSize (e @ r) = Inr (length e)))"

lemma rlp_item_enc_data [simp, intro]: "rlp_size_ok (length bs) \<Longrightarrow> rlp_item (enc_data bs)"
  by (simp add: rlp_item_def enc_data_reads)

lemma rlp_item_enc_list [simp, intro]: "rlp_size_ok (length pl) \<Longrightarrow> rlp_item (enc_list pl)"
  by (simp add: rlp_item_def enc_list_reads)

lemma rlp_item_size: "rlp_item e \<Longrightarrow> sizeAsEncoded (e @ r) = Inr (length e)"
  by (simp add: rlp_item_def sizeAsEncoded_eq)

lemma rlp_item_open: "rlp_item e \<Longrightarrow> rlp_open e s = Inr e"
  using rlp_item_def [of e]
  by (auto simp: rlp_open_def dest: spec [of _ "[]"])

lemma sizeAsEncoded_Nil [simp]: "sizeAsEncoded [] = Inr 0"
  by (simp add: sizeAsEncoded_eq actualSize_def isNull_def)

lemma rlp_open_Nil [simp]: "rlp_open [] s = Inr []"
  by (simp add: rlp_open_def actualSize_def isNull_def)

lemma items_loop_concat:
  "list_all rlp_item es \<Longrightarrow> items_loop (concat es) i = Inr (i + length es)"
proof (induction es arbitrary: i)
  case Nil
  then show ?case by (simp add: items_loop.simps)
next
  case (Cons e es)
  then have "e \<noteq> []" by (simp add: rlp_item_def)
  then show ?case
    using Cons by (subst items_loop.simps) (simp add: rlp_item_size cropped_from_def)
qed

lemma itemCount_enc_list:
  assumes "list_all rlp_item es" "rlp_size_ok (length (concat es))"
  shows "itemCount (enc_list (concat es)) = Inr (length es)"
  using assms enc_list_reads0 [of "concat es"]
  by (simp add: itemCount_def rlp_items_def items_loop_concat)

text \<open>The reference for \<open>operator[]\<close>: walk from the start, stop at the first empty item.\<close>

fun walk :: "bytes \<Rightarrow> nat \<Rightarrow> rlp_error + nat \<times> bytes" where
  "walk p 0 = bindE (sizeAsEncoded p) (\<lambda>n. Inr (n, cropped p 0 n))"
| "walk p (Suc i) =
     bindE (walk p i) (\<lambda>(e, it).
       if it = [] then Inr (e, it)
       else bindE (sizeAsEncoded (cropped_from p e)) (\<lambda>n.
              let it' = cropped (cropped_from p e) 0 n in Inr (e + length it', it')))"

definition rlp_at :: "bytes \<Rightarrow> nat \<Rightarrow> rlp_error + bytes" where
  "rlp_at d i =
     bindE (payload d) (\<lambda>p. bindE (walk p i) (\<lambda>(e, it). rlp_open it ThrowIfTooSmall))"

lemma walk_concat:
  assumes "list_all rlp_item es" "i < length es"
  shows "walk (concat es) i = Inr (length (concat (take (Suc i) es)), es ! i)"
  using assms
proof (induction i)
  case 0
  then show ?case by (cases es) (auto simp: rlp_item_size cropped_def)
next
  case (Suc i)
  then have ne: "es ! i \<noteq> []" and it: "rlp_item (es ! Suc i)"
    by (auto simp: list_all_length rlp_item_def)
  let ?e = "length (concat (take (Suc i) es))"
  have split: "concat es = concat (take (Suc i) es) @ concat (drop (Suc i) es)"
    by (metis append_take_drop_id concat_append)
  have "drop ?e (concat es) = es ! Suc i @ concat (drop (Suc (Suc i)) es)"
    using Suc.prems by (subst split) (simp add: Cons_nth_drop_Suc [symmetric])
  then have "cropped_from (concat es) ?e = es ! Suc i @ concat (drop (Suc (Suc i)) es)"
    unfolding cropped_from_def by (subst (1) split) simp
  moreover have "concat (take (Suc (Suc i)) es) = concat (take (Suc i) es) @ es ! Suc i"
    using Suc.prems by (simp add: take_Suc_conv_app_nth)
  ultimately show ?case
    using Suc ne it by (simp add: rlp_item_size cropped_def Let_def del: take_Suc_Cons)
qed

lemma walk_past_end:
  assumes "list_all rlp_item es" "length es \<le> i"
  shows "walk (concat es) i = Inr (length (concat es), [])"
  using assms(2)
proof (induction i)
  case 0
  then show ?case by (simp add: cropped_def)
next
  case (Suc i)
  show ?case
  proof (cases "length es \<le> i")
    case False
    with Suc have i: "i < length es" "length es = Suc i" by auto
    with assms(1) have "es ! i \<noteq> []" by (auto simp: list_all_length rlp_item_def)
    with walk_concat [OF assms(1) i(1)] i show ?thesis
      by (simp add: cropped_from_def cropped_def)
  qed (simp add: Suc)
qed

lemma rlp_at_payload:
  assumes "list_all rlp_item es" "payload d = Inr (concat es)"
  shows "rlp_at d i = Inr (if i < length es then es ! i else [])"
  using assms walk_past_end [OF assms(1), of i] walk_concat [OF assms(1), of i]
  by (auto simp: rlp_at_def rlp_item_open list_all_length)

subsection \<open>The indexing cache\<close>

text \<open>
  The cache is fresh or holds what a walk to \<open>m_lastIndex\<close> yields.
\<close>

definition cache_ok :: "rlp \<Rightarrow> bool" where
  "cache_ok r \<longleftrightarrow>
     m_lastIndex r = size_max \<or>
     (\<exists>p. payload (m_data r) = Inr p \<and> walk p (m_lastIndex r) = Inr (m_lastEnd r, m_lastItem r))"

lemma walk_stuck: "walk p k = Inr (e, []) \<Longrightarrow> walk p (k + j) = Inr (e, [])"
  by (induction j) auto

lemma index_loop_walk:
  assumes "payload (m_data r) = Inr p" "walk p (m_lastIndex r) = Inr (m_lastEnd r, m_lastItem r)"
  shows "case index_loop k r of
      (Inl e, _) \<Rightarrow> walk p (m_lastIndex r + k) = Inl e
    | (Inr _, r') \<Rightarrow> m_data r' = m_data r \<and> m_lastIndex r' \<le> m_lastIndex r + k
        \<and> walk p (m_lastIndex r') = Inr (m_lastEnd r', m_lastItem r')
        \<and> walk p (m_lastIndex r + k) = Inr (m_lastEnd r', m_lastItem r')"
  using assms
proof (induction k arbitrary: r)
  case (Suc k)
  show ?case
  proof (cases "m_lastItem r = []")
    case True
    with Suc.prems walk_stuck [of p "m_lastIndex r" _ "Suc k"] show ?thesis by simp
  next
    case False
    let ?it = "cropped_from p (m_lastEnd r)"
    show ?thesis
    proof (cases "sizeAsEncoded ?it")
      case (Inl e)
      with Suc.prems False have "walk p (Suc (m_lastIndex r)) = Inl e" by simp
      then have "walk p (Suc (m_lastIndex r) + j) = Inl e" for j by (induction j) auto
      from this [of k] Suc.prems False Inl show ?thesis by (simp add: Let_def)
    next
      case (Inr n)
      define r' where "r' = r\<lparr>m_lastItem := cropped ?it 0 n,
        m_lastEnd := m_lastEnd r + length (cropped ?it 0 n), m_lastIndex := m_lastIndex r + 1\<rparr>"
      have "index_loop (Suc k) r = index_loop k r'"
        using Suc.prems False Inr by (simp add: Let_def r'_def)
      moreover have "payload (m_data r') = Inr p" "m_data r' = m_data r"
        and "m_lastIndex r' = Suc (m_lastIndex r)"
        using Suc.prems by (simp_all add: r'_def)
      moreover have "walk p (m_lastIndex r') = Inr (m_lastEnd r', m_lastItem r')"
        using Suc.prems False Inr by (simp add: r'_def Let_def)
      ultimately show ?thesis
        using Suc.IH [of r'] by (simp only: add_Suc_right add_Suc)
    qed
  qed
qed simp

lemma index_reset_ok:
  assumes "cache_ok r" "i < size_max"
  shows "case index_reset i r of
      (Inl e, _) \<Rightarrow> rlp_at (m_data r) i = Inl e
    | (Inr _, r') \<Rightarrow> m_data r' = m_data r \<and> m_lastIndex r' \<le> i
        \<and> (\<exists>p. payload (m_data r) = Inr p \<and> walk p (m_lastIndex r') = Inr (m_lastEnd r', m_lastItem r'))"
proof (cases "i < m_lastIndex r")
  case True
  have walk_Inl: "sizeAsEncoded p = Inl e \<Longrightarrow> walk p i = Inl e" for p e
    by (induction i) auto
  from True show ?thesis
    by (cases "payload (m_data r)"; cases "sizeAsEncoded (projr (payload (m_data r)))")
       (auto simp: index_reset_def rlp_at_def walk_Inl)
next
  case False
  with assms show ?thesis by (auto simp: index_reset_def cache_ok_def)
qed

lemma rlp_index_refines:
  assumes "cache_ok r" "i < size_max"
  shows "fst (rlp_index r i) = rlp_at (m_data r) i"
    and "fst (rlp_index r i) = Inr x \<Longrightarrow>
      cache_ok (snd (rlp_index r i)) \<and> m_data (snd (rlp_index r i)) = m_data r"
proof -
  obtain o1 r1 where reset: "index_reset i r = (o1, r1)" by fastforce
  have "fst (rlp_index r i) = rlp_at (m_data r) i \<and> (fst (rlp_index r i) = Inr x \<longrightarrow>
      cache_ok (snd (rlp_index r i)) \<and> m_data (snd (rlp_index r i)) = m_data r)"
  proof (cases o1)
    case (Inl e)
    with index_reset_ok [OF assms] reset show ?thesis by (simp add: rlp_index_def)
  next
    case (Inr u)
    with index_reset_ok [OF assms] reset obtain p where
      r1: "m_data r1 = m_data r" "m_lastIndex r1 \<le> i" "payload (m_data r1) = Inr p"
        "walk p (m_lastIndex r1) = Inr (m_lastEnd r1, m_lastItem r1)" by auto
    obtain o2 r2 where loop: "index_loop (i - m_lastIndex r1) r1 = (o2, r2)" by fastforce
    from index_loop_walk [OF r1(3,4), of "i - m_lastIndex r1"] loop r1 reset Inr show ?thesis
      by (cases o2) (auto simp: rlp_index_def rlp_at_def cache_ok_def)
  qed
  then show "fst (rlp_index r i) = rlp_at (m_data r) i"
    and "fst (rlp_index r i) = Inr x \<Longrightarrow>
      cache_ok (snd (rlp_index r i)) \<and> m_data (snd (rlp_index r i)) = m_data r" by blast+
qed

lemma cache_ok_obj [simp]: "cache_ok (rlp_obj d)" and m_data_obj [simp]: "m_data (rlp_obj d) = d"
  by (simp_all add: cache_ok_def rlp_obj_def)

subsection \<open>The writer produces the reference encoding\<close>

text \<open>An operation that appends one encoded item and then closes what it completes.\<close>

definition emits :: "(rlpstream \<Rightarrow> rlp_error + rlpstream) \<Rightarrow> bytes \<Rightarrow> bool" where
  "emits f e = (\<forall>s. f s = note_loop 1 (m_listStack s) (m_out s @ e))"

lemma rlp_size_ok_data: "rlp_size_ok n \<Longrightarrow> bytesRequired n + c_rlpDataIndLenZero \<le> 0xff"
  and rlp_size_ok_list: "rlp_size_ok n \<Longrightarrow> bytesRequired n + c_rlpListIndLenZero \<le> 0xff"
  using bytesRequired_le8 [of n] by auto

lemma pushCount_header:
  assumes "rlp_size_ok n" "56 \<le> n"
  shows "pushCount n c_rlpDataIndLenZero out = Inr (out @ rlp_header 0x80 n)"
    and "pushCount n c_rlpListIndLenZero out = Inr (out @ rlp_header 0xc0 n)"
  using assms rlp_size_ok_data [of n] rlp_size_ok_list [of n]
  by (auto simp: pushCount_def pushInt_def rlp_header_def Let_def add.commute)

lemma noteAppended_1: "noteAppended 1 s = note_loop 1 (m_listStack s) (m_out s)"
  by (simp add: noteAppended_def)

lemma data_header_written:
  assumes "rlp_size_ok n"
  shows "(if n < c_rlpDataImmLenCount then Inr (out @ [of_nat (n + c_rlpDataImmLenStart)])
     else pushCount n c_rlpDataIndLenZero out) = Inr (out @ rlp_header 0x80 n)"
  using pushCount_header(1) [OF assms, of out] by (simp add: rlp_header_def add.commute)

lemma emits_append_data:
  assumes "rlp_size_ok (length bs)"
  shows "emits (append_data bs False) (enc_data bs)"
proof (cases "length bs = 1 \<and> unat (bs ! 0) < 0x80")
  case True
  then obtain b where "bs = [b]" by (metis One_nat_def length_0_conv length_Suc_conv)
  with True show ?thesis
    by (simp add: emits_def append_data_def enc_data_def noteAppended_def)
next
  case False
  moreover from False have "enc_data bs = rlp_header 0x80 (length bs) @ bs"
    by (cases bs) (auto simp: enc_data_def)
  ultimately show ?thesis
    by (simp only: emits_def append_data_def Let_def data_header_written [OF assms] if_False)
       (auto simp: noteAppended_def appendRaw_def)
qed

lemma emits_append_bigint:
  assumes "rlp_size_ok (bytesRequired i)"
  shows "emits (append_bigint i) (enc_int i)"
proof -
  consider "i = 0" | "0 < i" "i < 0x80" | "0x80 \<le> i" "i < 0x100" | "0x100 \<le> i" by linarith
  then show ?thesis
  proof cases
    case 4
    then have "2 \<le> bytesRequired i" by (simp add: bytesRequired_pos)
    with 4 assms rlp_size_ok_data [OF assms] show ?thesis
      by (auto simp: emits_def append_bigint_def enc_int_def enc_data_def rlp_header_def noteAppended_def
          pushInt_def Let_def add.commute)
  qed (simp_all add: emits_def append_bigint_def enc_int_def enc_data_def rlp_header_def noteAppended_def
      bytesRequired_pos pushInt_def)
qed

lemma emits_appendList_raw:
  assumes "rlp_size_ok (length pl)"
  shows "emits (appendList_raw pl) (enc_list pl)"
  using pushCount_header(2) [OF assms]
  by (auto simp: emits_def appendList_raw_def enc_list_def appendRaw_def noteAppended_def rlp_header_def
      not_less add.commute)

lemma note_loop_close:
  assumes "rlp_size_ok (length pl)"
  shows "note_loop 1 ((1, length out) # st) (out @ pl) = note_loop 1 st (out @ enc_list pl)"
  using rlp_size_ok_list [OF assms]
  by (simp add: enc_list_def rlp_header_def Let_def add.commute)

lemma note_loop_open:
  "note_loop 1 ((Suc (Suc k), p) # st) out = Inr \<lparr>m_out = out, m_listStack = (Suc k, p) # st\<rparr>"
  by simp

lemma append_all_in_list:
  assumes "list_all2 emits fs es" "fs \<noteq> []" "rlp_size_ok (length (pre @ concat es))"
  shows "append_all (\<lambda>f. f) fs \<lparr>m_out = out @ pre, m_listStack = (length fs, length out) # st\<rparr>
    = note_loop 1 st (out @ enc_list (pre @ concat es))"
  using assms
proof (induction fs arbitrary: es pre)
  case (Cons f fs)
  then obtain e es' where es: "es = e # es'" "emits f e" "list_all2 emits fs es'"
    by (auto simp: list_all2_Cons1)
  show ?case
  proof (cases fs)
    case Nil
    with es Cons.prems note_loop_close [of "pre @ e" out st] show ?thesis
      by (simp add: emits_def bindE_def split: sum.split)
  next
    case (Cons g gs)
    with es Cons.IH [OF es(3), of "pre @ e"] Cons.prems show ?thesis
      by (simp add: emits_def)
  qed
qed simp

text \<open>\<open>appendList(n)\<close> followed by \<open>n\<close> appended items.\<close>

lemma emits_list:
  assumes "list_all2 emits fs es" "rlp_size_ok (length (concat es))"
  shows "emits (\<lambda>s. bindE (appendList (length fs) s) (append_all (\<lambda>f. f) fs)) (enc_list (concat es))"
proof (cases "fs = []")
  case True
  with assms have "es = []" by simp
  with True emits_appendList_raw [of "[]"] show ?thesis
    by (simp add: appendList_def emits_def rlp_size_ok_def bindE_def split: sum.split)
next
  case False
  show ?thesis
    unfolding emits_def
  proof
    fix s :: rlpstream
    from False append_all_in_list [OF assms(1) False, of "[]" "m_out s" "m_listStack s"] assms(2)
    show "bindE (appendList (length fs) s) (append_all (\<lambda>f. f) fs)
        = note_loop 1 (m_listStack s) (m_out s @ enc_list (concat es))"
      by (cases s) (simp add: appendList_def)
  qed
qed

lemma append_all_map: "append_all app xs = append_all (\<lambda>f. f) (map app xs)"
proof
  show "append_all app xs s = append_all (\<lambda>f. f) (map app xs) s" for s
    by (induction xs arbitrary: s) (auto intro!: bindE_cong)
qed

lemma emits_appendVector:
  assumes "\<And>x. x \<in> set xs \<Longrightarrow> emits (app x) (e x)" "rlp_size_ok (length (concat (map e xs)))"
  shows "emits (appendVector app xs) (enc_list (concat (map e xs)))"
proof -
  have "list_all2 emits (map app xs) (map e xs)"
    using assms(1) by (simp add: list_all2_conv_all_nth)
  from emits_list [OF this] assms(2) show ?thesis
    by (simp add: appendVector_def [abs_def] append_all_map [of app xs])
qed

text \<open>Items appended outside every list are concatenated.\<close>

lemma append_all_flat:
  "list_all2 emits fs es \<Longrightarrow>
    append_all (\<lambda>f. f) fs \<lparr>m_out = out, m_listStack = []\<rparr> = Inr \<lparr>m_out = out @ concat es, m_listStack = []\<rparr>"
  by (induction arbitrary: out rule: list_all2_induct) (simp_all add: emits_def)

lemma emits_out: "emits f e \<Longrightarrow> bindE (f rlpstream_new) rlp_out = Inr e"
  by (simp add: emits_def rlpstream_new_def rlp_out_def)

subsection \<open>Integers\<close>

lemma enc_int_small: "bytesRequired i < 56 \<Longrightarrow> rlp_size_ok (bytesRequired i)"
  by (simp add: rlp_size_ok_def)

lemma isInt_enc_int:
  assumes "bytesRequired i < 56"
  shows "isInt (enc_int i) = Inr True"
proof -
  have ok: "rlp_size_ok (length (toBigEndian (bytesRequired i) i))"
    using assms by (simp add: enc_int_small)
  note reads = enc_data_reads0 [OF ok, folded enc_int_def]
  consider "i = 0" | "0 < i" "i < 0x80" | "0x80 \<le> i" "i < 0x100" | "0x100 \<le> i" by linarith
  then show ?thesis
  proof cases
    case 4
    then have br: "2 \<le> bytesRequired i" by (simp add: bytesRequired_pos)
    let ?t = "toBigEndian (bytesRequired i) i"
    have "?t \<noteq> []" using br by (metis length_toBigEndian list.size(3) not_numeral_le_zero)
    with hd_toBigEndian_Required [of i] 4 have nz: "?t ! 0 \<noteq> 0" by (simp add: hd_conv_nth)
    have e: "enc_int i = of_nat (0x80 + bytesRequired i) # ?t"
      using br assms by (simp add: enc_int_def enc_data_def rlp_header_def)
    have "unat (of_nat (0x80 + bytesRequired i) :: byte) = 0x80 + bytesRequired i"
      using assms by (simp del: of_nat_add)
    with e br nz assms show ?thesis
      by (simp add: isInt_def isNull_def requireGood_def Let_def del: of_nat_add)
  qed (simp_all add: enc_int_def enc_data_def rlp_header_def bytesRequired_pos isInt_def isNull_def
      requireGood_def unat_eq_0 [symmetric])
qed

lemma toInt_enc_int:
  assumes "i < 2 ^ w" "w div 8 * 8 = w" "w \<le> 256"
  shows "toInt w flags (enc_int i) = Inr i"
proof -
  have "i < 256 ^ (w div 8)"
  proof -
    have "(2 :: nat) ^ w = (2 ^ 8) ^ (w div 8)"
      using assms(2) by (metis mult.commute power_mult)
    with assms(1) show ?thesis by simp
  qed
  then have br: "bytesRequired i \<le> w div 8" by (rule bytesRequired_le)
  with assms(3) have small: "bytesRequired i < 56" by simp
  then have ok: "rlp_size_ok (length (toBigEndian (bytesRequired i) i))" by (simp add: enc_int_small)
  note reads = enc_data_reads0 [OF ok, folded enc_int_def]
  have "fromBigEndian_w w (toBigEndian (bytesRequired i) i) = i"
    using assms(1) by (simp add: fromBigEndian_w_eq)
  with reads br small show ?thesis by (simp add: toInt_def isInt_enc_int)
qed

subsection \<open>Canonicity\<close>

lemma bytesRequired_leading:
  assumes "bs \<noteq> []" "hd bs \<noteq> 0"
  shows "bytesRequired (fromBigEndian bs) = length bs"
  using assms
proof (induction bs rule: rev_induct)
  case (snoc b bs)
  show ?case
  proof (cases "bs = []")
    case True
    with snoc.prems have "0 < unat b" by (simp add: unat_gt_0)
    with True unat_byte_less [of b] show ?thesis by (simp add: bytesRequired_pos fromBigEndian_def)
  next
    case False
    with snoc have ih: "bytesRequired (fromBigEndian bs) = length bs" by simp
    with False have "0 < fromBigEndian bs" by (metis bytesRequired_0 gr0I length_0_conv)
    moreover have "(fromBigEndian bs * 256 + unat b) div 256 = fromBigEndian bs" by simp
    ultimately show ?thesis using ih by (simp add: bytesRequired_pos)
  qed
qed simp

lemma explicitLength_canonical:
  assumes "explicitLength d ls 56 = Inr n" "0 < ls" "ls \<le> 8"
  shows "ls < length d" "56 \<le> n" "rlp_size_ok n" "bytesRequired n = ls"
    and "take ls (drop 1 d) = toBigEndian (bytesRequired n) n"
proof -
  let ?t = "take ls (drop 1 d)"
  from assms have c: "ls < length d" "d ! 1 \<noteq> 0" "n = fromBigEndian_w 64 ?t" "56 \<le> n"
      "n < size_max - 0x100"
    by (auto simp: explicitLength_def Let_def split: if_splits)
  then show "ls < length d" "56 \<le> n" "rlp_size_ok n" by (simp_all add: rlp_size_ok_def)
  have len: "length ?t = ls" using c by simp
  have "fromBigEndian ?t < 256 ^ ls" using fromBigEndian_bound [of ?t] len by simp
  also have "(256 :: nat) ^ ls \<le> 256 ^ 8" using assms(3) by (intro power_increasing) simp_all
  finally have "n = fromBigEndian ?t" using c(3) by (simp add: fromBigEndian_w_eq)
  moreover have "?t \<noteq> []" using len assms(2) by auto
  moreover have "hd ?t \<noteq> 0" using c(1,2) assms(2) by (simp add: hd_conv_nth)
  ultimately show br: "bytesRequired n = ls" using bytesRequired_leading [of ?t] len by simp
  show "?t = toBigEndian (bytesRequired n) n"
    using toBigEndian_fromBigEndian [of ?t] br len \<open>n = fromBigEndian ?t\<close> by simp
qed

lemma split_header:
  assumes "length d = k + n" "k \<le> length d"
  shows "cropped d k n = drop k d" "d = take k d @ drop k d"
  using assms by (simp_all add: cropped_def)

lemma header_canonical:
  assumes ne: "d \<noteq> []" and len: "rlp_length d = Inr n" and size: "payloadOffset d + n = length d"
    and big: "0x80 \<le> unat (d ! 0)"
  shows "rlp_size_ok n" "take (payloadOffset d) d = rlp_header (if isList d then 0xc0 else 0x80) n"
proof -
  obtain b t where d: "d = b # t" using ne by (cases d) auto
  have nn: "isNull d = False" using ne by (simp add: isNull_def)
  consider (short_data) "unat b \<le> 0xb7" | (long_data) "0xb7 < unat b" "unat b < 0xc0"
    | (short_list) "0xc0 \<le> unat b" "unat b \<le> 0xf7" | (long_list) "0xf7 < unat b" by linarith
  then have "rlp_size_ok n \<and> take (payloadOffset d) d = rlp_header (if isList d then 0xc0 else 0x80) n"
  proof cases
    case short_data
    then have "n = unat b - 0x80" using len big d nn by (auto simp: rlp_length_def bindE_eq_Inr)
    moreover from this short_data big d have "n < 56" by simp
    ultimately show ?thesis
      using short_data big d nn
      by (simp add: rlp_size_ok_def payloadOffset_def lengthSize_def isSingleByte_def isData_def isList_def
          rlp_header_def del: of_nat_add)
  next
    case long_data
    then have "explicitLength d (unat b - 0xb7) 56 = Inr n"
      using len d nn by (auto simp: rlp_length_def bindE_eq_Inr)
    moreover have "unat b - 0xb7 \<le> 8" using long_data by simp
    ultimately show ?thesis
      using explicitLength_canonical [of d "unat b - 0xb7" n] long_data d nn
      by (simp add: payloadOffset_def lengthSize_def isSingleByte_def isData_def isList_def
          rlp_header_def del: of_nat_add)
  next
    case short_list
    then have "n = unat b - 0xc0" using len d nn by (auto simp: rlp_length_def bindE_eq_Inr)
    moreover from this short_list d have "n < 56" by simp
    ultimately show ?thesis
      using short_list d nn
      by (simp add: rlp_size_ok_def payloadOffset_def lengthSize_def isSingleByte_def isData_def isList_def
          rlp_header_def del: of_nat_add)
  next
    case long_list
    then have "explicitLength d (unat b - 0xf7) 56 = Inr n"
      using len d nn by (auto simp: rlp_length_def bindE_eq_Inr)
    moreover have "unat b - 0xf7 \<le> 8" using unat_byte_less [of b] by linarith
    ultimately show ?thesis
      using explicitLength_canonical [of d "unat b - 0xf7" n] long_list d nn
      by (simp add: payloadOffset_def lengthSize_def isSingleByte_def isData_def isList_def
          rlp_header_def del: of_nat_add)
  qed
  then show "rlp_size_ok n" "take (payloadOffset d) d = rlp_header (if isList d then 0xc0 else 0x80) n"
    by blast+
qed

lemma rlp_open_VeryStrict:
  "rlp_open d VeryStrict = Inr x \<longleftrightarrow> x = d \<and> actualSize d = Inr (length d)"
  by (cases "actualSize d") (auto simp: rlp_open_def bindE_eq_Inr split: if_splits)

lemma canonical_payload:
  assumes "d \<noteq> []" "actualSize d = Inr (length d)"
  obtains p where "payload d = Inr p" "rlp_size_ok (length p)" "d = (if isList d then enc_list p else enc_data p)"
proof (cases "isSingleByte d")
  case True
  then have "isData d" "\<not> isList d" "length d = 1"
    using assms by (auto simp: isSingleByte_def isData_def isList_def actualSize_def isNull_def)
  moreover from this obtain b where "d = [b]" by (metis One_nat_def length_0_conv length_Suc_conv)
  moreover have "unat b < 0x80" using True \<open>d = [b]\<close> by (simp add: isSingleByte_def)
  ultimately show ?thesis
    using that [of d] single_byte_reads [of b "[]"]
    by (simp add: payload_def cropped_def enc_data_def rlp_size_ok_def)
next
  case False
  with assms have big: "0x80 \<le> unat (d ! 0)" and nn: "isNull d = False"
    by (auto simp: isSingleByte_def isNull_def)
  then have dl: "isData d \<or> isList d" "\<not> (isData d \<and> isList d)" by (auto simp: isData_def isList_def)
  then obtain n where n: "rlp_length d = Inr n" "payloadOffset d + n = length d"
    using assms(2) False nn by (auto simp: actualSize_def bindE_eq_Inr)
  note hd = header_canonical [OF assms(1) n big]
  define p where "p = drop (payloadOffset d) d"
  have p: "payload d = Inr p" "length p = n"
    using n split_header(1) [of d "payloadOffset d" n] by (simp_all add: payload_def p_def)
  have d: "d = rlp_header (if isList d then 0xc0 else 0x80) n @ p"
    using hd(2) by (metis append_take_drop_id p_def)
  have good: "requireGood d = Inr ()"
    using n(1) nn by (auto simp: rlp_length_def bindE_eq_Inr)
  have "\<not> (length p = 1 \<and> unat (hd p) < 0x80)" if nl: "\<not> isList d"
  proof
    assume a: "length p = 1 \<and> unat (hd p) < 0x80"
    then obtain x where x: "p = [x]" by (metis One_nat_def length_0_conv length_Suc_conv)
    with p(2) have "n = 1" by simp
    with d nl x have "d = [0x81, x]" by (simp add: rlp_header_def)
    with good a x show False by (simp add: requireGood_def isNull_def)
  qed
  with d p(2) have "d = (if isList d then enc_list p else enc_data p)"
    by (auto simp: enc_list_def enc_data_def)
  with that [OF p(1)] p(2) hd(1) show ?thesis by simp
qed

subsection \<open>Iteration over the items of a list\<close>

lemma iter_loop_items:
  assumes "list_all rlp_item (e # es)" "d = pre @ e @ concat es"
  shows "iter_loop conv d \<lparr>it_off = Some (length pre), it_size = length e, it_remaining = length (concat es)\<rparr> acc
    = Some (bindE (mapE conv (e # es)) (\<lambda>ys. Inr (acc @ ys)))"
  using assms
proof (induction es arbitrary: e pre acc)
  case Nil
  then have "rlp_open e VeryStrict = Inr e" "e \<noteq> []" by (auto simp: rlp_item_open rlp_item_def)
  moreover have "iter_loop conv d \<lparr>it_off = Some (length d), it_size = 0, it_remaining = 0\<rparr> xs = Some (Inr xs)" for xs
    by (subst iter_loop.simps) (simp add: iter_end_def)
  ultimately show ?case
    using Nil.prems(2)
    by (cases "conv e") (subst iter_loop.simps, simp add: iter_view_def iter_end_def iter_next_def)+
next
  case (Cons e' es)
  then have ne: "e \<noteq> []" and op: "rlp_open e VeryStrict = Inr e"
    and it: "rlp_item e'" "e' \<noteq> []" by (auto simp: rlp_item_open rlp_item_def)
  have step: "iter_next d \<lparr>it_off = Some (length pre), it_size = length e, it_remaining = length (concat (e' # es))\<rparr>
      = Inr \<lparr>it_off = Some (length (pre @ e)), it_size = length e', it_remaining = length (concat es)\<rparr>"
    using Cons.prems(2) it rlp_item_size [OF it(1), of "concat es"]
    by (simp add: iter_next_def iter_view_def)
  have ih: "iter_loop conv d \<lparr>it_off = Some (length (pre @ e)), it_size = length e',
        it_remaining = length (concat es)\<rparr> acc' = Some (bindE (mapE conv (e' # es)) (\<lambda>ys. Inr (acc' @ ys)))" for acc'
    using Cons.prems by (intro Cons.IH) simp_all
  have view: "iter_view d \<lparr>it_off = Some (length pre), it_size = length e, it_remaining = length (concat (e' # es))\<rparr> = e"
    using Cons.prems(2) by (simp add: iter_view_def)
  have "iter_loop conv d \<lparr>it_off = Some (length pre), it_size = length e, it_remaining = length (concat (e' # es))\<rparr> acc
    = (case conv e of Inl x \<Rightarrow> Some (Inl x) | Inr x \<Rightarrow>
        iter_loop conv d \<lparr>it_off = Some (length (pre @ e)), it_size = length e', it_remaining = length (concat es)\<rparr> (acc @ [x]))"
    using ne by (subst iter_loop.simps) (simp only: step view op bindE_Inr, simp add: iter_end_def split: sum.split)
  then show ?case
    by (cases "conv e") (simp_all only: ih, simp_all add: bindE_assoc)
qed

lemma rlp_foreach_enc_list:
  assumes "list_all rlp_item es" "rlp_size_ok (length (concat es))"
  shows "rlp_foreach conv (enc_list (concat es)) = Some (mapE conv es)"
proof -
  let ?d = "enc_list (concat es)" and ?h = "rlp_header 0xc0 (length (concat es))"
  note reads = enc_list_reads0 [OF assms(2)]
  have d: "?d = ?h @ concat es" by (simp add: enc_list_def)
  show ?thesis
  proof (cases es)
    case Nil
    then have "iter_begin ?d = Inr \<lparr>it_off = Some (length ?d), it_size = 0, it_remaining = 0\<rparr>"
      using reads by (simp add: iter_begin_def) (simp add: enc_list_def)
    with Nil show ?thesis
      by (simp add: rlp_foreach_def) (subst iter_loop.simps, simp add: iter_end_def)
  next
    case (Cons e es')
    then have size: "sizeAsEncoded (concat es) = Inr (length e)"
      using assms(1) by (simp add: rlp_item_size)
    have "length ?h + length (concat es) = length ?d" by (simp only: d length_append)
    then have "iter_begin ?d = Inr \<lparr>it_off = Some (length ?h), it_size = length e,
        it_remaining = length (concat es')\<rparr>"
      using reads size Cons by (simp add: iter_begin_def)
    moreover have "bindE (mapE conv es) (\<lambda>ys. Inr ([] @ ys)) = mapE conv es"
      by (cases "mapE conv es") auto
    ultimately show ?thesis
      using iter_loop_items [of e es' ?d ?h conv "[]"] Cons assms(1) d
      by (simp add: rlp_foreach_def)
  qed
qed

lemma toList_enc_list:
  "list_all rlp_item es \<Longrightarrow> rlp_size_ok (length (concat es)) \<Longrightarrow>
    toList flags (enc_list (concat es)) = Some (Inr es)"
  using mapE_Inr [of es Inr "\<lambda>x. x"] by (simp add: toList_def enc_list_reads0 rlp_foreach_enc_list)

lemma toVector_enc_list:
  "list_all rlp_item es \<Longrightarrow> rlp_size_ok (length (concat es)) \<Longrightarrow>
    toVector conv flags (enc_list (concat es)) = Some (mapE (conv flags) es)"
  by (simp add: toVector_def enc_list_reads0 rlp_foreach_enc_list itemCount_enc_list)

subsection \<open>Iteration ends on exactly sized views\<close>

text \<open>
  The reference for a range-based loop over an \<open>RLP\<close>: split off one item after the other.
  Together with \<open>rlp_foreach_exact\<close> below, this is how the decoders above the codec
  iterate: \<open>operator[]\<close> and the very strict constructor only return exactly sized views.
\<close>

function each_loop :: "(bytes \<Rightarrow> rlp_error + 'a) \<Rightarrow> bytes \<Rightarrow> rlp_error + 'a list" where
  "each_loop conv p =
     (if length p = 0 then Inr []
      else bindE (sizeAsEncoded p) (\<lambda>n.
             bindE (bindE (rlp_open (cropped p 0 n) VeryStrict) conv) (\<lambda>x.
               bindE (each_loop conv (cropped_from p n)) (\<lambda>xs. Inr (x # xs)))))"
  by pat_completeness auto
termination
  by (relation "measure (length \<circ> snd)")
     (auto simp: cropped_from_def dest: sizeAsEncoded_pos)

declare each_loop.simps [simp del]

definition rlp_each :: "(bytes \<Rightarrow> rlp_error + 'a) \<Rightarrow> bytes \<Rightarrow> rlp_error + 'a list" where
  "rlp_each conv d = (if isList d then bindE (payload d) (each_loop conv) else Inr [])"

lemma sizeAsEncoded_le: "sizeAsEncoded p = Inr n \<Longrightarrow> n \<le> length p"
  by (simp add: sizeAsEncoded_eq)

lemma iter_loop_at_end:
  "iter_loop conv d \<lparr>it_off = Some (length d), it_size = 0, it_remaining = 0\<rparr> acc = Some (Inr acc)"
  by (subst iter_loop.simps) (simp add: iter_end_def)

lemma each_loop_Nil [simp]: "each_loop conv [] = Inr []"
  by (simp add: each_loop.simps)

lemma iter_loop_each:
  assumes "d = pre @ p" "p \<noteq> []" "sizeAsEncoded p = Inr n"
  shows "iter_loop conv d \<lparr>it_off = Some (length pre), it_size = n, it_remaining = length p - n\<rparr> acc
    = Some (bindE (each_loop conv p) (\<lambda>ys. Inr (acc @ ys)))"
  using assms
proof (induction "length p" arbitrary: p pre n acc rule: less_induct)
  case less
  let ?it = "\<lparr>it_off = Some (length pre), it_size = n, it_remaining = length p - n\<rparr>"
  let ?e = "take n p" and ?r = "drop n p"
  have n: "0 < n" "n \<le> length p" using less.prems sizeAsEncoded_pos sizeAsEncoded_le by blast+
  have view: "iter_view d ?it = ?e" using less.prems(1) by (simp add: iter_view_def)
  have not_end: "\<not> (it_off ?it = it_off (iter_end d) \<and> it_size ?it = it_size (iter_end d))"
    using n by (simp add: iter_end_def)
  have each: "each_loop conv p = bindE (bindE (rlp_open ?e VeryStrict) conv) (\<lambda>x.
      bindE (each_loop conv ?r) (\<lambda>xs. Inr (x # xs)))"
    using less.prems n by (subst each_loop.simps) (simp add: cropped_def cropped_from_def)
  have step: "iter_loop conv d ?it acc = (case bindE (rlp_open ?e VeryStrict) conv of
      Inl e \<Rightarrow> Some (Inl e)
    | Inr x \<Rightarrow> (case iter_next d ?it of Inl e \<Rightarrow> Some (Inl e) | Inr it' \<Rightarrow> iter_loop conv d it' (acc @ [x])))"
    by (subst iter_loop.simps) (simp only: not_end view if_False)
  show ?case
  proof (cases "?r = []")
    case True
    then have "iter_next d ?it = Inr \<lparr>it_off = Some (length d), it_size = 0, it_remaining = 0\<rparr>"
      using less.prems(1) n by (simp add: iter_next_def)
    with step each True show ?thesis
      by (cases "bindE (rlp_open ?e VeryStrict) conv") (simp_all add: iter_loop_at_end)
  next
    case False
    then have rem: "0 < length p - n" by simp
    have "iter_view d \<lparr>it_off = Some (length pre + n), it_size = length p - n, it_remaining = 0\<rparr> = ?r"
      using less.prems(1) n by (simp add: iter_view_def)
    with rem have nxt: "iter_next d ?it = bindE (sizeAsEncoded ?r) (\<lambda>m.
        Inr \<lparr>it_off = Some (length (pre @ ?e)), it_size = m, it_remaining = length ?r - min (length ?r) m\<rparr>)"
      using n by (simp add: iter_next_def)
    show ?thesis
    proof (cases "sizeAsEncoded ?r")
      case (Inl e)
      with False have "each_loop conv ?r = Inl e" by (subst each_loop.simps) simp
      with step each nxt Inl show ?thesis
        by (cases "bindE (rlp_open ?e VeryStrict) conv") simp_all
    next
      case (Inr m)
      then have "m \<le> length ?r" by (rule sizeAsEncoded_le)
      then have nxt': "iter_next d ?it = Inr \<lparr>it_off = Some (length (pre @ ?e)), it_size = m,
          it_remaining = length ?r - m\<rparr>" using nxt Inr by (simp add: min_def)
      have "iter_loop conv d \<lparr>it_off = Some (length (pre @ ?e)), it_size = m, it_remaining = length ?r - m\<rparr> acc'
          = Some (bindE (each_loop conv ?r) (\<lambda>ys. Inr (acc' @ ys)))" for acc'
        using False n Inr less.prems(1) by (intro less.hyps) simp_all
      with step each nxt' show ?thesis
        by (cases "bindE (rlp_open ?e VeryStrict) conv"; cases "each_loop conv ?r") simp_all
    qed
  qed
qed

lemma exact_list_payload:
  assumes "isList d" "actualSize d = Inr (length d)"
  obtains p where "payload d = Inr p" "rlp_length d = Inr (length p)"
    "d = take (payloadOffset d) d @ p" "payloadOffset d + length p = length d"
proof -
  have "\<not> isSingleByte d" "\<not> isNull d" "isList d"
    using assms(1) by (auto simp: isList_def isSingleByte_def)
  then obtain n where n: "rlp_length d = Inr n" "payloadOffset d + n = length d"
    using assms(2) by (auto simp: actualSize_def bindE_eq_Inr)
  then have "payload d = Inr (drop (payloadOffset d) d)"
    using split_header(1) [of d "payloadOffset d" n] by (simp add: payload_def)
  moreover have "length (drop (payloadOffset d) d) = n" using n(2) by (metis add_diff_cancel_left' length_drop)
  moreover have "d = take (payloadOffset d) d @ drop (payloadOffset d) d" by simp
  ultimately show ?thesis using n by (metis that)
qed

lemma rlp_foreach_exact:
  assumes "actualSize d = Inr (length d)"
  shows "rlp_foreach conv d = Some (rlp_each conv d)"
proof (cases "isList d")
  case True
  then obtain p where p: "payload d = Inr p" "rlp_length d = Inr (length p)"
    "d = take (payloadOffset d) d @ p" "payloadOffset d + length p = length d"
    using assms by (rule exact_list_payload)
  show ?thesis
  proof (cases "sizeAsEncoded p")
    case (Inl e)
    then have "each_loop conv p = Inl e" by (subst each_loop.simps) auto
    with Inl p True show ?thesis by (simp add: rlp_foreach_def iter_begin_def rlp_each_def)
  next
    case (Inr n)
    then have "iter_begin d = Inr \<lparr>it_off = Some (payloadOffset d), it_size = n, it_remaining = length p - n\<rparr>"
      using p True by (simp add: iter_begin_def)
    moreover have "length (take (payloadOffset d) d) = payloadOffset d" using p(4) by simp
    ultimately show ?thesis
      using iter_loop_each [OF p(3) _ Inr, of conv "[]"] p(1,4) True Inr iter_loop_at_end [of conv d "[]"]
      by (cases "p = []"; cases "each_loop conv p") (auto simp: rlp_foreach_def rlp_each_def)
  qed
next
  case False
  then show ?thesis
    by (simp add: rlp_foreach_def iter_begin_def rlp_each_def iter_loop_at_end)
qed

lemma each_loop_concat:
  "list_all rlp_item es \<Longrightarrow> each_loop conv (concat es) = mapE conv es"
proof (induction es)
  case (Cons e es)
  then have "rlp_item e" "e \<noteq> []" by (auto simp: rlp_item_def)
  then show ?case
    using Cons by (subst each_loop.simps)
      (simp add: rlp_item_size rlp_item_open cropped_def cropped_from_def)
qed simp

lemma rlp_each_enc_list:
  "list_all rlp_item es \<Longrightarrow> rlp_size_ok (length (concat es)) \<Longrightarrow> rlp_each conv (enc_list (concat es)) = mapE conv es"
  by (simp add: rlp_each_def enc_list_reads0 each_loop_concat)

section \<open>Properties of the codec\<close>

lemma toBytes_enc_data:
  "rlp_size_ok (length bs) \<Longrightarrow> toBytes flags (enc_data bs) = Inr bs"
  by (simp add: toBytes_def enc_data_reads0)

lemma toHash_enc_data:
  "length h = N \<Longrightarrow> rlp_size_ok N \<Longrightarrow> toHash N flags (enc_data h) = Inr h"
  by (simp add: toHash_def enc_data_reads0)

lemma length_enc_data_ge: "length bs \<le> length (enc_data bs)"
  by (simp add: enc_data_def)

lemma length_concat_member: "x \<in> set xs \<Longrightarrow> length (f x) \<le> length (concat (map f xs))"
  by (induction xs) auto

lemma rlp_size_ok_mono: "rlp_size_ok n \<Longrightarrow> m \<le> n \<Longrightarrow> rlp_size_ok m"
  by (simp add: rlp_size_ok_def)

lemma rlp_size_ok_member:
  "rlp_size_ok (length (concat (map enc_data xs))) \<Longrightarrow> x \<in> set xs \<Longrightarrow> rlp_size_ok (length x)"
  by (meson rlp_size_ok_mono length_concat_member length_enc_data_ge order_trans)

lemma rlp_at_enc_list:
  "list_all rlp_item es \<Longrightarrow> rlp_size_ok (length (concat es)) \<Longrightarrow>
    rlp_at (enc_list (concat es)) i = Inr (if i < length es then es ! i else [])"
  by (rule rlp_at_payload) (simp_all add: enc_list_reads0)

lemma length_rlp_header_le: "rlp_size_ok n \<Longrightarrow> length (rlp_header b n) \<le> 9"
  using bytesRequired_le8 [of n] by (simp add: length_rlp_header)

lemma length_enc_data_le: "rlp_size_ok (length bs) \<Longrightarrow> length (enc_data bs) \<le> length bs + 9"
  using length_rlp_header_le [of "length bs" 128] by (simp add: enc_data_def)

lemma length_enc_list_le: "rlp_size_ok (length pl) \<Longrightarrow> length (enc_list pl) \<le> length pl + 9"
  using length_rlp_header_le [of "length pl" 192] by (simp add: enc_list_def)

text \<open>The range of the \<open>u256\<close> integers.\<close>

definition u256 :: "nat \<Rightarrow> bool" where
  "u256 n = (n < 2 ^ 256)"

lemma u256_less: "n < 2 ^ k \<Longrightarrow> k \<le> 256 \<Longrightarrow> u256 n"
  unfolding u256_def by (meson less_le_trans one_le_numeral power_increasing)

lemma bytesRequired_u256: "u256 i \<Longrightarrow> bytesRequired i \<le> 32"
  by (rule bytesRequired_le) (simp add: u256_def power_mult [of 2 8 32, symmetric, simplified])

lemma rlp_size_ok_small [simp]: "n \<le> 2 ^ 63 \<Longrightarrow> rlp_size_ok n"
  by (simp add: rlp_size_ok_def)

lemma length_enc_int_le: "u256 i \<Longrightarrow> length (enc_int i) \<le> 41"
  using length_enc_data_le [of "toBigEndian (bytesRequired i) i"] bytesRequired_u256 [of i]
  by (simp add: enc_int_def rlp_size_ok_def)

lemma rlp_item_enc_int [simp, intro]: "u256 i \<Longrightarrow> rlp_item (enc_int i)"
  unfolding enc_int_def using bytesRequired_u256 [of i]
  by (intro rlp_item_enc_data) (simp add: rlp_size_ok_def)

lemma emits_append_u256: "u256 i \<Longrightarrow> emits (append_bigint i) (enc_int i)"
  using bytesRequired_u256 [of i] by (intro emits_append_bigint) (simp add: rlp_size_ok_def)

lemma emits_append_unsigned: "emits (append_unsigned i) (enc_int (nat (i mod 2 ^ 32)))"
proof -
  have "nat (i mod 2 ^ 32) < 2 ^ 32" by (simp add: nat_less_iff)
  then have "u256 (nat (i mod 2 ^ 32))" by (simp add: u256_def)
  then show ?thesis
    using emits_append_u256 by (simp add: append_unsigned_def [abs_def] emits_def)
qed

lemma emits_append_hash: "rlp_size_ok (length h) \<Longrightarrow> emits (append_hash h False False) (enc_data h)"
  using emits_append_data [of h] by (simp add: append_hash_def [abs_def] emits_def)

lemma toInt_enc_int_w:
  "i < 2 ^ w \<Longrightarrow> w \<in> {8, 16, 32, 64, 256} \<Longrightarrow> toInt w flags (enc_int i) = Inr i"
  by (rule toInt_enc_int) auto

lemma bindE_right_id [simp]: "bindE m Inr = m"
  by (cases m) simp_all

lemma append_all_Nil: "append_all f [] = Inr"
  by (rule ext) simp

lemma appendRaw_item: "emits (appendRaw e 1) e"
  by (simp add: emits_def appendRaw_def noteAppended_def)

lemma append_all_append: "append_all f (xs @ ys) s = bindE (append_all f xs s) (append_all f ys)"
  by (induction xs arbitrary: s) (auto simp: bindE_assoc intro!: bindE_cong)

lemma emits_list_n:
  assumes "list_all2 emits fs es" "rlp_size_ok (length (concat es))" "n = length fs"
  shows "emits (\<lambda>s. bindE (appendList n s) (append_all (\<lambda>f. f) fs)) (enc_list (concat es))"
  using emits_list [OF assms(1,2)] assms(3) by simp

lemma emits_append_pair:
  assumes "emits f a" "emits g b" "rlp_size_ok (length (a @ b))"
  shows "emits (append_pair f g) (enc_list (a @ b))"
proof -
  have "append_pair f g = (\<lambda>s. bindE (appendList 2 s) (append_all (\<lambda>f. f) [f, g]))"
    by (rule ext) (auto simp: append_pair_def append_all_Nil intro!: bindE_cong)
  with emits_list_n [of "[f, g]" "[a, b]" 2] assms show ?thesis by simp
qed

lemma emits_list_out:
  assumes "list_all2 emits fs es" "rlp_size_ok (length (concat es))" "n = length fs"
  shows "bindE (bindE (appendList n rlpstream_new) (append_all (\<lambda>f. f) fs)) rlp_out = Inr (enc_list (concat es))"
  using emits_out [OF emits_list [OF assms(1,2)]] assms(3) by simp

lemma toInt_u256: "u256 i \<Longrightarrow> toInt 256 flags (enc_int i) = Inr i"
  unfolding u256_def by (rule toInt_enc_int) auto

text \<open>
  C27. Writing a vector of byte strings with \<open>RLPStream\<close> and reading it with \<open>RLP\<close> gives the
  same vector: the stream closes its list, the very strict constructor accepts the bytes,
  the loop of \<open>toVector\<close> ends, and it returns the strings in order. The hypothesis is that
  the encoded items together stay below the size the reader supports.
\<close>

theorem rlp_vector_roundtrip:
  assumes "rlp_size_ok (length (concat (map enc_data xs)))"
  shows "\<exists>out. bindE (appendVector (\<lambda>b. append_data b False) xs rlpstream_new) rlp_out = Inr out
    \<and> rlp_open out VeryStrict = Inr out
    \<and> itemCount out = Inr (length xs)
    \<and> toVector toBytes flags out = Some (Inr xs)"
proof -
  have ok: "x \<in> set xs \<Longrightarrow> rlp_size_ok (length x)" for x
    using assms by (rule rlp_size_ok_member)
  then have items: "list_all rlp_item (map enc_data xs)"
    by (simp add: list_all_length)
  have "emits (appendVector (\<lambda>b. append_data b False) xs) (enc_list (concat (map enc_data xs)))"
    using assms by (intro emits_appendVector) (simp_all add: emits_append_data ok)
  moreover have "mapE (toBytes flags) (map enc_data xs) = Inr xs"
    using ok by (intro mapE_map_inverse toBytes_enc_data)
  ultimately show ?thesis
    using assms items
    by (simp add: emits_out rlp_item_open toVector_enc_list itemCount_enc_list)
qed

theorem rlp_vector_roundtrip_witness:
  "\<exists>out. bindE (appendVector (\<lambda>b. append_data b False) [[1, 2, 3], [], [200]] rlpstream_new) rlp_out = Inr out
    \<and> rlp_open out VeryStrict = Inr out \<and> itemCount out = Inr (length [[1, 2, 3], [], [200 :: byte]])
    \<and> toVector toBytes Strict out = Some (Inr [[1, 2, 3], [], [200]])"
  by (rule rlp_vector_roundtrip) (simp add: rlp_size_ok_def enc_data_def rlp_header_def)

text \<open>
  An unsigned integer of \<open>w\<close> bits (\<open>w\<close> a multiple of eight, at most 256) written by
  \<open>append(bigint)\<close> is read back by \<open>toInt\<close> with the strict flags.
\<close>

theorem rlp_int_roundtrip:
  assumes "i < 2 ^ w" "w mod 8 = 0" "w \<le> 256"
  shows "\<exists>out. bindE (append_bigint i rlpstream_new) rlp_out = Inr out
    \<and> rlp_open out VeryStrict = Inr out \<and> toInt w Strict out = Inr i"
proof -
  have w: "w div 8 * 8 = w" using assms(2) by auto
  have "i < 2 ^ 256"
    using assms(1,3) by (meson less_le_trans one_le_numeral power_increasing)
  then have "i < 256 ^ 32" by (simp add: power_mult [of 2 8 32, symmetric, simplified])
  then have "bytesRequired i \<le> 32" by (rule bytesRequired_le)
  then have ok: "rlp_size_ok (bytesRequired i)" by (simp add: rlp_size_ok_def)
  moreover have "rlp_item (enc_int i)"
    using ok by (simp add: enc_int_def)
  ultimately show ?thesis
    using toInt_enc_int [OF assms(1) w assms(3)]
    by (auto simp: emits_out [OF emits_append_bigint] rlp_item_open)
qed

theorem rlp_int_roundtrip_witness:
  "\<exists>out. bindE (append_bigint 70000 rlpstream_new) rlp_out = Inr out
    \<and> rlp_open out VeryStrict = Inr out \<and> toInt 64 Strict out = Inr 70000"
  by (rule rlp_int_roundtrip) simp_all

text \<open>
  C28. The encoding is canonical: every non-empty byte string that the very strict
  constructor accepts is what the writer produces from its payload, as a data item if it
  is one and as a list of that raw content otherwise. In particular two different accepted strings
  never have the same kind and payload.
\<close>

theorem rlp_canonical:
  assumes "rlp_open d VeryStrict = Inr d" "d \<noteq> []"
  shows "\<exists>p. payload d = Inr p \<and> bindE ((if isList d then appendList_raw p else append_data p False) rlpstream_new) rlp_out = Inr d"
proof -
  have "actualSize d = Inr (length d)" using assms(1) by (simp only: rlp_open_VeryStrict)
  with assms(2) obtain p where p: "payload d = Inr p" "rlp_size_ok (length p)"
      "d = (if isList d then enc_list p else enc_data p)" by (rule canonical_payload)
  then show ?thesis
    by (cases "isList d") (auto simp: emits_out [OF emits_append_data] emits_out [OF emits_appendList_raw])
qed

theorem rlp_canonical_witness:
  "\<exists>p. payload [0x83, 1, 2, 3] = Inr p \<and>
    bindE ((if isList [0x83, 1, 2, 3] then appendList_raw p else append_data p False) rlpstream_new) rlp_out
      = Inr [0x83, 1, 2, 3]"
  by (rule rlp_canonical) (simp_all add: rlp_defs)

text \<open>
  The index cache of \<open>operator[]\<close> is invisible: on an object whose cache is fresh or was
  left by successful accesses, an access returns what a walk from the first item returns,
  and a successful access leaves such an object, with the same data, behind.
\<close>

theorem rlp_index_cache_transparent:
  assumes "cache_ok r" "i < size_max"
  shows "fst (rlp_index r i) = rlp_at (m_data r) i \<and>
    (\<forall>x. fst (rlp_index r i) = Inr x \<longrightarrow>
      cache_ok (snd (rlp_index r i)) \<and> m_data (snd (rlp_index r i)) = m_data r)"
  using rlp_index_refines [OF assms] by blast

theorem rlp_index_cache_transparent_witness:
  "fst (rlp_index (rlp_obj [0xc2, 1, 2]) 1) = rlp_at [0xc2, 1, 2] 1 \<and> rlp_at [0xc2, 1, 2] 1 = Inr [2]"
  using rlp_index_cache_transparent [of "rlp_obj [0xc2, 1, 2]" 1]
  by (simp add: rlp_at_def rlp_defs cropped_def cropped_from_def)

text \<open>
  C34. Iterating over an exactly sized view always ends, whatever the bytes inside: the loop of
  \<open>toList\<close> and \<open>toVector\<close>, which compares iterators and may in general run forever, returns
  what splitting the payload item by item returns, including the exception it raises.
\<close>

theorem rlp_iteration_terminates:
  assumes "rlp_open d VeryStrict = Inr d"
  shows "rlp_foreach conv d = Some (rlp_each conv d)"
proof -
  have "actualSize d = Inr (length d)" using assms by (simp only: rlp_open_VeryStrict)
  then show ?thesis by (rule rlp_foreach_exact)
qed

theorem rlp_iteration_terminates_witness:
  "rlp_foreach Inr [0xc3, 1, 0x81, 5] = Some (rlp_each Inr [0xc3, 1, 0x81, 5])"
  by (rule rlp_iteration_terminates) (simp add: rlp_defs)

text \<open>
  Memory safety of \<open>toBytes\<close>: on a view that the constructor accepted with
  \<open>FailIfTooSmall\<close>, the copy of \<open>length()\<close> bytes stays inside the view, whatever the bytes are.
\<close>

theorem rlp_toBytes_in_bounds:
  assumes "rlp_open d ThrowIfTooSmall = Inr d"
  shows "toBytes flags d \<noteq> Inl ReadPastEnd"
proof (cases "rlp_length d")
  case (Inl e)
  then have "e \<noteq> ReadPastEnd"
    by (auto simp: rlp_length_def requireGood_def explicitLength_def Let_def bindE_def split: if_splits)
  with Inl show ?thesis by (auto simp: toBytes_def payload_def)
next
  case (Inr l)
  have size: "isData d \<Longrightarrow> payloadOffset d + l \<le> length d"
    using assms Inr
    by (cases "actualSize d")
       (auto simp: rlp_open_def actualSize_def isData_def isSingleByte_def payloadOffset_def isNull_def
         rlp_length_def bindE_eq_Inr split: if_splits)
  then show ?thesis
    using Inr by (auto simp: toBytes_def payload_def cropped_def)
qed

theorem rlp_toBytes_in_bounds_witness:
  "toBytes Strict [0x82, 7, 8] \<noteq> Inl ReadPastEnd"
  by (rule rlp_toBytes_in_bounds) (simp add: rlp_defs)

end
