(* ===== verification/TrieHash.thy ===== *)
theory TrieHash
  imports RLP "HOL-Library.List_Lexorder"
begin

text \<open>
  The hexary trie root of a map, \<open>libdevcore/TrieHash.cpp\<close>, with the hex-prefix
  notation of \<open>libdevcore/TrieCommon.h\<close> and \<open>libdevcore/TrieCommon.cpp\<close>. The hash
  function \<open>sha3\<close> is a parameter. The lemmas show that the recursion over the shared
  prefixes ends and that the hex-prefix notation can be read back.
\<close>

unbundle bit_operations_syntax

section \<open>Nibbles and the hex-prefix notation\<close>

definition nibble :: "bytes \<Rightarrow> nat \<Rightarrow> byte" where
  "nibble d i = (if odd i then d ! (i div 2) AND 15 else drop_bit 4 (d ! (i div 2)))"

text \<open>The first overload of \<open>hexPrefixEncode\<close>, on a vector of nibbles; \<open>e\<close> is its end argument.\<close>

fun pack_nibbles :: "bytes \<Rightarrow> bytes" where
  "pack_nibbles (a # b # r) = (a * 16 + b) # pack_nibbles r"
| "pack_nibbles _ = []"

definition hexPrefixEncode :: "bytes \<Rightarrow> bool \<Rightarrow> nat \<Rightarrow> int \<Rightarrow> bytes" where
  "hexPrefixEncode hexVector leaf begin e =
     (let stop = (if e < 0 then nat (int (length hexVector) + 1 + e) else nat e);
          isodd = ((stop - begin) mod 2 \<noteq> 0);
          nibs = drop begin (take stop hexVector);
          flags = ((if leaf then 2 else 0) OR (if isodd then 1 else 0)) * 16
      in if isodd then (flags OR hd nibs) # pack_nibbles (tl nibs) else flags # pack_nibbles nibs)"

text \<open>A \<open>NibbleSlice\<close> is the list of the nibbles it shows.\<close>

definition keyOf :: "bytes \<Rightarrow> bytes" where
  "keyOf hpe =
     (if length hpe = 0 then []
      else if hpe ! 0 AND 0x10 \<noteq> 0 then drop 1 (asNibbles hpe)
      else drop 2 (asNibbles hpe))"

definition isLeaf_payload :: "bytes \<Rightarrow> bool" where
  "isLeaf_payload pl = (pl ! 0 AND 0x20 \<noteq> 0)"

section \<open>Sorted maps\<close>

fun smap_set :: "'k::linorder \<Rightarrow> 'v \<Rightarrow> ('k \<times> 'v) list \<Rightarrow> ('k \<times> 'v) list" where
  "smap_set k v [] = [(k, v)]"
| "smap_set k v ((k', v') # m) =
     (if k < k' then (k, v) # (k', v') # m
      else if k = k' then (k, v) # m else (k', v') # smap_set k v m)"

text \<open>\<open>std::map::insert\<close> keeps the value of a key that is already present.\<close>

definition smap_insert :: "'k::linorder \<Rightarrow> 'v \<Rightarrow> ('k \<times> 'v) list \<Rightarrow> ('k \<times> 'v) list" where
  "smap_insert k v m = (if map_of m k = None then smap_set k v m else m)"

lemma map_of_smap_set [simp]: "map_of (smap_set k v m) = (map_of m)(k \<mapsto> v)"
  by (induction k v m rule: smap_set.induct) (auto simp: fun_eq_iff)

lemma keys_smap_set [simp]: "fst ` set (smap_set k v m) = insert k (fst ` set m)"
  by (induction k v m rule: smap_set.induct) auto

lemma sorted_smap_set:
  "sorted_wrt (<) (map fst m) \<Longrightarrow> sorted_wrt (<) (map fst (smap_set k v m))"
proof (induction k v m rule: smap_set.induct)
  case (2 k v k' v' m)
  have keys: "set (map fst (smap_set k v m)) = insert k (set (map fst m))"
    using keys_smap_set [of k v m] by simp
  show ?case
  proof (cases "k < k' \<or> k = k'")
    case True
    with 2 show ?thesis by (auto intro: less_trans)
  next
    case False
    then have "\<not> k < k'" "k \<noteq> k'" "k' < k" by auto
    then show ?thesis using 2 keys by auto
  qed
qed simp

section \<open>The root over a range of the map\<close>

function shared_from :: "bytes \<Rightarrow> bytes \<Rightarrow> nat \<Rightarrow> nat \<Rightarrow> nat" where
  "shared_from k1 k2 x i = (if i < x \<and> k1 ! i = k2 ! i then shared_from k1 k2 x (i + 1) else i)"
  by pat_completeness auto
termination by (relation "measure (\<lambda>(_, _, x, i). x - i)") auto

declare shared_from.simps [simp del]

text \<open>The loop over the successors of the first key; it stops once nothing is shared.\<close>

fun shared_loop :: "nat \<Rightarrow> bytes \<Rightarrow> (bytes \<times> bytes) list \<Rightarrow> nat \<Rightarrow> nat" where
  "shared_loop preLen k [] sharedPre = sharedPre"
| "shared_loop preLen k ((k', _) # r) sharedPre =
     (if sharedPre = 0 then sharedPre
      else let x = min sharedPre (min (length k) (length k'));
               shared = shared_from k k' x preLen
           in shared_loop preLen k r (min shared sharedPre))"

text \<open>The 16 subranges of the branch case, consumed from the left.\<close>

fun branch_groups :: "nat \<Rightarrow> nat list \<Rightarrow> (bytes \<times> bytes) list \<Rightarrow> (bytes \<times> bytes) list list" where
  "branch_groups preLen [] b = []"
| "branch_groups preLen (i # is) b =
     (let P = (\<lambda>(k, _). preLen < length k \<and> unat (k ! preLen) = i)
      in takeWhile P b # branch_groups preLen is (dropWhile P b))"

definition longest :: "(bytes \<times> bytes) list \<Rightarrow> nat" where
  "longest kvs = Max (insert 0 (length ` fst ` set kvs))"

lemma longest_ge: "(k, v) \<in> set kvs \<Longrightarrow> length k \<le> longest kvs"
  unfolding longest_def by (rule Max_ge) (auto intro!: rev_image_eqI)

lemma longest_mono: "set g \<subseteq> set kvs \<Longrightarrow> longest g \<le> longest kvs"
  unfolding longest_def by (intro Max_mono) auto

lemma shared_from_le: "shared_from k1 k2 x i \<le> max i x"
  by (induction k1 k2 x i rule: shared_from.induct) (subst shared_from.simps, auto)

lemma shared_loop_le: "shared_loop p k r sp \<le> sp"
  by (induction p k r sp rule: shared_loop.induct) (auto simp: Let_def min_le_iff_disj)

lemma shared_loop_bound:
  assumes "r \<noteq> []" "p < shared_loop p k r sp"
  shows "shared_loop p k r sp \<le> length k"
proof -
  obtain k' v' r' where r: "r = (k', v') # r'" using assms(1) by (metis list.exhaust surj_pair)
  let ?x = "min sp (min (length k) (length k'))"
  have sp: "sp \<noteq> 0" using assms(2) r by (cases "sp = 0") auto
  then have eq: "shared_loop p k r sp = shared_loop p k r' (min (shared_from k k' ?x p) sp)"
    using r by (simp add: Let_def)
  then have le: "shared_loop p k r sp \<le> shared_from k k' ?x p"
    using shared_loop_le [of p k r' "min (shared_from k k' ?x p) sp"] by simp
  with assms(2) shared_from_le [of k k' ?x p] show ?thesis by auto
qed

lemma branch_groups_sub:
  "g \<in> set (branch_groups p is b) \<Longrightarrow> set g \<subseteq> set b \<and> (\<forall>(k, v) \<in> set g. p < length k)"
proof (induction p "is" b rule: branch_groups.induct)
  case (2 p i "is" b)
  let ?P = "\<lambda>(k :: bytes, _ :: bytes). p < length k \<and> unat (k ! p) = i"
  show ?case
  proof (cases "g = takeWhile ?P b")
    case True
    then show ?thesis by (auto dest: set_takeWhileD)
  next
    case False
    with 2 have "set g \<subseteq> set (dropWhile ?P b) \<and> (\<forall>(k, v) \<in> set g. p < length k)"
      by (simp add: Let_def)
    then show ?thesis using set_dropWhileD [of _ ?P b] by blast
  qed
qed simp

lemma append_all_cong [fundef_cong]:
  assumes "xs = ys" "s = t" "\<And>x u. x \<in> set ys \<Longrightarrow> f x u = g x u"
  shows "append_all f xs s = append_all g ys t"
  unfolding assms(1,2) using assms(3)
  by (induction ys arbitrary: t) (auto intro!: bindE_cong)

function hash256rlp :: "(bytes \<Rightarrow> bytes) \<Rightarrow> (bytes \<times> bytes) list \<Rightarrow> nat \<Rightarrow> rlpstream \<Rightarrow> rlp_error + rlpstream"
  and hash256aux :: "(bytes \<Rightarrow> bytes) \<Rightarrow> (bytes \<times> bytes) list \<Rightarrow> nat \<Rightarrow> rlpstream \<Rightarrow> rlp_error + rlpstream"
where
  "hash256rlp sha3 [] preLen rlp = append_data [] False rlp"
| "hash256rlp sha3 [(k, v)] preLen rlp =
     bindE (appendList 2 rlp) (\<lambda>s.
       bindE (append_data (hexPrefixEncode k True preLen (-1)) False s) (append_data v False))"
| "hash256rlp sha3 ((k, v) # kv2 # r) preLen rlp =
     (let sharedPre = shared_loop preLen k (kv2 # r) (2 ^ 32 - 1) in
      if sharedPre > preLen
      then bindE (appendList 2 rlp) (\<lambda>s.
             bindE (append_data (hexPrefixEncode k False preLen (int sharedPre)) False s) (\<lambda>s.
               hash256aux sha3 ((k, v) # kv2 # r) sharedPre s))
      else bindE (appendList 17 rlp) (\<lambda>s.
             let b = (if preLen = length k then kv2 # r else (k, v) # kv2 # r) in
             bindE (append_all (\<lambda>g s. if g = [] then append_data [] False s else hash256aux sha3 g (preLen + 1) s)
                      (branch_groups preLen [0..<16] b) s)
               (\<lambda>s. if preLen = length k then append_data v False s else append_data [] False s)))"
| "hash256aux sha3 kvs preLen rlp =
     bindE (hash256rlp sha3 kvs preLen rlpstream_new) (\<lambda>s. bindE (rlp_out s) (\<lambda>out.
       if length out < 32 then appendRaw out 1 rlp else append_hash (sha3 out) False False rlp))"
  by pat_completeness auto

termination
proof (relation "measure (\<lambda>x. case x of
    Inl (_, kvs, p, _) \<Rightarrow> 2 * (Suc (longest kvs) - p)
  | Inr (_, kvs, p, _) \<Rightarrow> 2 * (Suc (longest kvs) - p) + 1)", goal_cases)
  case (2 sha3 k v kv2 r preLen rlp sp)
  have "sp \<le> length k" "preLen < sp"
    using 2 shared_loop_bound [of "kv2 # r" preLen k "2 ^ 32 - 1"] by auto
  moreover have "length k \<le> longest ((k, v) # kv2 # r)" by (rule longest_ge [of _ v]) simp
  ultimately show ?case by simp
next
  case (3 sha3 k v kv2 r preLen rlp sp s b g)
  then have g: "set g \<subseteq> set ((k, v) # kv2 # r)" "\<forall>(k, v) \<in> set g. preLen < length k" "g \<noteq> []"
    using branch_groups_sub [of g preLen "[0..<16]" b] by (auto split: if_splits)
  then obtain k' v' where "(k', v') \<in> set g" "preLen < length k'"
    by (metis (mono_tags, lifting) case_prodD last_in_set surj_pair)
  then have "preLen < longest g" using longest_ge [of k' v' g] by simp
  with longest_mono [OF g(1)] show ?case by simp
qed auto

declare hash256rlp.simps [simp del] hash256aux.simps [simp del]

definition rlp256 :: "(bytes \<Rightarrow> bytes) \<Rightarrow> (bytes \<times> bytes) list \<Rightarrow> rlp_error + bytes" where
  "rlp256 sha3 s =
     (if s = [] then bindE (append_data [] False rlpstream_new) rlp_out
      else let hexMap = foldl (\<lambda>m (k, v). smap_set (asNibbles k) v m) [] (rev s)
           in bindE (hash256rlp sha3 hexMap 0 rlpstream_new) rlp_out)"

definition hash256 :: "(bytes \<Rightarrow> bytes) \<Rightarrow> (bytes \<times> bytes) list \<Rightarrow> rlp_error + bytes" where
  "hash256 sha3 s = bindE (rlp256 sha3 s) (\<lambda>out. Inr (sha3 out))"

text \<open>\<open>rlp(j++)\<close> as the key of the \<open>j\<close>-th datum.\<close>

definition rlp_unsigned :: "nat \<Rightarrow> rlp_error + bytes" where
  "rlp_unsigned j = bindE (append_unsigned (int j) rlpstream_new) rlp_out"

fun trie_map :: "(nat \<times> bytes) list \<Rightarrow> (bytes \<times> bytes) list \<Rightarrow> rlp_error + (bytes \<times> bytes) list" where
  "trie_map [] m = Inr m"
| "trie_map ((j, d) # r) m = bindE (rlp_unsigned j) (\<lambda>k. trie_map r (smap_set k d m))"

definition orderedTrieRoot :: "(bytes \<Rightarrow> bytes) \<Rightarrow> bytes list \<Rightarrow> rlp_error + bytes" where
  "orderedTrieRoot sha3 data = bindE (trie_map (enumerate 0 data) []) (hash256 sha3)"

section \<open>Reading the hex-prefix notation\<close>

definition is_nibble :: "byte \<Rightarrow> bool" where
  "is_nibble n = (unat n < 16)"

lemma nibble_cases: "is_nibble n \<Longrightarrow> n \<in> set (map of_nat [0..<16])"
proof -
  assume "is_nibble n"
  then have "unat n \<in> set [0..<16]" by (simp add: is_nibble_def)
  then have "of_nat (unat n) \<in> set (map of_nat [0..<16] :: byte list)" by (metis image_eqI list.set_map)
  then show ?thesis by simp
qed

lemma flag_bytes_all:
  "list_all (\<lambda>n. list_all (\<lambda>leaf.
     let c = ((if leaf then 2 else 0) OR 1) * 16 OR n in
     c AND 0x10 \<noteq> 0 \<and> (c AND 0x20 \<noteq> 0) = leaf \<and> c mod 16 = n) [True, False]) (map of_nat [0..<16] :: byte list)"
  by code_simp

lemma flag_byte_odd:
  fixes leaf :: bool
  assumes "is_nibble n"
  defines "c \<equiv> ((if leaf then 2 else 0) OR 1) * 16 OR n"
  shows "c AND 0x10 \<noteq> 0" "(c AND 0x20 \<noteq> 0) = leaf" "c mod 16 = n"
proof -
  have "\<forall>leaf \<in> set [True, False]. let c = ((if leaf then 2 else 0) OR 1) * 16 OR n in
     c AND 0x10 \<noteq> 0 \<and> (c AND 0x20 \<noteq> 0) = leaf \<and> c mod 16 = n"
    using flag_bytes_all nibble_cases [OF assms(1)] unfolding list_all_iff by blast
  moreover have "leaf \<in> set [True, False]" by (cases leaf) simp_all
  ultimately show "c AND 0x10 \<noteq> 0" "(c AND 0x20 \<noteq> 0) = leaf" "c mod 16 = n"
    unfolding c_def Let_def by blast+
qed

lemma nibble_pair:
  assumes "is_nibble a" "is_nibble b"
  shows "(a * 16 + b) div 16 = a" "(a * 16 + b) mod 16 = b"
proof -
  from assms have "unat a < 16" "unat b < 16" by (simp_all add: is_nibble_def)
  then have "unat (a * 16 + b) = unat a * 16 + unat b"
    by (simp add: unat_word_ariths)
  then have "unat ((a * 16 + b) div 16) = unat a" "unat ((a * 16 + b) mod 16) = unat b"
    using \<open>unat b < 16\<close> by (simp_all add: unat_div unat_mod)
  then show "(a * 16 + b) div 16 = a" "(a * 16 + b) mod 16 = b"
    by (simp_all add: word_unat_eq_iff)
qed

lemma asNibbles_pack:
  "even (length ns) \<Longrightarrow> list_all is_nibble ns \<Longrightarrow> asNibbles (pack_nibbles ns) = ns"
  by (induction ns rule: pack_nibbles.induct) (simp_all add: nibble_pair)

text \<open>
  The hex-prefix notation of a trie path can be read back: for a vector of nibbles and a
  range inside it, \<open>keyOf\<close> recovers exactly the nibbles of the range and the leaf flag is the
  one that was encoded, whether the number of nibbles is even or odd.
\<close>

theorem hexPrefix_roundtrip:
  assumes "list_all is_nibble hv" "b \<le> e" "e \<le> length hv"
  shows "keyOf (hexPrefixEncode hv leaf b (int e)) = drop b (take e hv) \<and>
    isLeaf_payload (hexPrefixEncode hv leaf b (int e)) = leaf"
proof (cases "odd (e - b)")
  case False
  then have even: "(e - b) mod 2 = 0" by presburger
  let ?ns = "drop b (take e hv)"
  have "length ?ns = e - b" using assms by simp
  moreover have "list_all is_nibble ?ns"
    using assms(1) by (simp add: list_all_iff) (metis in_set_dropD in_set_takeD)
  ultimately have "asNibbles (pack_nibbles ?ns) = ?ns" using False by (intro asNibbles_pack) simp_all
  then show ?thesis
    using even by (simp add: hexPrefixEncode_def keyOf_def isLeaf_payload_def)
next
  case True
  then have odd: "(e - b) mod 2 \<noteq> 0" by presburger
  let ?ns = "drop b (take e hv)"
  have len: "length ?ns = e - b" using assms by simp
  with True obtain n ns where ns: "?ns = n # ns" by (cases ?ns) auto
  have "list_all is_nibble (n # ns)"
    using assms(1) by (simp add: ns [symmetric] list_all_iff) (metis in_set_dropD in_set_takeD)
  then have n: "is_nibble n" and "list_all is_nibble ns" by simp_all
  moreover have "even (length ns)" using len ns True by (metis even_Suc length_Cons)
  ultimately have "asNibbles (pack_nibbles ns) = ns" by (intro asNibbles_pack)
  with flag_byte_odd [OF n, of leaf] show ?thesis
    using odd ns by (simp add: hexPrefixEncode_def keyOf_def isLeaf_payload_def)
qed

theorem hexPrefix_roundtrip_witness:
  "keyOf (hexPrefixEncode [1, 2, 3, 4] True 1 (int 4)) = drop 1 (take 4 [1, 2, 3, 4]) \<and>
    isLeaf_payload (hexPrefixEncode [1, 2, 3, 4] True 1 (int 4)) = True"
  by (rule hexPrefix_roundtrip) (simp_all add: is_nibble_def)

section \<open>The root is always defined\<close>

text \<open>
  Every key and value of the map is below a bound, and hashes are 32 bytes long; then each
  node is written as one item of bounded size, so the computation never throws.
\<close>

lemma length_pack_nibbles: "length (pack_nibbles ns) \<le> length ns"
  by (induction ns rule: pack_nibbles.induct) auto

lemma length_hexPrefixEncode: "length (hexPrefixEncode hv leaf b e) \<le> Suc (length hv)"
proof -
  have "length (pack_nibbles (tl (drop b (take n hv)))) \<le> length hv" "length (pack_nibbles (drop b (take n hv))) \<le> length hv" for n
    using length_pack_nibbles [of "tl (drop b (take n hv))"] length_pack_nibbles [of "drop b (take n hv)"] by auto
  then show ?thesis by (simp add: hexPrefixEncode_def Let_def)
qed

lemma length_branch_groups [simp]: "length (branch_groups p is b) = length is"
  by (induction p "is" b rule: branch_groups.induct) (simp_all add: Let_def)

definition trie_bound :: "nat \<Rightarrow> (bytes \<times> bytes) list \<Rightarrow> bool" where
  "trie_bound B kvs \<longleftrightarrow> (\<forall>(k, v) \<in> set kvs. length k \<le> B \<and> length v \<le> B)"

definition node_ok :: "nat \<Rightarrow> (rlpstream \<Rightarrow> rlp_error + rlpstream) \<Rightarrow> bool" where
  "node_ok n f \<longleftrightarrow> (\<exists>e. emits f e \<and> length e \<le> n)"

lemma node_okI: "emits f e \<Longrightarrow> length e \<le> n \<Longrightarrow> node_ok n f"
  by (auto simp: node_ok_def)

lemma node_ok_data: "rlp_size_ok (length bs) \<Longrightarrow> length bs + 9 \<le> n \<Longrightarrow> node_ok n (append_data bs False)"
  using length_enc_data_le [of bs] by (intro node_okI [OF emits_append_data]) simp_all

lemma node_ok_pair:
  assumes "node_ok a f" "node_ok b g" "rlp_size_ok (a + b)" "a + b + 9 \<le> n"
  shows "node_ok n (append_pair f g)"
proof -
  obtain x y where xy: "emits f x" "length x \<le> a" "emits g y" "length y \<le> b"
    using assms(1,2) by (auto simp: node_ok_def)
  then have ok: "rlp_size_ok (length (x @ y))" using assms(3) by (auto simp: rlp_size_ok_def)
  then have "length (enc_list (x @ y)) \<le> n" using length_enc_list_le [OF ok] xy assms(4) by simp
  with emits_append_pair [OF xy(1,3) ok] show ?thesis by (rule node_okI)
qed

lemma list_all2_exists:
  "list_all P fs \<Longrightarrow> (\<And>f. P f \<Longrightarrow> \<exists>e. R f e) \<Longrightarrow> \<exists>es. list_all2 R fs es"
proof (induction fs)
  case (Cons f fs)
  from Cons.prems obtain e where "R f e" by auto
  moreover from Cons obtain es where "list_all2 R fs es" by auto
  ultimately show ?case by (intro exI [of _ "e # es"]) simp
qed (simp add: exI [of _ "[]"])

lemma length_concat_bound: "list_all (\<lambda>e. length e \<le> n) es \<Longrightarrow> length (concat es) \<le> n * length es"
  by (induction es) auto

lemma node_ok_list:
  assumes "list_all (node_ok a) fs" "rlp_size_ok (a * length fs)" "a * length fs + 9 \<le> n"
  shows "node_ok n (\<lambda>s. bindE (appendList (length fs) s) (append_all (\<lambda>f. f) fs))"
proof -
  obtain es where es: "list_all2 (\<lambda>f e. emits f e \<and> length e \<le> a) fs es"
    using list_all2_exists [OF assms(1), of "\<lambda>f e. emits f e \<and> length e \<le> a"] by (auto simp: node_ok_def)
  then have em: "list_all2 emits fs es" by (rule list_all2_mono) simp
  have "list_all (\<lambda>e. length e \<le> a) es" "length es = length fs"
    using es by (auto simp: list_all2_conv_all_nth list_all_length)
  then have len: "length (concat es) \<le> a * length fs" using length_concat_bound by metis
  then have ok: "rlp_size_ok (length (concat es))" using assms(2) by (auto simp: rlp_size_ok_def)
  have "length (enc_list (concat es)) \<le> n" using length_enc_list_le [OF ok] len assms(3) by simp
  with emits_list [OF em ok] show ?thesis by (rule node_okI)
qed

lemma hash256aux_ok:
  assumes "node_ok n (hash256rlp sha3 kvs p)" "\<And>b. length (sha3 b) = 32"
  shows "node_ok 41 (hash256aux sha3 kvs p)"
proof -
  obtain e where e: "emits (hash256rlp sha3 kvs p) e" using assms(1) by (auto simp: node_ok_def)
  have out: "bindE (hash256rlp sha3 kvs p rlpstream_new) rlp_out = Inr e" using e by (rule emits_out)
  then obtain s1 where "hash256rlp sha3 kvs p rlpstream_new = Inr s1" "rlp_out s1 = Inr e"
    unfolding bindE_eq_Inr by blast
  then have aux: "hash256aux sha3 kvs p s = (if length e < 32 then appendRaw e 1 s else append_hash (sha3 e) False False s)" for s
    by (simp add: hash256aux.simps)
  have len: "rlp_size_ok (length (sha3 e))" using assms(2) by (simp add: rlp_size_ok_def)
  show ?thesis
  proof (cases "length e < 32")
    case True
    with aux have "hash256aux sha3 kvs p = appendRaw e 1" by (intro ext) simp
    with appendRaw_item [of e] True show ?thesis by (auto intro: node_okI)
  next
    case False
    with aux have "hash256aux sha3 kvs p = append_hash (sha3 e) False False" by (intro ext) simp
    with emits_append_hash [OF len] length_enc_data_le [OF len] assms(2) show ?thesis
      by (auto intro!: node_okI)
  qed
qed

lemma append_pair_eq: "append_pair f g s = bindE (appendList 2 s) (\<lambda>s1. bindE (f s1) g)"
  by (simp add: append_pair_def)

lemma hash256rlp_leaf:
  "hash256rlp sha3 [(k, v)] p = append_pair (append_data (hexPrefixEncode k True p (-1)) False) (append_data v False)"
  by (rule ext) (simp add: hash256rlp.simps append_pair_eq)

lemma hash256rlp_extension:
  assumes "sp = shared_loop p k (kv2 # r) (2 ^ 32 - 1)" "p < sp"
  shows "hash256rlp sha3 ((k, v) # kv2 # r) p =
    append_pair (append_data (hexPrefixEncode k False p (int sp)) False) (hash256aux sha3 ((k, v) # kv2 # r) sp)"
  using assms by (intro ext) (simp add: hash256rlp.simps append_pair_eq Let_def)

lemma hash256rlp_branch:
  assumes "\<not> p < shared_loop p k (kv2 # r) (2 ^ 32 - 1)"
  shows "hash256rlp sha3 ((k, v) # kv2 # r) p = (\<lambda>s. bindE (appendList 17 s) (append_all (\<lambda>f. f)
     (map (\<lambda>g s. if g = [] then append_data [] False s else hash256aux sha3 g (p + 1) s)
        (branch_groups p [0..<16] (if p = length k then kv2 # r else (k, v) # kv2 # r))
      @ [append_data (if p = length k then v else []) False])))"
proof
  fix s
  let ?h = "\<lambda>g s. if g = [] then append_data [] False s else hash256aux sha3 g (p + 1) s"
  have h: "append_all ?h gs = append_all (\<lambda>f. f) (map ?h gs)" for gs by (rule append_all_map)
  show "hash256rlp sha3 ((k, v) # kv2 # r) p s = bindE (appendList 17 s) (append_all (\<lambda>f. f)
     (map ?h (branch_groups p [0..<16] (if p = length k then kv2 # r else (k, v) # kv2 # r))
      @ [append_data (if p = length k then v else []) False]))"
    using assms
    by (simp only: hash256rlp.simps Let_def if_False h) (auto simp: append_all_append append_all_Nil intro!: bindE_cong)
qed

lemma trie_bound_mono: "trie_bound B kvs \<Longrightarrow> set g \<subseteq> set kvs \<Longrightarrow> trie_bound B g"
  by (auto simp: trie_bound_def)

lemma hash256rlp_ok:
  assumes "trie_bound B kvs" "B \<le> 2 ^ 40" "\<And>b. length (sha3 b) = 32"
  shows "node_ok (17 * (B + 100)) (hash256rlp sha3 kvs p)"
  using assms(1)
proof (induction "Suc (longest kvs) - p" arbitrary: kvs p rule: less_induct)
  case less
  consider (empty) "kvs = []" | (leaf) k v where "kvs = [(k, v)]" | (node) k v kv2 r where "kvs = (k, v) # kv2 # r"
    by (metis list.exhaust surj_pair)
  then show ?case
  proof cases
    case empty
    then have "hash256rlp sha3 kvs p = append_data [] False" by (intro ext) (simp add: hash256rlp.simps)
    then show ?thesis using node_ok_data [of "[]"] by (simp add: rlp_size_ok_def)
  next
    case leaf
    have "length k \<le> B" "length v \<le> B" using less.prems leaf by (auto simp: trie_bound_def)
    then have "node_ok (B + 20) (append_data (hexPrefixEncode k True p (-1)) False)" "node_ok (B + 20) (append_data v False)"
      using length_hexPrefixEncode [of k True p "-1"] assms(2)
      by (auto intro!: node_ok_data simp: rlp_size_ok_def)
    then show ?thesis
      unfolding leaf hash256rlp_leaf using assms(2)
      by (intro node_ok_pair [of "B + 20" _ "B + 20"]) (simp_all add: rlp_size_ok_def)
  next
    case node
    have k: "length k \<le> B" "length v \<le> B" using less.prems node by (auto simp: trie_bound_def)
    have lk: "length k \<le> longest kvs" using node by (intro longest_ge [of _ v]) simp
    let ?sp = "shared_loop p k (kv2 # r) (2 ^ 32 - 1)"
    show ?thesis
    proof (cases "p < ?sp")
      case True
      then have "?sp \<le> length k" by (intro shared_loop_bound) simp_all
      with True lk have "Suc (longest kvs) - ?sp < Suc (longest kvs) - p" by simp
      from less.hyps [OF this less.prems]
      have "node_ok 41 (hash256aux sha3 kvs ?sp)" using assms(3) by (rule hash256aux_ok)
      moreover have "node_ok (B + 20) (append_data (hexPrefixEncode k False p (int ?sp)) False)"
        using length_hexPrefixEncode [of k False p "int ?sp"] k assms(2)
        by (auto intro!: node_ok_data simp: rlp_size_ok_def)
      ultimately have "node_ok (17 * (B + 100)) (append_pair (append_data (hexPrefixEncode k False p (int ?sp)) False) (hash256aux sha3 kvs ?sp))"
        using assms(2) by (intro node_ok_pair [of "B + 20" _ 41]) (simp_all add: rlp_size_ok_def)
      then show ?thesis using hash256rlp_extension [OF refl True] node by simp
    next
      case False
      let ?b = "if p = length k then kv2 # r else (k, v) # kv2 # r"
      let ?h = "\<lambda>g s. if g = [] then append_data [] False s else hash256aux sha3 g (p + 1) s"
      have grp: "node_ok (B + 90) (?h g)" if "g \<in> set (branch_groups p [0..<16] ?b)" for g
      proof (cases "g = []")
        case True
        then have "?h g = append_data [] False" by simp
        then show ?thesis using node_ok_data [of "[]" "B + 90"] by (simp add: rlp_size_ok_def)
      next
        case g: False
        have sub: "set g \<subseteq> set kvs" "\<forall>(k, v) \<in> set g. p < length k"
          using branch_groups_sub [OF that] node by (auto split: if_splits)
        with g obtain k' v' where "(k', v') \<in> set g" "p < length k'"
          by (metis (mono_tags, lifting) case_prodD last_in_set surj_pair)
        then have "p < longest g" using longest_ge [of k' v' g] by simp
        with longest_mono [OF sub(1)] have "Suc (longest g) - (p + 1) < Suc (longest kvs) - p" by simp
        from less.hyps [OF this trie_bound_mono [OF less.prems sub(1)]]
        have "node_ok 41 (hash256aux sha3 g (p + 1))" using assms(3) by (rule hash256aux_ok)
        moreover have "?h g = hash256aux sha3 g (p + 1)" using g by (intro ext) simp
        ultimately show ?thesis by (auto simp: node_ok_def)
      qed
      have last: "node_ok (B + 90) (append_data (if p = length k then v else []) False)"
        using k assms(2) by (intro node_ok_data) (simp_all add: rlp_size_ok_def)
      let ?fs = "map ?h (branch_groups p [0..<16] ?b) @ [append_data (if p = length k then v else []) False]"
      have "list_all (node_ok (B + 90)) ?fs" using grp last by (auto simp: list_all_iff)
      then have "node_ok (17 * (B + 100)) (\<lambda>s. bindE (appendList (length ?fs) s) (append_all (\<lambda>f. f) ?fs))"
        using assms(2) by (intro node_ok_list [of "B + 90"]) (simp_all add: rlp_size_ok_def)
      moreover have "length ?fs = 17" by simp
      ultimately show ?thesis unfolding node hash256rlp_branch [OF False] by simp
    qed
  qed
qed

lemma set_smap_set: "set (smap_set k v m) \<subseteq> insert (k, v) (set m)"
  by (induction k v m rule: smap_set.induct) auto

lemma keys_fold_smap_set:
  "set (foldl (\<lambda>m (k, v). smap_set (f k) v m) m xs) \<subseteq> set m \<union> (\<lambda>(k, v). (f k, v)) ` set xs"
proof (induction xs arbitrary: m)
  case (Cons x xs)
  show ?case
    using Cons [of "smap_set (f (fst x)) (snd x) m"] set_smap_set [of "f (fst x)" "snd x" m]
    by (cases x) fastforce
qed simp

lemma length_asNibbles [simp]: "length (asNibbles bs) = 2 * length bs"
  by (induction bs) auto

lemma hash256_defined:
  assumes "trie_bound B m" "B \<le> 2 ^ 39" "\<And>b. length (sha3 b) = 32"
  shows "\<exists>h. hash256 sha3 m = Inr h \<and> length h = 32"
proof (cases "m = []")
  case True
  then show ?thesis
    using emits_out [OF emits_append_data, of "[]"] assms(3) by (simp add: hash256_def rlp256_def rlp_size_ok_def)
next
  case False
  let ?hm = "foldl (\<lambda>m (k, v). smap_set (asNibbles k) v m) [] (rev m)"
  have "trie_bound (2 * B) ?hm"
    using assms(1) keys_fold_smap_set [of asNibbles "[]" "rev m"] by (fastforce simp: trie_bound_def)
  then have "node_ok (17 * (2 * B + 100)) (hash256rlp sha3 ?hm 0)"
    using assms(2,3) by (intro hash256rlp_ok) simp_all
  then obtain e where "emits (hash256rlp sha3 ?hm 0) e" by (auto simp: node_ok_def)
  then show ?thesis using emits_out False assms(3) by (fastforce simp: hash256_def rlp256_def)
qed

end
