(* ===== verification/FixedHash.thy ===== *)
theory FixedHash
  imports TrieHash
begin

text \<open>
  \<open>FixedHash<N>\<close> of \<open>libdevcore/FixedHash.h\<close>: a hash is a byte string of length \<open>N\<close>.
  The operations the rest of the code uses: construction, comparison, the bitwise
  operators and the bloom filter part. The record \<open>crypto\<close> collects the cryptographic
  primitives, which are parameters of the model.
\<close>

section \<open>Cryptographic primitives\<close>

text \<open>
  Signatures of 65 bytes (\<open>r\<close>, \<open>s\<close>, \<open>v\<close>) and public keys of 64 bytes; \<open>recover\<close> returns the
  zero public key when recovery fails.
\<close>

record crypto =
  sha3 :: "bytes \<Rightarrow> bytes"
  sign :: "bytes \<Rightarrow> bytes \<Rightarrow> bytes"
  recover :: "bytes \<Rightarrow> bytes \<Rightarrow> bytes"

section \<open>Hashes\<close>

definition hash_zero :: "nat \<Rightarrow> bytes" where
  "hash_zero N = replicate N 0"

text \<open>\<open>operator bool\<close>: some byte is not zero.\<close>

definition hash_bool :: "bytes \<Rightarrow> bool" where
  "hash_bool h = list_ex (\<lambda>b. b \<noteq> 0) h"

text \<open>The constructor from bytes with \<open>FailIfDifferent\<close>.\<close>

definition hash_of_bytes :: "nat \<Rightarrow> bytes \<Rightarrow> bytes" where
  "hash_of_bytes N b = (if length b = N then b else hash_zero N)"

text \<open>\<open>dev::verify\<close>: the public key is compared with the recovered one.\<close>

definition dev_verify :: "crypto \<Rightarrow> bytes \<Rightarrow> bytes \<Rightarrow> bytes \<Rightarrow> bool" where
  "dev_verify C p s h \<longleftrightarrow> hash_bool p \<and> p = recover C s h"

text \<open>The constructor from an integer, and the conversion back.\<close>

definition hash_of_nat :: "nat \<Rightarrow> nat \<Rightarrow> bytes" where
  "hash_of_nat N v = toBigEndian N v"

fun hash_less :: "bytes \<Rightarrow> bytes \<Rightarrow> bool" where
  "hash_less (a # as) (b # bs) = (if a < b then True else if a > b then False else hash_less as bs)"
| "hash_less _ _ = False"

definition hash_or :: "bytes \<Rightarrow> bytes \<Rightarrow> bytes" where
  "hash_or a b = map2 (OR) a b"

definition hash_and :: "bytes \<Rightarrow> bytes \<Rightarrow> bytes" where
  "hash_and a b = map2 (AND) a b"

definition hash_contains :: "bytes \<Rightarrow> bytes \<Rightarrow> bool" where
  "hash_contains a c = (hash_and a c = c)"

definition right160 :: "bytes \<Rightarrow> bytes" where
  "right160 h = take 20 (drop 12 h)"

section \<open>Bloom filters\<close>

text \<open>\<open>bloomPart<P, M>\<close> for \<open>M = 256\<close> bytes: two bytes per index, eleven bits of them used.\<close>

fun bloomPart :: "nat \<Rightarrow> bytes \<Rightarrow> bytes \<Rightarrow> bytes" where
  "bloomPart 0 p ret = ret"
| "bloomPart (Suc i) p ret =
     (let index = (unat (p ! 0) * 256 + unat (p ! 1)) mod 2048;
          pos = 256 - 1 - index div 8
      in bloomPart i (drop 2 p) (ret[pos := ret ! pos OR push_bit (index mod 8) 1]))"

definition shiftBloom :: "bytes \<Rightarrow> bytes \<Rightarrow> bytes" where
  "shiftBloom bl h = hash_or bl (bloomPart 3 h (hash_zero 256))"

definition containsBloom :: "bytes \<Rightarrow> bytes \<Rightarrow> bool" where
  "containsBloom bl h = hash_contains bl (bloomPart 3 h (hash_zero 256))"

section \<open>Lemmas\<close>

lemma replicate_numeral: "replicate (numeral k) x = x # replicate (pred_numeral k) x"
  by (simp only: numeral_eq_Suc [of k] replicate_Suc)

lemmas hash_eval = hash_of_nat_def hash_zero_def toBigEndian_numeral replicate_numeral

lemma length_hash_zero [simp]: "length (hash_zero N) = N"
  by (simp add: hash_zero_def)

lemma length_hash_of_bytes [simp]: "length (hash_of_bytes N b) = N"
  by (simp add: hash_of_bytes_def)

lemma length_hash_of_nat [simp]: "length (hash_of_nat N v) = N"
  by (simp add: hash_of_nat_def)

lemma hash_of_bytes_same [simp]: "length b = N \<Longrightarrow> hash_of_bytes N b = b"
  by (simp add: hash_of_bytes_def)

lemma hash_bool_zero [simp]: "\<not> hash_bool (hash_zero N)"
  by (simp add: hash_bool_def hash_zero_def list_ex_iff)

lemma hash_bool_iff: "length h = N \<Longrightarrow> hash_bool h \<longleftrightarrow> h \<noteq> hash_zero N"
  by (auto simp: hash_bool_def hash_zero_def list_ex_iff intro!: nth_equalityI)
     (metis in_set_replicate nth_mem nth_replicate)

lemma hash_of_nat_inverse: "length h = N \<Longrightarrow> hash_of_nat N (fromBigEndian h) = h"
  unfolding hash_of_nat_def using toBigEndian_fromBigEndian by blast

lemma length_bloomPart [simp]: "length (bloomPart i p ret) = length ret"
  by (induction i p ret rule: bloomPart.induct) (simp_all add: Let_def)

lemma length_hash_or [simp]: "length a = length b \<Longrightarrow> length (hash_or a b) = length b"
  by (simp add: hash_or_def)

lemma hash_contains_or_right: "length a = length b \<Longrightarrow> hash_contains (hash_or a b) b"
  by (auto simp: hash_contains_def hash_or_def hash_and_def bit_simps intro!: nth_equalityI bit_word_eqI)

lemma hash_contains_or_left:
  "length a = length b \<Longrightarrow> length c = length b \<Longrightarrow> hash_contains a c \<Longrightarrow> hash_contains (hash_or a b) c"
proof -
  assume len: "length a = length b" "length c = length b" and c: "hash_contains a c"
  have "(a ! i OR b ! i) AND c ! i = c ! i" if "i < length c" for i
  proof -
    have "a ! i AND c ! i = c ! i"
      using c that len by (auto simp: hash_contains_def hash_and_def dest!: arg_cong [of _ _ "\<lambda>xs. xs ! i"])
    then show ?thesis by (intro bit_word_eqI) (metis bit_and_iff bit_or_iff)
  qed
  with len show ?thesis
    by (auto simp: hash_contains_def hash_or_def hash_and_def intro!: nth_equalityI)
qed

lemma hash_or_commute: "length a = length b \<Longrightarrow> hash_or a b = hash_or b a"
  by (auto simp: hash_or_def or.commute intro!: nth_equalityI)

lemma length_shiftBloom [simp]: "length bl = 256 \<Longrightarrow> length (shiftBloom bl h) = 256"
  by (simp add: shiftBloom_def)

lemma containsBloom_or:
  assumes "length a = 256" "length b = 256" "containsBloom a h \<or> containsBloom b h"
  shows "containsBloom (hash_or a b) h"
  using assms hash_contains_or_left [of a b] hash_contains_or_left [of b a] hash_or_commute [of a b]
  by (auto simp: containsBloom_def)

lemma containsBloom_shift:
  assumes "length bl = 256"
  shows "containsBloom (shiftBloom bl h) h" "containsBloom bl x \<Longrightarrow> containsBloom (shiftBloom bl h) x"
  using assms hash_contains_or_right [of bl "bloomPart 3 h (hash_zero 256)"]
    hash_contains_or_left [of bl "bloomPart 3 h (hash_zero 256)"]
  by (auto simp: containsBloom_def shiftBloom_def)

end
