(* ===== verification/Transaction.thy ===== *)
theory Transaction
  imports FixedHash
begin

text \<open>
  Transactions, log entries and receipts: \<open>libethcore/Transaction.h\<close>, \<open>Transaction.cpp\<close>,
  \<open>LogEntry.cpp\<close>, \<open>TransactionReceipt.h\<close>, \<open>TransactionReceipt.cpp\<close>, and the signature
  struct of \<open>libdevcrypto/Common.cpp\<close> (standard build). An object that caches a hash or a
  sender is returned together with the result of the operation that may fill the cache.
\<close>

named_theorems eth_defs \<open>encoders and decoders of the core data types\<close>

section \<open>Errors\<close>

datatype eth_error =
    RLPError rlp_error | InvalidTransactionFormat | InvalidSignature | TransactionIsUnsigned
  | InvalidBlockFormat | ErrorBlockHash | InvalidNumber | TooMuchGasUsed | InvalidParentHash
  | InvalidTimestamp | InvalidTransactionsRoot

definition liftR :: "rlp_error + 'a \<Rightarrow> eth_error + 'a" where
  "liftR m = (case m of Inl e \<Rightarrow> Inl (RLPError e) | Inr x \<Rightarrow> Inr x)"

lemma liftR_Inr [simp, result_simps]: "liftR (Inr x) = Inr x"
  and liftR_Inl [simp, result_simps]: "liftR (Inl e) = Inl (RLPError e)"
  by (simp_all add: liftR_def)

section \<open>The signature struct\<close>

record signature_struct =
  sig_r :: bytes
  sig_s :: bytes
  sig_v :: nat

abbreviation VBase :: nat where "VBase \<equiv> 27"

definition SignatureStruct :: "nat \<Rightarrow> nat \<Rightarrow> nat \<Rightarrow> signature_struct" where
  "SignatureStruct r s v = \<lparr>sig_r = hash_of_nat 32 r, sig_s = hash_of_nat 32 s, sig_v = v\<rparr>"

definition sig_encode :: "signature_struct \<Rightarrow> rlpstream \<Rightarrow> rlp_error + rlpstream" where
  "sig_encode v s =
     append_all (\<lambda>f. f) [append_unsigned (int ((sig_v v + VBase) mod 256)),
       append_bigint (fromBigEndian (sig_r v)), append_bigint (fromBigEndian (sig_s v))] s"

definition sig_isValid :: "signature_struct \<Rightarrow> bool" where
  "sig_isValid v =
     (let s_max = hash_of_nat 32 0xfffffffffffffffffffffffffffffffebaaedce6af48a03bbfd25e8cd0364141;
          s_zero = hash_zero 32
      in sig_v v \<le> 1 \<and> hash_less s_zero (sig_r v) \<and> hash_less s_zero (sig_s v)
         \<and> hash_less (sig_r v) s_max \<and> hash_less (sig_s v) s_max)"

text \<open>The 65 bytes of the struct, as \<open>recover\<close> reads them.\<close>

definition sig_bytes :: "signature_struct \<Rightarrow> bytes" where
  "sig_bytes v = sig_r v @ sig_s v @ [of_nat (sig_v v)]"

section \<open>Transactions\<close>

datatype tx_type = NullTransaction | ContractCreation | MessageCall

datatype check_transaction = CheckNone | CheckCheap | CheckAll

record transaction =
  m_type :: tx_type
  m_nonce :: nat
  m_value :: nat
  m_receiveAddress :: bytes
  m_gasPrice :: nat
  m_gas :: nat
  m_txdata :: bytes
  m_vrs :: "signature_struct option"
  m_hashWith :: bytes
  m_sender :: bytes
  m_blockLimit :: nat
  m_importTime :: nat

definition transaction_null :: transaction where
  "transaction_null = \<lparr>m_type = NullTransaction, m_nonce = 0, m_value = 0, m_receiveAddress = hash_zero 20,
     m_gasPrice = 0, m_gas = 0, m_txdata = [], m_vrs = None, m_hashWith = hash_zero 32,
     m_sender = hash_zero 20, m_blockLimit = 0, m_importTime = 0\<rparr>"

text \<open>\<open>encode\<close> leaves the (empty) output untouched for a null transaction.\<close>

definition tx_fields :: "transaction \<Rightarrow> (rlpstream \<Rightarrow> rlp_error + rlpstream) list" where
  "tx_fields t =
     [append_bigint (m_nonce t), append_bigint (m_gasPrice t), append_bigint (m_gas t),
      append_bigint (m_blockLimit t),
      (if m_type t = MessageCall then append_hash (m_receiveAddress t) False False else append_data [] False),
      append_bigint (m_value t), append_data (m_txdata t) False]"

definition tx_encode :: "transaction \<Rightarrow> bool \<Rightarrow> eth_error + bytes" where
  "tx_encode t withSig =
     (if m_type t = NullTransaction then Inr []
      else bindE (liftR (appendList ((if withSig then 3 else 0) + 7) rlpstream_new)) (\<lambda>s.
        bindE (liftR (append_all (\<lambda>f. f) (tx_fields t) s)) (\<lambda>s.
          bindE (if withSig
                 then (case m_vrs t of
                         None \<Rightarrow> Inl TransactionIsUnsigned
                       | Some v \<Rightarrow> liftR (sig_encode v s))
                 else Inr s)
            (\<lambda>s. liftR (rlp_out s)))))"

definition tx_sha3 :: "crypto \<Rightarrow> transaction \<Rightarrow> bool \<Rightarrow> eth_error + bytes \<times> transaction" where
  "tx_sha3 C t withSig =
     (if withSig \<and> hash_bool (m_hashWith t) then Inr (m_hashWith t, t)
      else bindE (tx_encode t withSig) (\<lambda>s.
        let ret = sha3 C s in Inr (ret, if withSig then t\<lparr>m_hashWith := ret\<rparr> else t)))"

definition tx_sender :: "crypto \<Rightarrow> transaction \<Rightarrow> eth_error + bytes \<times> transaction" where
  "tx_sender C t =
     (if hash_bool (m_sender t) then Inr (m_sender t, t)
      else case m_vrs t of
        None \<Rightarrow> Inl TransactionIsUnsigned
      | Some v \<Rightarrow>
          bindE (tx_sha3 C t False) (\<lambda>(h, _).
            let p = recover C (sig_bytes v) h in
            if \<not> hash_bool p then Inl InvalidSignature
            else let a = right160 (sha3 C p) in Inr (a, t\<lparr>m_sender := a\<rparr>)))"

definition tx_safeSender :: "crypto \<Rightarrow> transaction \<Rightarrow> bytes" where
  "tx_safeSender C t = (case tx_sender C t of Inl _ \<Rightarrow> hash_zero 20 | Inr (a, _) \<Rightarrow> a)"

text \<open>\<open>decode\<close> into an existing object: caches and the import time of the object stay.\<close>

definition tx_decode_fields :: "bytes \<Rightarrow> transaction \<Rightarrow> eth_error + transaction" where
  "tx_decode_fields d t =
     (if \<not> isList d then Inl InvalidTransactionFormat
      else
        bindE (liftR (bindE (rlp_at d 0) (toInt 256 Strict))) (\<lambda>nonce.
        bindE (liftR (bindE (rlp_at d 1) (toInt 256 Strict))) (\<lambda>gasPrice.
        bindE (liftR (bindE (rlp_at d 2) (toInt 256 Strict))) (\<lambda>gas.
        bindE (liftR (bindE (rlp_at d 3) (toInt 256 Strict))) (\<lambda>blockLimit.
        bindE (liftR (rlp_at d 4)) (\<lambda>to.
        bindE (if isEmpty to then Inr (hash_zero 20) else liftR (toHash 20 VeryStrict to)) (\<lambda>addr.
        bindE (liftR (bindE (rlp_at d 5) (toInt 256 Strict))) (\<lambda>value.
        bindE (liftR (rlp_at d 6)) (\<lambda>dat.
        if \<not> isData dat then Inl InvalidTransactionFormat
        else
        bindE (liftR (toBytes LaissezFaire dat)) (\<lambda>data.
        bindE (liftR (bindE (rlp_at d 8) (toInt 256 Strict))) (\<lambda>r.
        bindE (liftR (bindE (rlp_at d 9) (toInt 256 Strict))) (\<lambda>s.
        bindE (liftR (bindE (rlp_at d 7) (toInt 8 Strict))) (\<lambda>v.
        Inr (t\<lparr>m_nonce := nonce, m_gasPrice := gasPrice, m_gas := gas, m_blockLimit := blockLimit,
               m_type := (if isEmpty to then ContractCreation else MessageCall),
               m_receiveAddress := addr, m_value := value, m_txdata := data,
               m_vrs := Some (SignatureStruct r s (nat ((int v - int VBase) mod 256)))\<rparr>))))))))))))))"

definition tx_decode :: "crypto \<Rightarrow> check_transaction \<Rightarrow> bytes \<Rightarrow> transaction \<Rightarrow> eth_error + transaction" where
  "tx_decode C checkSig d t =
     bindE (tx_decode_fields d t) (\<lambda>t1.
       if checkSig \<noteq> CheckNone \<and> \<not> (case m_vrs t1 of None \<Rightarrow> False | Some v \<Rightarrow> sig_isValid v)
       then Inl InvalidSignature
       else if checkSig = CheckAll then bindE (tx_sender C t1) (\<lambda>(_, t2). Inr t2)
       else Inr t1)"

definition tx_decode_bytes :: "crypto \<Rightarrow> check_transaction \<Rightarrow> bytes \<Rightarrow> transaction \<Rightarrow> eth_error + transaction" where
  "tx_decode_bytes C checkSig bs t = bindE (liftR (rlp_open bs VeryStrict)) (\<lambda>d. tx_decode C checkSig d t)"

text \<open>\<open>baseGasRequired\<close>; the schedule's four gas amounts are arguments.\<close>

definition baseGasRequired :: "int \<Rightarrow> int \<Rightarrow> int \<Rightarrow> int \<Rightarrow> bool \<Rightarrow> bytes \<Rightarrow> int" where
  "baseGasRequired txCreateGas txGas txDataNonZeroGas txDataZeroGas creation data =
     foldl (\<lambda>g i. g + (if i \<noteq> 0 then txDataNonZeroGas else txDataZeroGas))
       (if creation then txCreateGas else txGas) data"

section \<open>Log entries and receipts\<close>

record log_entry =
  log_address :: bytes
  log_topics :: "bytes list"
  log_data :: bytes

definition log_streamRLP :: "log_entry \<Rightarrow> rlpstream \<Rightarrow> rlp_error + rlpstream" where
  "log_streamRLP l s =
     bindE (appendList 3 s) (append_all (\<lambda>f. f)
       [append_hash (log_address l) False False,
        appendVector (\<lambda>t. append_hash t False False) (log_topics l),
        append_data (log_data l) False])"

text \<open>The constructor from RLP; the assertion on the item count is an error here.\<close>

definition rlp_toVector :: "(nat \<Rightarrow> bytes \<Rightarrow> rlp_error + 'a) \<Rightarrow> nat \<Rightarrow> bytes \<Rightarrow> rlp_error + 'a list" where
  "rlp_toVector conv flags d =
     (if isList d then bindE (itemCount d) (\<lambda>_. rlp_each (conv flags) d)
      else if ThrowOnFail flags then Inl BadCast else Inr [])"

definition log_decode :: "bytes \<Rightarrow> rlp_error + log_entry" where
  "log_decode d =
     bindE (itemCount d) (\<lambda>n. if n \<noteq> 3 then Inl AssertFailed else
     bindE (bindE (rlp_at d 0) (toHash 20 Strict)) (\<lambda>a.
     bindE (bindE (rlp_at d 1) (rlp_toVector (toHash 32) LaissezFaire)) (\<lambda>ts.
     bindE (bindE (rlp_at d 2) (toBytes LaissezFaire)) (\<lambda>dat.
     Inr \<lparr>log_address = a, log_topics = ts, log_data = dat\<rparr>))))"

definition log_bloom :: "crypto \<Rightarrow> log_entry \<Rightarrow> bytes" where
  "log_bloom C l =
     foldl (\<lambda>ret t. shiftBloom ret (sha3 C t)) (shiftBloom (hash_zero 256) (sha3 C (log_address l))) (log_topics l)"

definition bloom :: "crypto \<Rightarrow> log_entry list \<Rightarrow> bytes" where
  "bloom C logs = foldl (\<lambda>ret l. hash_or ret (log_bloom C l)) (hash_zero 256) logs"

record receipt =
  rc_stateRoot :: bytes
  rc_gasUsed :: nat
  rc_contractAddress :: bytes
  rc_bloom :: bytes
  rc_status :: nat
  rc_outputBytes :: bytes
  rc_log :: "log_entry list"

definition receipt_new :: receipt where
  "receipt_new = \<lparr>rc_stateRoot = hash_zero 32, rc_gasUsed = 0, rc_contractAddress = hash_zero 20,
     rc_bloom = hash_zero 256, rc_status = 0, rc_outputBytes = [], rc_log = []\<rparr>"

definition TransactionReceipt ::
  "crypto \<Rightarrow> bytes \<Rightarrow> nat \<Rightarrow> log_entry list \<Rightarrow> nat \<Rightarrow> bytes \<Rightarrow> bytes \<Rightarrow> receipt" where
  "TransactionReceipt C root gasUsed log status bs contractAddress =
     \<lparr>rc_stateRoot = root, rc_gasUsed = gasUsed, rc_contractAddress = contractAddress,
      rc_bloom = bloom C log, rc_status = status, rc_outputBytes = bs, rc_log = log\<rparr>"

definition receipt_streamRLP :: "receipt \<Rightarrow> rlpstream \<Rightarrow> rlp_error + rlpstream" where
  "receipt_streamRLP r s =
     bindE (appendList 7 s) (append_all (\<lambda>f. f)
       [append_hash (rc_stateRoot r) False False, append_bigint (rc_gasUsed r),
        append_hash (rc_contractAddress r) False False, append_hash (rc_bloom r) False False,
        append_bigint (rc_status r), append_data (rc_outputBytes r) False,
        appendVector log_streamRLP (rc_log r)])"

definition receipt_encode :: "receipt \<Rightarrow> rlp_error + bytes" where
  "receipt_encode r = bindE (receipt_streamRLP r rlpstream_new) rlp_out"

definition receipt_decode :: "bytes \<Rightarrow> receipt \<Rightarrow> eth_error + receipt" where
  "receipt_decode d r =
     (if \<not> isList d then Inl InvalidTransactionFormat
      else
        bindE (liftR (bindE (rlp_at d 0) (toHash 32 Strict))) (\<lambda>root.
        bindE (liftR (bindE (rlp_at d 1) (toInt 256 Strict))) (\<lambda>gasUsed.
        bindE (liftR (bindE (rlp_at d 2) (toHash 20 Strict))) (\<lambda>addr.
        bindE (liftR (bindE (rlp_at d 3) (toHash 256 Strict))) (\<lambda>bl.
        bindE (liftR (bindE (rlp_at d 4) (toInt 256 Strict))) (\<lambda>status.
        bindE (liftR (rlp_at d 5)) (\<lambda>o5.
        bindE (if isData o5 then liftR (toBytes LaissezFaire o5) else Inr (rc_outputBytes r)) (\<lambda>out.
        bindE (liftR (bindE (rlp_at d 6) (rlp_each log_decode))) (\<lambda>logs.
        Inr \<lparr>rc_stateRoot = root, rc_gasUsed = gasUsed, rc_contractAddress = addr, rc_bloom = bl,
             rc_status = status, rc_outputBytes = out, rc_log = rc_log r @ logs\<rparr>)))))))))"

section \<open>Round trip of transactions\<close>

text \<open>What the types of the fields guarantee, plus that only message calls have a receiver.\<close>

definition sig_wf :: "signature_struct \<Rightarrow> bool" where
  "sig_wf v = (length (sig_r v) = 32 \<and> length (sig_s v) = 32 \<and> sig_v v < 256)"

definition tx_wf :: "transaction \<Rightarrow> bool" where
  "tx_wf t \<longleftrightarrow>
     m_type t \<noteq> NullTransaction \<and> u256 (m_nonce t) \<and> u256 (m_gasPrice t) \<and> u256 (m_gas t)
     \<and> u256 (m_blockLimit t) \<and> u256 (m_value t) \<and> length (m_receiveAddress t) = 20
     \<and> (m_type t = ContractCreation \<longrightarrow> m_receiveAddress t = hash_zero 20)
     \<and> length (m_txdata t) < 2 ^ 32 \<and> (case m_vrs t of None \<Rightarrow> False | Some v \<Rightarrow> sig_wf v)"

definition tx_items :: "transaction \<Rightarrow> bytes list" where
  "tx_items t =
     [enc_int (m_nonce t), enc_int (m_gasPrice t), enc_int (m_gas t), enc_int (m_blockLimit t),
      enc_data (if m_type t = MessageCall then m_receiveAddress t else []),
      enc_int (m_value t), enc_data (m_txdata t)]"

definition sig_items :: "signature_struct \<Rightarrow> bytes list" where
  "sig_items v = [enc_int ((sig_v v + VBase) mod 256), enc_int (fromBigEndian (sig_r v)), enc_int (fromBigEndian (sig_s v))]"

lemma h256_value_bound: "length h = 32 \<Longrightarrow> u256 (fromBigEndian h)"
  using fromBigEndian_bound [of h] by (simp add: u256_def power_mult [of 2 8 32, symmetric, simplified])

lemma tx_items_emitted:
  assumes "tx_wf t"
  shows "list_all2 emits (tx_fields t) (tx_items t)" "list_all rlp_item (tx_items t)"
    and "length (concat (tx_items t)) \<le> 2 ^ 33"
proof -
  have d: "rlp_size_ok (length (m_txdata t))" "rlp_size_ok (length (m_receiveAddress t))" "rlp_size_ok 0"
    using assms by (auto simp: tx_wf_def rlp_size_ok_def)
  then show "list_all2 emits (tx_fields t) (tx_items t)" "list_all rlp_item (tx_items t)"
    using assms
    by (simp_all add: tx_fields_def tx_items_def tx_wf_def emits_append_u256 emits_append_data emits_append_hash)
  have "length (enc_data (if m_type t = MessageCall then m_receiveAddress t else [])) \<le> 29"
    using length_enc_data_le [OF d(2)] length_enc_data_le [of "[]"] d(3) assms by (auto simp: tx_wf_def)
  then show "length (concat (tx_items t)) \<le> 2 ^ 33"
    using length_enc_data_le [OF d(1)] length_enc_int_le [of "m_nonce t"] length_enc_int_le [of "m_gas t"]
      length_enc_int_le [of "m_gasPrice t"] length_enc_int_le [of "m_blockLimit t"]
      length_enc_int_le [of "m_value t"] assms
    unfolding tx_items_def tx_wf_def by simp
qed

lemma sig_items_emitted:
  assumes "sig_wf v"
  shows "list_all2 emits [append_unsigned (int ((sig_v v + VBase) mod 256)),
      append_bigint (fromBigEndian (sig_r v)), append_bigint (fromBigEndian (sig_s v))] (sig_items v)"
    and "list_all rlp_item (sig_items v)" "length (concat (sig_items v)) \<le> 123"
proof -
  have rs: "u256 (fromBigEndian (sig_r v))" "u256 (fromBigEndian (sig_s v))"
    using assms by (auto simp: sig_wf_def h256_value_bound)
  have "(sig_v v + VBase) mod 256 < 256" by simp
  then have v: "u256 ((sig_v v + VBase) mod 256)" "nat (int ((sig_v v + VBase) mod 256) mod 2 ^ 32) = (sig_v v + VBase) mod 256"
    by (simp_all add: nat_mod_distrib u256_def)
  show "list_all2 emits [append_unsigned (int ((sig_v v + VBase) mod 256)),
      append_bigint (fromBigEndian (sig_r v)), append_bigint (fromBigEndian (sig_s v))] (sig_items v)"
    using rs emits_append_unsigned [of "int ((sig_v v + VBase) mod 256)"] unfolding v(2)
    by (simp add: sig_items_def emits_append_u256)
  show "list_all rlp_item (sig_items v)" using rs v by (simp add: sig_items_def)
  show "length (concat (sig_items v)) \<le> 123"
    using length_enc_int_le [OF rs(1)] length_enc_int_le [OF rs(2)] length_enc_int_le [OF v(1)]
    unfolding sig_items_def by simp
qed

lemma liftR_bindE: "liftR (bindE m f) = bindE (liftR m) (\<lambda>x. liftR (f x))"
  by (cases m) simp_all

lemma tx_encode_items:
  assumes "tx_wf t" "m_vrs t = Some v"
  shows "tx_encode t True = Inr (enc_list (concat (tx_items t @ sig_items v)))"
proof -
  have "sig_wf v" "m_type t \<noteq> NullTransaction" using assms by (auto simp: tx_wf_def)
  note it = tx_items_emitted [OF assms(1)] and si = sig_items_emitted [OF \<open>sig_wf v\<close>]
  let ?gs = "[append_unsigned (int ((sig_v v + VBase) mod 256)),
      append_bigint (fromBigEndian (sig_r v)), append_bigint (fromBigEndian (sig_s v))]"
  have "rlp_size_ok (length (concat (tx_items t @ sig_items v)))"
    using it(3) si(3) by (simp add: rlp_size_ok_def)
  with emits_list_out [OF list_all2_appendI [OF it(1) si(1)], of 10]
  have "bindE (bindE (appendList 10 rlpstream_new) (append_all (\<lambda>f. f) (tx_fields t @ ?gs))) rlp_out
      = Inr (enc_list (concat (tx_items t @ sig_items v)))"
    by (simp add: tx_fields_def)
  then have "liftR (bindE (bindE (appendList 10 rlpstream_new) (append_all (\<lambda>f. f) (tx_fields t @ ?gs))) rlp_out)
      = Inr (enc_list (concat (tx_items t @ sig_items v)))" by simp
  then show ?thesis
    using \<open>m_type t \<noteq> NullTransaction\<close> assms(2)
    by (simp add: tx_encode_def sig_encode_def append_all_append liftR_bindE bindE_assoc del: append_all.simps)
qed

lemma tx_encode_unsigned:
  assumes "tx_wf t"
  shows "tx_encode t False = Inr (enc_list (concat (tx_items t)))"
proof -
  note it = tx_items_emitted [OF assms]
  have "rlp_size_ok (length (concat (tx_items t)))" using it(3) by (simp add: rlp_size_ok_def)
  with emits_list_out [OF it(1), of 7]
  have "liftR (bindE (bindE (appendList 7 rlpstream_new) (append_all (\<lambda>f. f) (tx_fields t))) rlp_out)
      = Inr (enc_list (concat (tx_items t)))" by (simp add: tx_fields_def)
  then show ?thesis
    using assms by (simp add: tx_encode_def tx_wf_def liftR_bindE bindE_assoc)
qed

lemma isEmpty_enc_data: "rlp_size_ok (length bs) \<Longrightarrow> isEmpty (enc_data bs) \<longleftrightarrow> bs = []"
proof -
  assume ok: "rlp_size_ok (length bs)"
  show ?thesis
  proof (cases "length bs = 1 \<and> unat (hd bs) < 0x80")
    case True
    then obtain b where "bs = [b]" by (metis One_nat_def length_0_conv length_Suc_conv)
    with True show ?thesis by (simp add: isEmpty_def enc_data_def isNull_def)
  next
    case False
    then have e: "enc_data bs = rlp_header 0x80 (length bs) @ bs" by (auto simp: enc_data_def)
    have "unat (enc_data bs ! 0) = (if length bs < 56 then 0x80 + length bs else 0xb7 + bytesRequired (length bs))"
      using rlp_header_hd [OF ok, of 128] by (simp add: e nth_append)
    then show ?thesis
      using bytesRequired_le8 [OF ok] bytesRequired_ge1 [of "length bs"]
      by (auto simp: isEmpty_def isNull_def e)
  qed
qed

lemma sig_v_roundtrip: "v < 256 \<Longrightarrow> nat ((int ((v + VBase) mod 256) - int VBase) mod 256) = v"
  by (simp add: of_nat_mod mod_diff_left_eq)

lemma SignatureStruct_roundtrip:
  "sig_wf v \<Longrightarrow> SignatureStruct (fromBigEndian (sig_r v)) (fromBigEndian (sig_s v)) (sig_v v) = v"
  by (simp add: SignatureStruct_def sig_wf_def hash_of_nat_inverse)

lemma tx_decode_items:
  assumes "tx_wf t" "m_vrs t = Some v"
  shows "tx_decode_fields (enc_list (concat (tx_items t @ sig_items v))) t0 =
    Inr (t\<lparr>m_hashWith := m_hashWith t0, m_sender := m_sender t0, m_importTime := m_importTime t0\<rparr>)"
proof -
  have v: "sig_wf v" using assms by (auto simp: tx_wf_def)
  define es where "es = tx_items t @ sig_items v"
  define d where "d = enc_list (concat es)"
  note it = tx_items_emitted [OF assms(1)] and si = sig_items_emitted [OF v]
  have ok: "rlp_size_ok (length (concat es))" using it(3) si(3) by (simp add: es_def rlp_size_ok_def)
  have items: "list_all rlp_item es" using it(2) si(2) by (simp add: es_def)
  have len: "length es = 10" by (simp add: es_def tx_items_def sig_items_def)
  have at: "rlp_at d i = Inr (es ! i)" if "i < 10" for i
    using rlp_at_enc_list [OF items ok] that len by (simp add: d_def)
  note nth = es_def tx_items_def sig_items_def
  have f: "rlp_at d 0 = Inr (enc_int (m_nonce t))" "rlp_at d 1 = Inr (enc_int (m_gasPrice t))"
    "rlp_at d 2 = Inr (enc_int (m_gas t))" "rlp_at d 3 = Inr (enc_int (m_blockLimit t))"
    "rlp_at d 4 = Inr (enc_data (if m_type t = MessageCall then m_receiveAddress t else []))"
    "rlp_at d 5 = Inr (enc_int (m_value t))" "rlp_at d 6 = Inr (enc_data (m_txdata t))"
    "rlp_at d 7 = Inr (enc_int ((sig_v v + VBase) mod 256))"
    "rlp_at d 8 = Inr (enc_int (fromBigEndian (sig_r v)))" "rlp_at d 9 = Inr (enc_int (fromBigEndian (sig_s v)))"
    by (simp_all add: at nth)
  have lst: "isList d" using enc_list_reads0 [OF ok] by (simp add: d_def)
  have "sig_v v < 256" using v by (simp add: sig_wf_def)
  have rs: "u256 (fromBigEndian (sig_r v))" "u256 (fromBigEndian (sig_s v))"
    using v by (auto simp: sig_wf_def h256_value_bound)
  have dat: "rlp_size_ok (length (m_txdata t))" "rlp_size_ok 20" "rlp_size_ok 0"
    using assms(1) by (auto simp: tx_wf_def rlp_size_ok_def)
  have v8: "toInt 8 Strict (enc_int ((sig_v v + VBase) mod 256)) = Inr ((sig_v v + VBase) mod 256)"
    by (rule toInt_enc_int) simp_all
  have "tx_decode_fields d t0 =
      Inr (t\<lparr>m_hashWith := m_hashWith t0, m_sender := m_sender t0, m_importTime := m_importTime t0\<rparr>)"
    using assms rs dat sig_v_roundtrip [OF \<open>sig_v v < 256\<close>] SignatureStruct_roundtrip [OF v]
    by (cases "m_type t")
       (auto simp del: Strict_def VeryStrict_def LaissezFaire_def One_nat_def
         simp: tx_decode_fields_def lst f v8 toInt_u256 tx_wf_def isEmpty_enc_data toHash_enc_data
           enc_data_reads0 toBytes_enc_data)
  then show ?thesis by (simp add: d_def es_def)
qed

text \<open>
  C29. A well-formed signed transaction survives the wire: encoding it with its signature
  succeeds, and decoding the bytes with every check into a fresh object gives a transaction
  with the same type, nonce, value, receiver, gas, data, block limit and signature, whose cached
  sender is the one recovered from the signature. The hypotheses say that the field values are in
  the range of their types, that the signature is valid and that recovery succeeds.
\<close>

theorem tx_roundtrip:
  assumes "tx_wf t" "m_vrs t = Some v" "sig_isValid v"
    and "tx_sender C (t\<lparr>m_hashWith := hash_zero 32, m_sender := hash_zero 20, m_importTime := 0\<rparr>) = Inr (a, t')"
  shows "\<exists>out. tx_encode t True = Inr out \<and>
    tx_decode_bytes C CheckAll out transaction_null =
      Inr (t\<lparr>m_hashWith := hash_zero 32, m_sender := a, m_importTime := 0\<rparr>)"
proof -
  let ?es = "tx_items t @ sig_items v" and ?t = "t\<lparr>m_hashWith := hash_zero 32, m_sender := hash_zero 20, m_importTime := 0\<rparr>"
  have v: "sig_wf v" using assms by (auto simp: tx_wf_def)
  note it = tx_items_emitted [OF assms(1)] and si = sig_items_emitted [OF v]
  have ok: "rlp_size_ok (length (concat ?es))" using it(3) si(3) by (simp add: rlp_size_ok_def)
  have t': "t' = ?t\<lparr>m_sender := a\<rparr>"
    using assms(2,4) by (auto simp: tx_sender_def bindE_eq_Inr Let_def split: if_splits)
  have "tx_decode_fields (enc_list (concat ?es)) transaction_null = Inr ?t"
    using tx_decode_items [OF assms(1,2), of transaction_null] by (simp add: transaction_null_def)
  then have "tx_decode C CheckAll (enc_list (concat ?es)) transaction_null = Inr t'"
    using assms(2-4) by (simp add: tx_decode_def)
  then show ?thesis
    using tx_encode_items [OF assms(1,2)] ok t'
    by (simp add: tx_decode_bytes_def rlp_item_open [OF rlp_item_enc_list])
qed

text \<open>A toy instance of the primitives for evaluating the model on concrete inputs.\<close>

definition toy_crypto :: crypto where
  "toy_crypto = \<lparr>sha3 = (\<lambda>b. hash_of_nat 32 (length b + 1)), sign = (\<lambda>k h. hash_of_nat 65 7),
     recover = (\<lambda>s h. hash_of_nat 64 5)\<rparr>"

definition toy_tx :: transaction where
  "toy_tx = transaction_null\<lparr>m_type := MessageCall, m_nonce := 3, m_gas := 1000, m_blockLimit := 100,
     m_receiveAddress := hash_of_nat 20 9, m_txdata := [1, 2], m_vrs := Some (SignatureStruct 4 5 1)\<rparr>"

theorem tx_roundtrip_witness:
  "\<exists>out a. tx_encode toy_tx True = Inr out \<and>
    tx_decode_bytes toy_crypto CheckAll out transaction_null =
      Inr (toy_tx\<lparr>m_hashWith := hash_zero 32, m_sender := a, m_importTime := 0\<rparr>)"
proof -
  have wf: "tx_wf toy_tx"
    by (simp add: toy_tx_def transaction_null_def tx_wf_def u256_def sig_wf_def SignatureStruct_def)
  have vrs: "m_vrs toy_tx = Some (SignatureStruct 4 5 1)" by (simp add: toy_tx_def)
  have valid: "sig_isValid (SignatureStruct 4 5 1)"
    by (simp add: sig_isValid_def SignatureStruct_def hash_eval)
  have "hash_bool (hash_of_nat 64 5)" by (simp add: hash_bool_def hash_eval)
  moreover let ?t = "toy_tx\<lparr>m_hashWith := hash_zero 32, m_sender := hash_zero 20, m_importTime := 0\<rparr>"
  have "tx_wf ?t" using wf by (simp add: tx_wf_def)
  then have "tx_encode ?t False = Inr (enc_list (concat (tx_items ?t)))" by (rule tx_encode_unsigned)
  ultimately obtain a t' where "tx_sender toy_crypto ?t = Inr (a, t')"
    using vrs by (simp add: tx_sender_def tx_sha3_def toy_crypto_def Let_def)
  from tx_roundtrip [OF wf vrs valid this] show ?thesis by blast
qed

section \<open>Round trip of receipts\<close>

definition log_wf :: "log_entry \<Rightarrow> bool" where
  "log_wf l \<longleftrightarrow> length (log_address l) = 20 \<and> list_all (\<lambda>t. length t = 32) (log_topics l)"

definition log_enc :: "log_entry \<Rightarrow> bytes" where
  "log_enc l = enc_list (enc_data (log_address l) @ enc_list (concat (map enc_data (log_topics l))) @ enc_data (log_data l))"

text \<open>A log entry whose encoding stays below the size limit.\<close>

definition log_small :: "log_entry \<Rightarrow> bool" where
  "log_small l \<longleftrightarrow> rlp_size_ok (length (enc_data (log_address l) @ enc_list (concat (map enc_data (log_topics l))) @ enc_data (log_data l)))"

lemma log_small_parts:
  assumes "log_small l"
  shows "rlp_size_ok (length (concat (map enc_data (log_topics l))))" "rlp_size_ok (length (log_data l))"
  using assms length_enc_data_ge [of "log_data l"]
  by (auto simp: log_small_def enc_list_def rlp_size_ok_def)

lemma log_items:
  assumes "log_wf l" "log_small l"
  shows "list_all2 emits [append_hash (log_address l) False False,
        appendVector (\<lambda>t. append_hash t False False) (log_topics l), append_data (log_data l) False]
      [enc_data (log_address l), enc_list (concat (map enc_data (log_topics l))), enc_data (log_data l)]"
    and "list_all rlp_item [enc_data (log_address l), enc_list (concat (map enc_data (log_topics l))), enc_data (log_data l)]"
proof -
  note parts = log_small_parts [OF assms(2)]
  have a: "rlp_size_ok (length (log_address l))" using assms(1) by (simp add: log_wf_def rlp_size_ok_def)
  have "emits (append_hash t False False) (enc_data t)" if "t \<in> set (log_topics l)" for t
    using assms(1) that by (intro emits_append_hash) (auto simp: log_wf_def list_all_iff rlp_size_ok_def)
  then have "emits (appendVector (\<lambda>t. append_hash t False False) (log_topics l)) (enc_list (concat (map enc_data (log_topics l))))"
    using parts(1) by (intro emits_appendVector)
  with a parts show "list_all2 emits [append_hash (log_address l) False False,
        appendVector (\<lambda>t. append_hash t False False) (log_topics l), append_data (log_data l) False]
      [enc_data (log_address l), enc_list (concat (map enc_data (log_topics l))), enc_data (log_data l)]"
    by (simp add: emits_append_hash emits_append_data)
  show "list_all rlp_item [enc_data (log_address l), enc_list (concat (map enc_data (log_topics l))), enc_data (log_data l)]"
    using a parts by simp
qed

lemma emits_log:
  assumes "log_wf l" "log_small l"
  shows "emits (log_streamRLP l) (log_enc l)"
  using emits_list_n [OF log_items(1) [OF assms], of 3] assms(2)
  by (simp add: log_streamRLP_def [abs_def] log_enc_def log_small_def)

lemma rlp_item_log: "log_small l \<Longrightarrow> rlp_item (log_enc l)"
  by (simp add: log_enc_def log_small_def)

lemma rlp_toVector_hashes:
  assumes "list_all (\<lambda>t. length t = N) ts" "rlp_size_ok (length (concat (map enc_data ts)))" "rlp_size_ok N"
  shows "rlp_toVector (toHash N) flags (enc_list (concat (map enc_data ts))) = Inr ts"
proof -
  have "list_all rlp_item (map enc_data ts)"
    using assms(1,3) by (auto simp: list_all_iff)
  moreover have "mapE (toHash N flags) (map enc_data ts) = Inr ts"
    using assms(1,3) by (intro mapE_map_inverse toHash_enc_data) (auto simp: list_all_iff)
  ultimately show ?thesis
    using assms(2) by (simp add: rlp_toVector_def enc_list_reads0 itemCount_enc_list rlp_each_enc_list)
qed

lemma log_decode_enc:
  assumes "log_wf l" "log_small l"
  shows "log_decode (log_enc l) = Inr l"
proof -
  define es where "es = [enc_data (log_address l), enc_list (concat (map enc_data (log_topics l))), enc_data (log_data l)]"
  have enc: "log_enc l = enc_list (concat es)" by (simp add: log_enc_def es_def)
  have ok: "rlp_size_ok (length (concat es))" using assms(2) by (simp add: es_def log_small_def)
  have items: "list_all rlp_item es" using log_items(2) [OF assms] by (simp only: es_def)
  have f: "rlp_at (log_enc l) 0 = Inr (enc_data (log_address l))"
    "rlp_at (log_enc l) 1 = Inr (enc_list (concat (map enc_data (log_topics l))))"
    "rlp_at (log_enc l) 2 = Inr (enc_data (log_data l))" "itemCount (log_enc l) = Inr 3"
    unfolding enc by (simp_all add: rlp_at_enc_list [OF items ok] itemCount_enc_list [OF items ok])
      (simp_all add: es_def)
  have "toHash 20 Strict (enc_data (log_address l)) = Inr (log_address l)"
    using assms(1) by (intro toHash_enc_data) (simp_all add: log_wf_def rlp_size_ok_def)
  moreover have "rlp_toVector (toHash 32) LaissezFaire (enc_list (concat (map enc_data (log_topics l)))) = Inr (log_topics l)"
    using assms log_small_parts by (intro rlp_toVector_hashes) (auto simp: log_wf_def rlp_size_ok_def)
  moreover have "toBytes LaissezFaire (enc_data (log_data l)) = Inr (log_data l)"
    using log_small_parts [OF assms(2)] by (intro toBytes_enc_data)
  ultimately show ?thesis
    by (simp add: log_decode_def f del: Strict_def LaissezFaire_def One_nat_def)
qed

definition receipt_items :: "receipt \<Rightarrow> bytes list" where
  "receipt_items r =
     [enc_data (rc_stateRoot r), enc_int (rc_gasUsed r), enc_data (rc_contractAddress r), enc_data (rc_bloom r),
      enc_int (rc_status r), enc_data (rc_outputBytes r), enc_list (concat (map log_enc (rc_log r)))]"

definition receipt_wf :: "receipt \<Rightarrow> bool" where
  "receipt_wf r \<longleftrightarrow> length (rc_stateRoot r) = 32 \<and> u256 (rc_gasUsed r) \<and> length (rc_contractAddress r) = 20
     \<and> length (rc_bloom r) = 256 \<and> u256 (rc_status r) \<and> list_all log_wf (rc_log r)
     \<and> rlp_size_ok (length (concat (receipt_items r)))"

lemma log_small_member:
  assumes "rlp_size_ok (length (concat (map log_enc ls)))" "l \<in> set ls"
  shows "log_small l"
proof -
  have "length (log_enc l) \<le> length (concat (map log_enc ls))" using assms(2) by (rule length_concat_member)
  with assms(1) show ?thesis by (auto simp: log_small_def log_enc_def enc_list_def rlp_size_ok_def)
qed

lemma receipt_parts:
  assumes "receipt_wf r"
  shows "rlp_size_ok (length (concat (map log_enc (rc_log r))))" "rlp_size_ok (length (rc_outputBytes r))"
    and "l \<in> set (rc_log r) \<Longrightarrow> log_wf l \<and> log_small l"
proof -
  show 1: "rlp_size_ok (length (concat (map log_enc (rc_log r))))" and "rlp_size_ok (length (rc_outputBytes r))"
    using assms length_enc_data_ge [of "rc_outputBytes r"]
    by (auto simp: receipt_wf_def receipt_items_def enc_list_def rlp_size_ok_def)
  show "l \<in> set (rc_log r) \<Longrightarrow> log_wf l \<and> log_small l"
    using assms log_small_member [OF 1] by (auto simp: receipt_wf_def list_all_iff)
qed

lemma receipt_encode_items:
  assumes "receipt_wf r"
  shows "receipt_encode r = Inr (enc_list (concat (receipt_items r)))" "list_all rlp_item (receipt_items r)"
proof -
  note parts = receipt_parts [OF assms]
  have sizes: "rlp_size_ok 32" "rlp_size_ok 20" "rlp_size_ok 256" by (simp_all add: rlp_size_ok_def)
  have "emits (appendVector log_streamRLP (rc_log r)) (enc_list (concat (map log_enc (rc_log r))))"
    using parts by (intro emits_appendVector) (auto intro: emits_log)
  then have "list_all2 emits [append_hash (rc_stateRoot r) False False, append_bigint (rc_gasUsed r),
        append_hash (rc_contractAddress r) False False, append_hash (rc_bloom r) False False,
        append_bigint (rc_status r), append_data (rc_outputBytes r) False,
        appendVector log_streamRLP (rc_log r)] (receipt_items r)"
    using assms parts sizes
    by (simp add: receipt_items_def receipt_wf_def emits_append_hash emits_append_u256 emits_append_data)
  from emits_list_out [OF this, of 7] assms
  show "receipt_encode r = Inr (enc_list (concat (receipt_items r)))"
    by (simp add: receipt_encode_def receipt_streamRLP_def receipt_wf_def)
  show "list_all rlp_item (receipt_items r)"
    using assms parts sizes by (simp add: receipt_items_def receipt_wf_def)
qed

lemma receipt_decode_items:
  assumes "receipt_wf r"
  shows "receipt_decode (enc_list (concat (receipt_items r))) receipt_new = Inr r"
proof -
  define d where "d = enc_list (concat (receipt_items r))"
  note enc = receipt_encode_items [OF assms] and parts = receipt_parts [OF assms]
  have ok: "rlp_size_ok (length (concat (receipt_items r)))" using assms by (simp add: receipt_wf_def)
  have f: "rlp_at d 0 = Inr (enc_data (rc_stateRoot r))" "rlp_at d 1 = Inr (enc_int (rc_gasUsed r))"
    "rlp_at d 2 = Inr (enc_data (rc_contractAddress r))" "rlp_at d 3 = Inr (enc_data (rc_bloom r))"
    "rlp_at d 4 = Inr (enc_int (rc_status r))" "rlp_at d 5 = Inr (enc_data (rc_outputBytes r))"
    "rlp_at d 6 = Inr (enc_list (concat (map log_enc (rc_log r))))"
    unfolding d_def by (simp_all add: rlp_at_enc_list [OF enc(2) ok]) (simp_all add: receipt_items_def)
  have sizes: "rlp_size_ok 32" "rlp_size_ok 20" "rlp_size_ok 256" by (simp_all add: rlp_size_ok_def)
  have "list_all rlp_item (map log_enc (rc_log r))"
    using parts by (auto simp: list_all_iff intro: rlp_item_log)
  moreover have "mapE log_decode (map log_enc (rc_log r)) = Inr (rc_log r)"
    using parts(3) by (intro mapE_map_inverse) (simp add: log_decode_enc)
  ultimately have logs: "rlp_each log_decode (enc_list (concat (map log_enc (rc_log r)))) = Inr (rc_log r)"
    using parts(1) by (simp add: rlp_each_enc_list)
  have "isList d" using ok by (simp add: d_def enc_list_reads0)
  then have "receipt_decode d receipt_new = Inr r"
    using assms sizes parts
    by (simp del: Strict_def LaissezFaire_def One_nat_def
        add: receipt_decode_def f logs receipt_wf_def toHash_enc_data toInt_u256 toBytes_enc_data
          enc_data_reads0 receipt_new_def)
  then show ?thesis by (simp add: d_def)
qed

text \<open>
  A receipt survives the wire: encoding a receipt whose fields are in the range of their types
  succeeds, and decoding the bytes into a fresh object gives the receipt back, with every log
  entry, topic and data field.
\<close>

theorem receipt_roundtrip:
  assumes "receipt_wf r"
  shows "\<exists>out. receipt_encode r = Inr out \<and> rlp_open out VeryStrict = Inr out \<and> receipt_decode out receipt_new = Inr r"
  using receipt_encode_items(1) [OF assms] receipt_decode_items [OF assms] assms
  by (simp add: rlp_item_open receipt_wf_def)

definition toy_receipt :: receipt where
  "toy_receipt = receipt_new\<lparr>rc_gasUsed := 7, rc_outputBytes := [1, 2, 3],
     rc_log := [\<lparr>log_address = hash_of_nat 20 1, log_topics = [hash_of_nat 32 2], log_data = [4]\<rparr>]\<rparr>"

theorem receipt_roundtrip_witness:
  "\<exists>out. receipt_encode toy_receipt = Inr out \<and> rlp_open out VeryStrict = Inr out
    \<and> receipt_decode out receipt_new = Inr toy_receipt"
  by (rule receipt_roundtrip)
     (simp add: receipt_wf_def toy_receipt_def receipt_new_def u256_def log_wf_def receipt_items_def log_enc_def
       enc_data_def enc_list_def enc_int_def length_rlp_header rlp_size_ok_def bytesRequired_pos)

lemma fold_shiftBloom:
  assumes "length bl = 256" "containsBloom bl (sha3 C x) \<or> x \<in> set ts"
  shows "length (foldl (\<lambda>ret t. shiftBloom ret (sha3 C t)) bl ts) = 256 \<and>
    containsBloom (foldl (\<lambda>ret t. shiftBloom ret (sha3 C t)) bl ts) (sha3 C x)"
  using assms
proof (induction ts arbitrary: bl)
  case (Cons t ts)
  have "containsBloom (shiftBloom bl (sha3 C t)) (sha3 C x) \<or> x \<in> set ts"
    using Cons.prems containsBloom_shift [OF Cons.prems(1)] by (metis set_ConsD)
  moreover have "length (shiftBloom bl (sha3 C t)) = 256" using Cons.prems(1) by (rule length_shiftBloom)
  ultimately show ?case using Cons.IH by simp
qed simp

lemma length_log_bloom [simp]: "length (log_bloom C l) = 256"
  using fold_shiftBloom [of "shiftBloom (hash_zero 256) (sha3 C (log_address l))" C "log_address l"]
  by (simp add: log_bloom_def containsBloom_shift)

lemma log_bloom_contains:
  "x = log_address l \<or> x \<in> set (log_topics l) \<Longrightarrow> containsBloom (log_bloom C l) (sha3 C x)"
  using fold_shiftBloom [of "shiftBloom (hash_zero 256) (sha3 C (log_address l))" C x "log_topics l"]
  by (auto simp: log_bloom_def containsBloom_shift)

lemma fold_bloom:
  assumes "length bl = 256" "containsBloom bl h \<or> (\<exists>l \<in> set logs. containsBloom (log_bloom C l) h)"
  shows "containsBloom (foldl (\<lambda>ret l. hash_or ret (log_bloom C l)) bl logs) h"
  using assms
proof (induction logs arbitrary: bl)
  case (Cons l logs)
  have "length (hash_or bl (log_bloom C l)) = 256" using Cons.prems(1) by simp
  moreover have "containsBloom (hash_or bl (log_bloom C l)) h \<or> (\<exists>l \<in> set logs. containsBloom (log_bloom C l) h)"
    using Cons.prems by (auto simp: containsBloom_or)
  ultimately show ?case using Cons.IH by simp
qed simp

text \<open>
  C33. The bloom filter of a receipt has no false negatives: the address and every topic of every
  log entry of the receipt is contained in the bloom filter that the constructor computes.
\<close>

theorem receipt_bloom_complete:
  assumes "l \<in> set logs" "x = log_address l \<or> x \<in> set (log_topics l)"
  shows "containsBloom (rc_bloom (TransactionReceipt C root g logs st bs addr)) (sha3 C x)"
  using fold_bloom [of "hash_zero 256" "sha3 C x" logs C] assms log_bloom_contains [OF assms(2)]
  by (auto simp: TransactionReceipt_def bloom_def)

theorem receipt_bloom_complete_witness:
  "containsBloom (rc_bloom (TransactionReceipt toy_crypto (hash_zero 32) 0
     [\<lparr>log_address = hash_of_nat 20 1, log_topics = [hash_of_nat 32 2], log_data = []\<rparr>] 0 [] (hash_zero 20)))
     (sha3 toy_crypto (hash_of_nat 32 2))"
  by (rule receipt_bloom_complete [of "\<lparr>log_address = hash_of_nat 20 1, log_topics = [hash_of_nat 32 2], log_data = []\<rparr>"]) simp_all

end
