(* ===== verification/Block.thy ===== *)
theory Block
  imports Transaction
begin

text \<open>
  Block headers and blocks: \<open>libethcore/BlockHeader.h\<close>, \<open>BlockHeader.cpp\<close>, \<open>Block.h\<close> and
  \<open>Block.cpp\<close>. The memoised hash of a header and the encoding caches of a block are part
  of the state; an operation that may fill them returns the updated object.
\<close>

section \<open>Block headers\<close>

definition Invalid256 :: nat where "Invalid256 = 2 ^ 256 - 1"

definition UINT64_MAX :: nat where "UINT64_MAX = 2 ^ 64 - 1"

definition INT64_MAX :: int where "INT64_MAX = 2 ^ 63 - 1"

record header =
  m_parentHash :: bytes
  m_stateRoot :: bytes
  m_transactionsRoot :: bytes
  m_receiptsRoot :: bytes
  m_logBloom :: bytes
  m_number :: int
  m_gasLimit :: nat
  m_gasUsed :: nat
  m_timestamp :: nat
  m_extraData :: "bytes list"
  m_sealer :: nat
  m_sealerList :: "bytes list"
  m_hash :: bytes

definition header_new :: header where
  "header_new = \<lparr>m_parentHash = hash_zero 32, m_stateRoot = hash_zero 32, m_transactionsRoot = hash_zero 32,
     m_receiptsRoot = hash_zero 32, m_logBloom = hash_zero 256, m_number = 0, m_gasLimit = 0, m_gasUsed = 0,
     m_timestamp = UINT64_MAX, m_extraData = [], m_sealer = Invalid256, m_sealerList = [], m_hash = hash_zero 32\<rparr>"

definition header_bool :: "header \<Rightarrow> bool" where
  "header_bool h = (m_timestamp h \<noteq> UINT64_MAX)"

text \<open>\<open>operator==\<close>, which compares the sealer list of the left operand with itself.\<close>

definition header_eq :: "header \<Rightarrow> header \<Rightarrow> bool" where
  "header_eq h c \<longleftrightarrow>
     m_parentHash h = m_parentHash c \<and> m_logBloom h = m_logBloom c \<and> m_number h = m_number c
     \<and> m_gasLimit h = m_gasLimit c \<and> m_gasUsed h = m_gasUsed c \<and> m_timestamp h = m_timestamp c
     \<and> m_extraData h = m_extraData c \<and> m_sealer h = m_sealer c \<and> m_sealerList h = m_sealerList h"

subsection \<open>Encoding and the memoised hash\<close>

definition header_fields :: "header \<Rightarrow> (rlpstream \<Rightarrow> rlp_error + rlpstream) list" where
  "header_fields h =
     [append_hash (m_parentHash h) False False, append_hash (m_stateRoot h) False False,
      append_hash (m_transactionsRoot h) False False, append_hash (m_receiptsRoot h) False False,
      append_hash (m_logBloom h) False False, append_bigint (nat (m_number h)),
      append_bigint (m_gasLimit h), append_bigint (m_gasUsed h), append_bigint (m_timestamp h),
      appendVector (\<lambda>b. append_data b False) (m_extraData h), append_bigint (m_sealer h),
      appendVector (\<lambda>s. append_hash s False False) (m_sealerList h)]"

definition header_encode :: "header \<Rightarrow> rlp_error + bytes" where
  "header_encode h = bindE (bindE (appendList 12 rlpstream_new) (append_all (\<lambda>f. f) (header_fields h))) rlp_out"

definition header_hash :: "crypto \<Rightarrow> header \<Rightarrow> rlp_error + bytes \<times> header" where
  "header_hash C h =
     (if m_hash h = hash_zero 32
      then bindE (header_encode h) (\<lambda>bs. let v = sha3 C bs in Inr (v, h\<lparr>m_hash := v\<rparr>))
      else Inr (m_hash h, h))"

text \<open>The value alone. Encoding fails only for a header of more than \<open>2^64\<close> bytes.\<close>

definition hashOf :: "crypto \<Rightarrow> header \<Rightarrow> bytes" where
  "hashOf C h = (case header_hash C h of Inl _ \<Rightarrow> hash_zero 32 | Inr (v, _) \<Rightarrow> v)"

text \<open>
  Copying a header (copy constructor and assignment): the memoised hash of the source is computed when it
  is missing, and the copy starts with it.
\<close>

definition header_copy :: "crypto \<Rightarrow> header \<Rightarrow> rlp_error + header \<times> header" where
  "header_copy C other =
     bindE (header_hash C other) (\<lambda>(v, other').
       let h = \<lparr>m_parentHash = m_parentHash other', m_stateRoot = m_stateRoot other', m_transactionsRoot = m_transactionsRoot other',
                m_receiptsRoot = m_receiptsRoot other', m_logBloom = m_logBloom other', m_number = m_number other',
                m_gasLimit = m_gasLimit other', m_gasUsed = m_gasUsed other', m_timestamp = m_timestamp other',
                m_extraData = m_extraData other', m_sealer = m_sealer other', m_sealerList = m_sealerList other', m_hash = v\<rparr>
       in if header_eq h other' then Inr (h, other') else Inl AssertFailed)"

definition noteDirty :: "header \<Rightarrow> header" where
  "noteDirty h = h\<lparr>m_hash := hash_zero 32\<rparr>"

subsection \<open>Setters\<close>

definition setParentHash :: "bytes \<Rightarrow> header \<Rightarrow> header" where
  "setParentHash x h = noteDirty (h\<lparr>m_parentHash := x\<rparr>)"
definition setRoots :: "bytes \<Rightarrow> bytes \<Rightarrow> bytes \<Rightarrow> header \<Rightarrow> header" where
  "setRoots t r s h = noteDirty (h\<lparr>m_transactionsRoot := t, m_receiptsRoot := r, m_stateRoot := s\<rparr>)"
definition setLogBloom :: "bytes \<Rightarrow> header \<Rightarrow> header" where
  "setLogBloom x h = noteDirty (h\<lparr>m_logBloom := x\<rparr>)"
definition setNumber :: "int \<Rightarrow> header \<Rightarrow> header" where
  "setNumber x h = noteDirty (h\<lparr>m_number := x\<rparr>)"
definition setGasLimit :: "nat \<Rightarrow> header \<Rightarrow> header" where
  "setGasLimit x h = noteDirty (h\<lparr>m_gasLimit := x\<rparr>)"
definition setGasUsed :: "nat \<Rightarrow> header \<Rightarrow> header" where
  "setGasUsed x h = noteDirty (h\<lparr>m_gasUsed := x\<rparr>)"
definition appendExtraDataArray :: "bytes \<Rightarrow> header \<Rightarrow> header" where
  "appendExtraDataArray x h = noteDirty (h\<lparr>m_extraData := m_extraData h @ [x]\<rparr>)"
definition appendExtraDataItem :: "bytes \<Rightarrow> nat \<Rightarrow> header \<Rightarrow> bool \<times> header" where
  "appendExtraDataItem x i h =
     (if i \<ge> length (m_extraData h) then (False, h) else (True, h\<lparr>m_extraData := (m_extraData h)[i := x]\<rparr>))"
definition setExtraData_at :: "bytes \<Rightarrow> nat \<Rightarrow> header \<Rightarrow> bool \<times> header" where
  "setExtraData_at x i h =
     (if i \<ge> length (m_extraData h) then (False, h)
      else (True, noteDirty (h\<lparr>m_extraData := (m_extraData h)[i := x]\<rparr>)))"
definition setExtraData :: "bytes list \<Rightarrow> header \<Rightarrow> header" where
  "setExtraData x h = noteDirty (h\<lparr>m_extraData := x\<rparr>)"
definition setTimestamp :: "nat \<Rightarrow> header \<Rightarrow> header" where
  "setTimestamp x h = noteDirty (h\<lparr>m_timestamp := x\<rparr>)"
definition setSealer :: "nat \<Rightarrow> header \<Rightarrow> header" where
  "setSealer x h = noteDirty (h\<lparr>m_sealer := x\<rparr>)"
definition setSealerList :: "bytes list \<Rightarrow> header \<Rightarrow> header" where
  "setSealerList x h = noteDirty (h\<lparr>m_sealerList := x\<rparr>)"
definition setStateRoot :: "bytes \<Rightarrow> header \<Rightarrow> header" where
  "setStateRoot x h = noteDirty (h\<lparr>m_stateRoot := x\<rparr>)"
definition setTransactionsRoot :: "bytes \<Rightarrow> header \<Rightarrow> header" where
  "setTransactionsRoot x h = noteDirty (h\<lparr>m_transactionsRoot := x\<rparr>)"
definition setReceiptsRoot :: "bytes \<Rightarrow> header \<Rightarrow> header" where
  "setReceiptsRoot x h = noteDirty (h\<lparr>m_receiptsRoot := x\<rparr>)"

definition header_clear :: "crypto \<Rightarrow> header \<Rightarrow> header" where
  "header_clear C h =
     (let EmptyTrie = sha3 C (enc_data []) in
      noteDirty (h\<lparr>m_parentHash := hash_zero 32, m_stateRoot := EmptyTrie, m_transactionsRoot := EmptyTrie,
        m_receiptsRoot := EmptyTrie, m_logBloom := hash_zero 256, m_number := 0, m_gasLimit := 0, m_gasUsed := 0,
        m_timestamp := UINT64_MAX, m_extraData := [], m_sealer := Invalid256, m_sealerList := []\<rparr>))"

definition populateFromParent :: "crypto \<Rightarrow> header \<Rightarrow> header \<Rightarrow> header" where
  "populateFromParent C parent h =
     noteDirty (h\<lparr>m_stateRoot := m_stateRoot parent, m_number := m_number parent + 1,
       m_parentHash := hashOf C parent, m_gasLimit := m_gasLimit parent, m_gasUsed := 0, m_sealer := Invalid256\<rparr>)"

subsection \<open>Decoding\<close>

text \<open>\<open>populate\<close> overwrites the twelve fields and leaves the memoised hash alone.\<close>

definition header_populate :: "bytes \<Rightarrow> header \<Rightarrow> rlp_error + header" where
  "header_populate d h =
     bindE (bindE (rlp_at d 0) (toHash 32 VeryStrict)) (\<lambda>parentHash.
     bindE (bindE (rlp_at d 1) (toHash 32 VeryStrict)) (\<lambda>stateRoot.
     bindE (bindE (rlp_at d 2) (toHash 32 VeryStrict)) (\<lambda>transactionsRoot.
     bindE (bindE (rlp_at d 3) (toHash 32 VeryStrict)) (\<lambda>receiptsRoot.
     bindE (bindE (rlp_at d 4) (toHash 256 VeryStrict)) (\<lambda>logBloom.
     bindE (bindE (rlp_at d 5) (toPositiveInt64 Strict)) (\<lambda>number.
     bindE (bindE (rlp_at d 6) (toInt 256 Strict)) (\<lambda>gasLimit.
     bindE (bindE (rlp_at d 7) (toInt 256 Strict)) (\<lambda>gasUsed.
     bindE (bindE (rlp_at d 8) (toInt 64 Strict)) (\<lambda>timestamp.
     bindE (bindE (rlp_at d 9) (rlp_toVector toBytes LaissezFaire)) (\<lambda>extraData.
     bindE (bindE (rlp_at d 10) (toInt 256 Strict)) (\<lambda>sealer.
     bindE (bindE (rlp_at d 11) (rlp_toVector (toHash 64) LaissezFaire)) (\<lambda>sealerList.
     Inr (h\<lparr>m_parentHash := parentHash, m_stateRoot := stateRoot, m_transactionsRoot := transactionsRoot,
        m_receiptsRoot := receiptsRoot, m_logBloom := logBloom, m_number := number, m_gasLimit := gasLimit,
        m_gasUsed := gasUsed, m_timestamp := timestamp, m_extraData := extraData, m_sealer := sealer,
        m_sealerList := sealerList\<rparr>)))))))))))))"

definition header_decode :: "bytes \<Rightarrow> header \<Rightarrow> rlp_error + header" where
  "header_decode bs h = bindE (rlp_open bs VeryStrict) (\<lambda>d. header_populate d h)"

definition extractBlock :: "bytes \<Rightarrow> eth_error + bytes" where
  "extractBlock bs =
     bindE (liftR (rlp_open bs VeryStrict)) (\<lambda>root.
       if \<not> isList root then Inl InvalidBlockFormat
       else bindE (liftR (rlp_at root 0)) (\<lambda>r0.
         if \<not> isList r0 then Inl InvalidBlockFormat
         else bindE (liftR (rlp_at root 1)) (\<lambda>r1.
           if \<not> isList r1 then Inl InvalidBlockFormat else Inr root)))"

definition extractHeader :: "bytes \<Rightarrow> eth_error + bytes" where
  "extractHeader bs = bindE (extractBlock bs) (\<lambda>root. liftR (rlp_at root 0))"

definition headerHashFromBlock :: "crypto \<Rightarrow> bytes \<Rightarrow> rlp_error + bytes" where
  "headerHashFromBlock C bs =
     bindE (rlp_open bs VeryStrict) (\<lambda>root. bindE (rlp_at root 0) (\<lambda>d. Inr (sha3 C d)))"

text \<open>The constructor from bytes: the hash is given or taken of the raw header bytes.\<close>

definition BlockHeader :: "crypto \<Rightarrow> bytes \<Rightarrow> bool \<Rightarrow> bytes \<Rightarrow> eth_error + header" where
  "BlockHeader C bs isBlockData hashWith =
     bindE (if isBlockData then extractHeader bs else liftR (rlp_open bs VeryStrict)) (\<lambda>d.
       liftR (header_populate d
         (header_new\<lparr>m_hash := (if hash_bool hashWith then hashWith else sha3 C d)\<rparr>)))"

subsection \<open>Verification\<close>

datatype strictness = CheckEverything | QuickNonce | CheckNothingNew

definition verify_txRoot :: "crypto \<Rightarrow> bytes \<Rightarrow> header \<Rightarrow> eth_error + unit" where
  "verify_txRoot C blk h =
     bindE (liftR (rlp_open blk VeryStrict)) (\<lambda>root.
     bindE (liftR (rlp_at root 1)) (\<lambda>txList.
     bindE (liftR (itemCount txList)) (\<lambda>n.
     bindE (liftR (mapE (rlp_at txList) [0..<n])) (\<lambda>datas.
     bindE (liftR (orderedTrieRoot (sha3 C) datas)) (\<lambda>expectedRoot.
       if m_transactionsRoot h \<noteq> expectedRoot then Inl InvalidTransactionsRoot else Inr ())))))"

definition header_verify :: "crypto \<Rightarrow> strictness \<Rightarrow> header \<Rightarrow> bytes \<Rightarrow> header \<Rightarrow> eth_error + unit" where
  "header_verify C s parent blk h =
     (if m_number h \<ge> INT64_MAX \<or> m_number h < 0 then Inl InvalidNumber
      else if s \<noteq> CheckNothingNew \<and> m_gasUsed h > m_gasLimit h then Inl TooMuchGasUsed
      else if header_bool parent \<and> hash_bool (m_parentHash h) \<and> hashOf C parent \<noteq> m_parentHash h then Inl InvalidParentHash
      else if header_bool parent \<and> m_timestamp h \<le> m_timestamp parent then Inl InvalidTimestamp
      else if header_bool parent \<and> m_number h \<noteq> m_number parent + 1 then Inl InvalidNumber
      else if blk \<noteq> [] then verify_txRoot C blk h
      else Inr ())"

section \<open>Blocks\<close>

record block =
  m_blockHeader :: header
  m_transactions :: "transaction list"
  m_transactionReceipts :: "receipt list"
  m_sigList :: "(nat \<times> bytes) list"
  m_txsCache :: bytes
  m_tReceiptsCache :: bytes
  m_transRootCache :: bytes
  m_receiptRootCache :: bytes

definition block_new :: block where
  "block_new = \<lparr>m_blockHeader = header_new, m_transactions = [], m_transactionReceipts = [], m_sigList = [],
     m_txsCache = [], m_tReceiptsCache = [], m_transRootCache = hash_zero 32, m_receiptRootCache = hash_zero 32\<rparr>"

definition noteChange :: "block \<Rightarrow> block" where
  "noteChange b = b\<lparr>m_txsCache := [], m_tReceiptsCache := []\<rparr>"

definition block_copy :: "crypto \<Rightarrow> block \<Rightarrow> rlp_error + block \<times> block" where
  "block_copy C b =
     bindE (header_copy C (m_blockHeader b)) (\<lambda>(h, h').
       Inr (noteChange (block_new\<lparr>m_blockHeader := h, m_transactions := m_transactions b,
              m_transactionReceipts := m_transactionReceipts b, m_sigList := m_sigList b, m_txsCache := m_txsCache b\<rparr>),
            b\<lparr>m_blockHeader := h'\<rparr>))"

definition block_assign :: "crypto \<Rightarrow> block \<Rightarrow> block \<Rightarrow> rlp_error + block \<times> block" where
  "block_assign C b this =
     bindE (header_copy C (m_blockHeader b)) (\<lambda>(h, h').
       Inr (noteChange (this\<lparr>m_blockHeader := h, m_transactions := m_transactions b,
              m_transactionReceipts := m_transactionReceipts b, m_sigList := m_sigList b, m_txsCache := m_txsCache b\<rparr>),
            b\<lparr>m_blockHeader := h'\<rparr>))"

definition setTransactions :: "transaction list \<Rightarrow> block \<Rightarrow> block" where
  "setTransactions ts b = noteChange (b\<lparr>m_transactions := ts\<rparr>)"
definition setTransactionReceipts :: "receipt list \<Rightarrow> block \<Rightarrow> block" where
  "setTransactionReceipts rs b = noteChange (b\<lparr>m_transactionReceipts := rs\<rparr>)"
definition appendTransaction :: "transaction \<Rightarrow> block \<Rightarrow> block" where
  "appendTransaction t b = noteChange (b\<lparr>m_transactions := m_transactions b @ [t]\<rparr>)"
definition appendTransactions :: "transaction list \<Rightarrow> block \<Rightarrow> block" where
  "appendTransactions ts b = noteChange (b\<lparr>m_transactions := m_transactions b @ ts\<rparr>)"
definition setBlockHeader :: "header \<Rightarrow> block \<Rightarrow> block" where
  "setBlockHeader h b = b\<lparr>m_blockHeader := h\<rparr>"
definition setSigList :: "(nat \<times> bytes) list \<Rightarrow> block \<Rightarrow> block" where
  "setSigList sl b = b\<lparr>m_sigList := sl\<rparr>"
definition isSealed :: "block \<Rightarrow> bool" where
  "isSealed b = (m_sealer (m_blockHeader b) \<noteq> Invalid256)"
definition getTransactionSize :: "block \<Rightarrow> nat" where
  "getTransactionSize b = length (m_transactions b)"
definition resetCurrentBlock :: "crypto \<Rightarrow> header \<Rightarrow> block \<Rightarrow> block" where
  "resetCurrentBlock C parent b =
     noteChange (b\<lparr>m_blockHeader := populateFromParent C parent (m_blockHeader b), m_transactions := [],
       m_transactionReceipts := [], m_sigList := [], m_txsCache := []\<rparr>)"
definition setEmptyBlock :: "block \<Rightarrow> block" where
  "setEmptyBlock b =
     noteChange (b\<lparr>m_blockHeader := setSealer 0 (setGasUsed 0 (setNumber 0 (m_blockHeader b)))\<rparr>)"
definition appendTransactionReceipt :: "receipt \<Rightarrow> block \<Rightarrow> block" where
  "appendTransactionReceipt r b = noteChange (b\<lparr>m_transactionReceipts := m_transactionReceipts b @ [r]\<rparr>)"
definition clearAllReceipts :: "block \<Rightarrow> block" where
  "clearAllReceipts b = noteChange (b\<lparr>m_transactionReceipts := []\<rparr>)"

subsection \<open>Roots and encoding\<close>

text \<open>The loop over the transactions: the raw encodings go to the list stream and, under the
  encoded index, to the map the root is taken of.\<close>

fun cal_loop :: "('a \<Rightarrow> eth_error + bytes) \<Rightarrow> (nat \<times> 'a) list \<Rightarrow> rlpstream \<Rightarrow> (bytes \<times> bytes) list
    \<Rightarrow> eth_error + rlpstream \<times> (bytes \<times> bytes) list" where
  "cal_loop enc [] s m = Inr (s, m)"
| "cal_loop enc ((i, x) # xs) s m =
     bindE (liftR (rlp_unsigned i)) (\<lambda>k.
     bindE (enc x) (\<lambda>d.
     bindE (liftR (appendRaw d 1 s)) (\<lambda>s1. cal_loop enc xs s1 (smap_insert k d m))))"

definition cal_root :: "crypto \<Rightarrow> ('a \<Rightarrow> eth_error + bytes) \<Rightarrow> 'a list \<Rightarrow> eth_error + bytes \<times> bytes" where
  "cal_root C enc xs =
     bindE (liftR (appendList (length xs) rlpstream_new)) (\<lambda>s0.
     bindE (cal_loop enc (enumerate 0 xs) s0 []) (\<lambda>(s, m).
     bindE (liftR (rlp_out s)) (\<lambda>out.
     bindE (liftR (hash256 (sha3 C) m)) (\<lambda>root. Inr (out, root)))))"

definition calTransactionRoot :: "crypto \<Rightarrow> bool \<Rightarrow> block \<Rightarrow> eth_error + block" where
  "calTransactionRoot C update b =
     bindE (if m_txsCache b = []
            then bindE (cal_root C (\<lambda>t. tx_encode t True) (m_transactions b)) (\<lambda>(out, root).
                   Inr (b\<lparr>m_txsCache := out, m_transRootCache := root\<rparr>))
            else Inr b)
       (\<lambda>b1. Inr (if update
                  then b1\<lparr>m_blockHeader := setTransactionsRoot (m_transRootCache b1) (m_blockHeader b1)\<rparr>
                  else b1))"

definition calReceiptRoot :: "crypto \<Rightarrow> bool \<Rightarrow> block \<Rightarrow> eth_error + block" where
  "calReceiptRoot C update b =
     bindE (if m_tReceiptsCache b = []
            then bindE (cal_root C (\<lambda>r. liftR (receipt_encode r)) (m_transactionReceipts b)) (\<lambda>(out, root).
                   Inr (b\<lparr>m_tReceiptsCache := out, m_receiptRootCache := root\<rparr>))
            else Inr b)
       (\<lambda>b1. Inr (if update
                  then b1\<lparr>m_blockHeader := setReceiptsRoot (m_receiptRootCache b1) (m_blockHeader b1)\<rparr>
                  else b1))"

definition append_sig :: "nat \<times> bytes \<Rightarrow> rlpstream \<Rightarrow> rlp_error + rlpstream" where
  "append_sig p = append_pair (append_bigint (fst p)) (append_hash (snd p) False False)"

definition block_encode :: "crypto \<Rightarrow> block \<Rightarrow> eth_error + bytes \<times> block" where
  "block_encode C b =
     bindE (header_verify C CheckEverything header_new [] (m_blockHeader b)) (\<lambda>_.
     bindE (calTransactionRoot C False b) (\<lambda>b1.
     bindE (calReceiptRoot C False b1) (\<lambda>b2.
     bindE (liftR (header_encode (m_blockHeader b2))) (\<lambda>headerData.
     bindE (liftR (header_hash C (m_blockHeader b2))) (\<lambda>(hv, h2).
     bindE (liftR (bindE (bindE (appendList 5 rlpstream_new) (append_all (\<lambda>f. f)
         [appendRaw headerData 1, appendRaw (m_txsCache b2) 1, appendRaw (m_tReceiptsCache b2) 1,
          append_hash hv False False, appendVector append_sig (m_sigList b2)])) rlp_out)) (\<lambda>out.
     Inr (out, b2\<lparr>m_blockHeader := h2\<rparr>)))))))"

text \<open>\<open>decode\<close> into an existing block; \<open>resize\<close> keeps the first elements of the old vectors.\<close>

definition resize :: "'a \<Rightarrow> nat \<Rightarrow> 'a list \<Rightarrow> 'a list" where
  "resize x n xs = take n xs @ replicate (n - length xs) x"

definition sig_of_rlp :: "nat \<Rightarrow> bytes \<Rightarrow> rlp_error + nat \<times> bytes" where
  "sig_of_rlp flags d = toPair (toInt 256 flags) (toHash 65 flags) (0, hash_zero 65) flags d"

definition block_decode :: "crypto \<Rightarrow> bytes \<Rightarrow> block \<Rightarrow> eth_error + block" where
  "block_decode C bs b =
     bindE (extractBlock bs) (\<lambda>root.
     bindE (liftR (rlp_at root 0)) (\<lambda>r0.
     bindE (liftR (header_populate r0 (m_blockHeader b))) (\<lambda>h.
     bindE (liftR (rlp_at root 1)) (\<lambda>r1.
     bindE (liftR (itemCount r1)) (\<lambda>n.
     bindE (mapE (\<lambda>(i, t). bindE (liftR (rlp_at r1 i)) (\<lambda>d. tx_decode C CheckAll d t))
              (enumerate 0 (resize transaction_null n (m_transactions b)))) (\<lambda>txs.
     bindE (liftR (rlp_at root 2)) (\<lambda>r2.
     bindE (liftR (itemCount r2)) (\<lambda>k.
     bindE (mapE (\<lambda>(i, r). bindE (liftR (rlp_at r2 i)) (\<lambda>d. receipt_decode d r))
              (enumerate 0 (resize receipt_new k (m_transactionReceipts b)))) (\<lambda>rs.
     bindE (liftR (bindE (rlp_at root 3) (toHash 32 Strict))) (\<lambda>hash.
     bindE (liftR (header_hash C h)) (\<lambda>(hv, h1).
     if hash \<noteq> hv then Inl ErrorBlockHash
     else bindE (liftR (bindE (rlp_at root 4) (rlp_toVector sig_of_rlp LaissezFaire))) (\<lambda>sigs.
       Inr (noteChange (b\<lparr>m_blockHeader := h1, m_transactions := txs, m_transactionReceipts := rs,
              m_sigList := sigs\<rparr>))))))))))))))"

section \<open>Round trip of headers\<close>

definition header_items :: "header \<Rightarrow> bytes list" where
  "header_items h =
     [enc_data (m_parentHash h), enc_data (m_stateRoot h), enc_data (m_transactionsRoot h), enc_data (m_receiptsRoot h),
      enc_data (m_logBloom h), enc_int (nat (m_number h)), enc_int (m_gasLimit h), enc_int (m_gasUsed h),
      enc_int (m_timestamp h), enc_list (concat (map enc_data (m_extraData h))), enc_int (m_sealer h),
      enc_list (concat (map enc_data (m_sealerList h)))]"

text \<open>The ranges of the fields' types, and a total size below the limit of the codec.\<close>

definition header_wf :: "header \<Rightarrow> bool" where
  "header_wf h \<longleftrightarrow>
     length (m_parentHash h) = 32 \<and> length (m_stateRoot h) = 32 \<and> length (m_transactionsRoot h) = 32
     \<and> length (m_receiptsRoot h) = 32 \<and> length (m_logBloom h) = 256 \<and> 0 \<le> m_number h \<and> m_number h \<le> INT64_MAX
     \<and> u256 (m_gasLimit h) \<and> u256 (m_gasUsed h) \<and> m_timestamp h < 2 ^ 64 \<and> u256 (m_sealer h)
     \<and> list_all (\<lambda>s. length s = 64) (m_sealerList h) \<and> rlp_size_ok (length (concat (header_items h)))"

lemma header_parts:
  assumes "header_wf h"
  shows "rlp_size_ok (length (concat (map enc_data (m_extraData h))))"
    and "rlp_size_ok (length (concat (map enc_data (m_sealerList h))))"
    and "rlp_size_ok 32" "rlp_size_ok 256" "rlp_size_ok 64"
    and "x \<in> set (m_extraData h) \<Longrightarrow> rlp_size_ok (length x)"
    and "u256 (nat (m_number h))" "u256 (m_timestamp h)"
proof -
  show 1: "rlp_size_ok (length (concat (map enc_data (m_extraData h))))"
    and "rlp_size_ok (length (concat (map enc_data (m_sealerList h))))"
    using assms by (auto simp: header_wf_def header_items_def enc_list_def rlp_size_ok_def)
  show "rlp_size_ok 32" "rlp_size_ok 256" "rlp_size_ok 64" by (simp_all add: rlp_size_ok_def)
  show "x \<in> set (m_extraData h) \<Longrightarrow> rlp_size_ok (length x)" using 1 by (rule rlp_size_ok_member)
  have "nat (m_number h) < 2 ^ 64" "m_timestamp h < 2 ^ 64"
    using assms by (auto simp: header_wf_def INT64_MAX_def)
  then show "u256 (nat (m_number h))" "u256 (m_timestamp h)" by (simp_all add: u256_less [of _ 64])
qed

lemma header_emitted:
  assumes "header_wf h"
  shows "list_all2 emits (header_fields h) (header_items h)" "list_all rlp_item (header_items h)"
proof -
  note parts = header_parts [OF assms]
  have "emits (appendVector (\<lambda>b. append_data b False) (m_extraData h)) (enc_list (concat (map enc_data (m_extraData h))))"
    using parts by (intro emits_appendVector emits_append_data) auto
  moreover have "emits (appendVector (\<lambda>s. append_hash s False False) (m_sealerList h)) (enc_list (concat (map enc_data (m_sealerList h))))"
    using parts assms
    by (intro emits_appendVector emits_append_hash) (auto simp: header_wf_def list_all_iff)
  ultimately show "list_all2 emits (header_fields h) (header_items h)"
    using assms parts
    by (simp add: header_fields_def header_items_def header_wf_def emits_append_hash emits_append_u256)
  show "list_all rlp_item (header_items h)"
    using assms parts by (simp add: header_items_def header_wf_def)
qed

lemma header_encode_items:
  "header_wf h \<Longrightarrow> header_encode h = Inr (enc_list (concat (header_items h)))"
  using emits_list_out [OF header_emitted(1), of h 12]
  by (simp add: header_encode_def header_wf_def header_fields_def)

lemma rlp_toVector_bytes:
  assumes "rlp_size_ok (length (concat (map enc_data xs)))"
  shows "rlp_toVector toBytes flags (enc_list (concat (map enc_data xs))) = Inr xs"
proof -
  have ok: "x \<in> set xs \<Longrightarrow> rlp_size_ok (length x)" for x using assms by (rule rlp_size_ok_member)
  then have "list_all rlp_item (map enc_data xs)" by (auto simp: list_all_iff)
  moreover have "mapE (toBytes flags) (map enc_data xs) = Inr xs"
    using ok by (intro mapE_map_inverse toBytes_enc_data)
  ultimately show ?thesis
    using assms by (simp add: rlp_toVector_def enc_list_reads0 itemCount_enc_list rlp_each_enc_list)
qed

lemma toPositiveInt64_enc:
  assumes "0 \<le> n" "n \<le> INT64_MAX"
  shows "toPositiveInt64 flags (enc_int (nat n)) = Inr n"
proof -
  have "nat n < 2 ^ 63" using assms by (auto simp: INT64_MAX_def)
  then have "as_int64 (nat n) = n" "nat n < 2 ^ 64" using assms(1) by (simp_all add: as_int64_def)
  then show ?thesis
    using assms(1) toInt_enc_int [of "nat n" 64 flags] by (simp add: toPositiveInt64_def)
qed

lemma header_populate_items:
  assumes "header_wf h"
  shows "header_populate (enc_list (concat (header_items h))) h0 = Inr (h\<lparr>m_hash := m_hash h0\<rparr>)"
proof -
  define d where "d = enc_list (concat (header_items h))"
  note parts = header_parts [OF assms] and em = header_emitted [OF assms]
  have ok: "rlp_size_ok (length (concat (header_items h)))" using assms by (simp add: header_wf_def)
  have f: "rlp_at d 0 = Inr (enc_data (m_parentHash h))" "rlp_at d 1 = Inr (enc_data (m_stateRoot h))"
    "rlp_at d 2 = Inr (enc_data (m_transactionsRoot h))" "rlp_at d 3 = Inr (enc_data (m_receiptsRoot h))"
    "rlp_at d 4 = Inr (enc_data (m_logBloom h))" "rlp_at d 5 = Inr (enc_int (nat (m_number h)))"
    "rlp_at d 6 = Inr (enc_int (m_gasLimit h))" "rlp_at d 7 = Inr (enc_int (m_gasUsed h))"
    "rlp_at d 8 = Inr (enc_int (m_timestamp h))" "rlp_at d 9 = Inr (enc_list (concat (map enc_data (m_extraData h))))"
    "rlp_at d 10 = Inr (enc_int (m_sealer h))" "rlp_at d 11 = Inr (enc_list (concat (map enc_data (m_sealerList h))))"
    unfolding d_def by (simp_all add: rlp_at_enc_list [OF em(2) ok]) (simp_all add: header_items_def)
  have ts: "toInt 64 Strict (enc_int (m_timestamp h)) = Inr (m_timestamp h)"
    using assms by (intro toInt_enc_int) (simp_all add: header_wf_def)
  have "header_populate d h0 = Inr (h\<lparr>m_hash := m_hash h0\<rparr>)"
    using assms parts
    by (simp del: Strict_def VeryStrict_def LaissezFaire_def One_nat_def
        add: header_populate_def f ts header_wf_def toHash_enc_data toInt_u256 toPositiveInt64_enc
          rlp_toVector_bytes rlp_toVector_hashes)
  then show ?thesis by (simp add: d_def)
qed

section \<open>The memoised hash\<close>

text \<open>The memo is empty or holds the hash of the current fields.\<close>

definition memo_ok :: "crypto \<Rightarrow> header \<Rightarrow> bool" where
  "memo_ok C h \<longleftrightarrow> m_hash h = hash_zero 32 \<or> (\<exists>bs. header_encode h = Inr bs \<and> m_hash h = sha3 C bs)"

lemma header_encode_memo [simp]: "header_encode (h\<lparr>m_hash := v\<rparr>) = header_encode h"
  by (simp add: header_encode_def header_fields_def)

lemma memo_ok_dirty [simp]: "memo_ok C (noteDirty h)"
  by (simp add: memo_ok_def noteDirty_def)

lemmas setter_defs = setParentHash_def setRoots_def setLogBloom_def setNumber_def setGasLimit_def setGasUsed_def
  appendExtraDataArray_def setExtraData_def setTimestamp_def setSealer_def setSealerList_def setStateRoot_def
  setTransactionsRoot_def setReceiptsRoot_def

lemma hashOf_memo_ok:
  assumes "memo_ok C h" "header_encode h = Inr bs"
  shows "header_hash C h = Inr (sha3 C bs, h\<lparr>m_hash := sha3 C bs\<rparr>)" "hashOf C h = sha3 C bs"
proof -
  have "m_hash h \<noteq> hash_zero 32 \<Longrightarrow> m_hash h = sha3 C bs" using assms by (auto simp: memo_ok_def)
  moreover have "m_hash h = sha3 C bs \<Longrightarrow> h\<lparr>m_hash := sha3 C bs\<rparr> = h" by (cases h) simp
  ultimately show "header_hash C h = Inr (sha3 C bs, h\<lparr>m_hash := sha3 C bs\<rparr>)"
    using assms(2) by (auto simp: header_hash_def Let_def)
  then show "hashOf C h = sha3 C bs" by (simp add: hashOf_def)
qed

section \<open>Roots of the item lists\<close>

lemma enc_int_inj: "u256 i \<Longrightarrow> u256 j \<Longrightarrow> enc_int i = enc_int j \<Longrightarrow> i = j"
  by (metis Inr_inject toInt_u256)

lemma rlp_unsigned_enc: "i < 2 ^ 32 \<Longrightarrow> rlp_unsigned i = Inr (enc_int i)"
  using emits_out [OF emits_append_unsigned, of "int i"] by (simp add: rlp_unsigned_def)

fun index_map :: "nat \<Rightarrow> bytes list \<Rightarrow> (bytes \<times> bytes) list \<Rightarrow> (bytes \<times> bytes) list" where
  "index_map i [] m = m"
| "index_map i (d # ds) m = index_map (Suc i) ds (smap_set (enc_int i) d m)"

lemma trie_map_index: "i + length ds \<le> 2 ^ 32 \<Longrightarrow> trie_map (enumerate i ds) m = Inr (index_map i ds m)"
  by (induction ds arbitrary: i m) (simp_all add: rlp_unsigned_enc)

lemma index_map_members:
  "set (index_map i ds m) \<subseteq> set m \<union> {(enc_int j, d) | j d. i \<le> j \<and> j < i + length ds \<and> d \<in> set ds}"
proof (induction ds arbitrary: i m)
  case (Cons d ds)
  show ?case
    using Cons [of "Suc i" "smap_set (enc_int i) d m"] set_smap_set [of "enc_int i" d m] by fastforce
qed simp

lemma cal_loop_items:
  assumes "\<And>x. x \<in> set xs \<Longrightarrow> enc x = Inr (e x)" "i + length xs \<le> 2 ^ 32"
    and "\<And>k. k \<in> fst ` set m \<Longrightarrow> \<exists>j < i. k = enc_int j"
  shows "cal_loop enc (enumerate i xs) s m =
    bindE (liftR (append_all (\<lambda>x. appendRaw (e x) 1) xs s)) (\<lambda>s'. Inr (s', index_map i (map e xs) m))"
  using assms
proof (induction xs arbitrary: i s m)
  case (Cons x xs)
  have i: "i < 2 ^ 32" using Cons.prems(2) by simp
  have "enc_int i \<notin> fst ` set m"
  proof
    assume "enc_int i \<in> fst ` set m"
    then obtain j where j: "j < i" "enc_int i = enc_int j" using Cons.prems(3) by blast
    then show False using i enc_int_inj [of i j] u256_less [of i 32] u256_less [of j 32] by simp
  qed
  then have ins: "smap_insert (enc_int i) (e x) m = smap_set (enc_int i) (e x) m"
    by (simp add: smap_insert_def map_of_eq_None_iff)
  have "\<exists>j < Suc i. k = enc_int j" if "k \<in> fst ` set (smap_set (enc_int i) (e x) m)" for k
    using that Cons.prems(3) by (auto simp: less_Suc_eq)
  then have "cal_loop enc (enumerate (Suc i) xs) s1 (smap_set (enc_int i) (e x) m) =
      bindE (liftR (append_all (\<lambda>x. appendRaw (e x) 1) xs s1)) (\<lambda>s'. Inr (s', index_map (Suc i) (map e xs) (smap_set (enc_int i) (e x) m)))" for s1
    using Cons.prems by (intro Cons.IH) simp_all
  then show ?case
    using Cons.prems(1) i by (simp add: rlp_unsigned_enc ins liftR_bindE bindE_assoc)
qed simp

lemma index_map_bound:
  assumes "\<And>d. d \<in> set ds \<Longrightarrow> length d \<le> B" "41 \<le> B" "length ds \<le> 2 ^ 32"
  shows "trie_bound B (index_map 0 ds [])"
proof -
  have "length (enc_int j) \<le> B" if "j < length ds" for j
    using length_enc_int_le [of j] u256_less [of j 32] that assms(2,3) by simp
  then show ?thesis
    using index_map_members [of 0 ds "[]"] assms(1) by (fastforce simp: trie_bound_def)
qed

lemma cal_root_items:
  assumes "\<And>x. x \<in> set xs \<Longrightarrow> enc x = Inr (e x)" "length xs \<le> 2 ^ 32"
    and "\<And>x. x \<in> set xs \<Longrightarrow> length (e x) \<le> 2 ^ 38" "rlp_size_ok (length (concat (map e xs)))"
    and "\<And>b. length (sha3 C b) = 32"
  obtains root where "cal_root C enc xs = Inr (enc_list (concat (map e xs)), root)"
    and "orderedTrieRoot (sha3 C) (map e xs) = Inr root" "length root = 32"
proof -
  have "trie_bound (2 ^ 38) (index_map 0 (map e xs) [])"
    using assms(2,3) by (intro index_map_bound) auto
  then obtain root where root: "hash256 (sha3 C) (index_map 0 (map e xs) []) = Inr root" "length root = 32"
    using hash256_defined [of "2 ^ 38" _ "sha3 C"] assms(5) by auto
  have "emits (appendVector (\<lambda>x. appendRaw (e x) 1) xs) (enc_list (concat (map e xs)))"
    using assms(4) by (intro emits_appendVector appendRaw_item)
  then have out: "bindE (appendVector (\<lambda>x. appendRaw (e x) 1) xs rlpstream_new) rlp_out = Inr (enc_list (concat (map e xs)))"
    by (rule emits_out)
  have loop: "cal_loop enc (enumerate 0 xs) s [] =
      bindE (liftR (append_all (\<lambda>x. appendRaw (e x) 1) xs s)) (\<lambda>s'. Inr (s', index_map 0 (map e xs) []))" for s
    using assms(1,2) by (intro cal_loop_items) simp_all
  have "cal_root C enc xs = bindE (liftR (bindE (appendVector (\<lambda>x. appendRaw (e x) 1) xs rlpstream_new) rlp_out)) (\<lambda>out.
      bindE (liftR (hash256 (sha3 C) (index_map 0 (map e xs) []))) (\<lambda>root. Inr (out, root)))"
    by (simp add: cal_root_def appendVector_def loop bindE_assoc liftR_bindE)
  with out root that show ?thesis
    using assms(2) by (simp add: orderedTrieRoot_def trie_map_index)
qed

section \<open>Round trip of blocks\<close>

text \<open>
  A transaction as \<open>decode\<close> leaves it in a fresh object: its signature is valid, its cached
  sender is the recovered one and nothing else is cached.
\<close>

definition tx_canonical :: "crypto \<Rightarrow> transaction \<Rightarrow> bool" where
  "tx_canonical C t \<longleftrightarrow>
     tx_wf t \<and> (case m_vrs t of None \<Rightarrow> False | Some v \<Rightarrow> sig_isValid v) \<and> m_hashWith t = hash_zero 32 \<and> m_importTime t = 0
     \<and> (case tx_sender C (t\<lparr>m_sender := hash_zero 20\<rparr>) of Inl _ \<Rightarrow> False | Inr (a, _) \<Rightarrow> m_sender t = a)"

definition tx_bytes :: "transaction \<Rightarrow> bytes" where
  "tx_bytes t = enc_list (concat (tx_items t @ (case m_vrs t of None \<Rightarrow> [] | Some v \<Rightarrow> sig_items v)))"

lemma tx_canonical_codec:
  assumes "tx_canonical C t"
  shows "tx_encode t True = Inr (tx_bytes t)" "tx_decode C CheckAll (tx_bytes t) transaction_null = Inr t"
    and "rlp_item (tx_bytes t)" "length (tx_bytes t) \<le> 2 ^ 34" "isList (tx_bytes t)"
proof -
  obtain v where v: "m_vrs t = Some v" "tx_wf t" "sig_wf v" "sig_isValid v"
    using assms by (auto simp: tx_canonical_def tx_wf_def split: option.splits)
  obtain t' where snd: "tx_sender C (t\<lparr>m_sender := hash_zero 20\<rparr>) = Inr (m_sender t, t')"
    using assms by (auto simp: tx_canonical_def split: sum.splits)
  then have t': "t' = t"
    using v(1) by (auto simp: tx_sender_def bindE_eq_Inr Let_def split: if_splits)
  note it = tx_items_emitted [OF v(2)] and si = sig_items_emitted [OF v(3)]
  have bs: "tx_bytes t = enc_list (concat (tx_items t @ sig_items v))" by (simp add: tx_bytes_def v)
  have len: "length (concat (tx_items t @ sig_items v)) \<le> 2 ^ 33 + 123" using it(3) si(3) by simp
  then have ok: "rlp_size_ok (length (concat (tx_items t @ sig_items v)))" by (simp add: rlp_size_ok_def)
  show "tx_encode t True = Inr (tx_bytes t)" using tx_encode_items [OF v(2,1)] by (simp add: bs)
  show "rlp_item (tx_bytes t)" unfolding bs using ok by (rule rlp_item_enc_list)
  show "isList (tx_bytes t)" unfolding bs using ok by (rule enc_list_reads0)
  show "length (tx_bytes t) \<le> 2 ^ 34" unfolding bs using length_enc_list_le [OF ok] len by simp
  have "t\<lparr>m_hashWith := hash_zero 32, m_sender := hash_zero 20, m_importTime := 0\<rparr> = t\<lparr>m_sender := hash_zero 20\<rparr>"
    using assms by (cases t) (simp add: tx_canonical_def)
  then have "tx_decode_fields (tx_bytes t) transaction_null = Inr (t\<lparr>m_sender := hash_zero 20\<rparr>)"
    using tx_decode_items [OF v(2,1), of transaction_null] by (simp add: bs transaction_null_def)
  then show "tx_decode C CheckAll (tx_bytes t) transaction_null = Inr t"
    using v snd t' by (simp add: tx_decode_def)
qed

definition sig_enc :: "nat \<times> bytes \<Rightarrow> bytes" where
  "sig_enc p = enc_list (enc_int (fst p) @ enc_data (snd p))"

definition sigpair_wf :: "nat \<times> bytes \<Rightarrow> bool" where
  "sigpair_wf p \<longleftrightarrow> u256 (fst p) \<and> length (snd p) = 65"

lemma sig_codec:
  assumes "sigpair_wf p"
  shows "emits (append_sig p) (sig_enc p)" "rlp_item (sig_enc p)" "sig_of_rlp flags (sig_enc p) = Inr p"
proof -
  let ?es = "[enc_int (fst p), enc_data (snd p)]"
  have s65: "rlp_size_ok (length (snd p))" "rlp_size_ok 65" using assms by (simp_all add: sigpair_wf_def rlp_size_ok_def)
  have "length (enc_int (fst p)) \<le> 41" "length (enc_data (snd p)) \<le> 74"
    using assms length_enc_int_le length_enc_data_le [OF s65(1)] by (auto simp: sigpair_wf_def)
  then have ok: "rlp_size_ok (length (enc_int (fst p) @ enc_data (snd p)))" by (simp add: rlp_size_ok_def)
  show "emits (append_sig p) (sig_enc p)"
    using assms s65 ok unfolding append_sig_def sig_enc_def
    by (intro emits_append_pair emits_append_u256 emits_append_hash) (simp_all add: sigpair_wf_def)
  show "rlp_item (sig_enc p)" using ok by (simp add: sig_enc_def)
  have items: "list_all rlp_item ?es" using assms s65 by (simp add: sigpair_wf_def)
  have ok2: "rlp_size_ok (length (concat ?es))" using ok by simp
  have enc: "sig_enc p = enc_list (concat ?es)" by (simp add: sig_enc_def)
  have at: "rlp_at (sig_enc p) 0 = Inr (enc_int (fst p))" "rlp_at (sig_enc p) 1 = Inr (enc_data (snd p))"
    unfolding enc by (subst rlp_at_enc_list [OF items ok2], simp)+
  have cnt: "itemCountStrict (sig_enc p) = Inr 2"
    using itemCount_enc_list [OF items ok2] enc_list_reads0 [OF ok2]
    unfolding enc by (simp add: itemCountStrict_def itemCount_def del: concat.simps)
  let ?r = "rlp_obj (sig_enc p)"
  have i0: "fst (rlp_index ?r 0) = Inr (enc_int (fst p))"
    using rlp_index_refines(1) [of ?r 0] at by simp
  then have "cache_ok (snd (rlp_index ?r 0))" "m_data (snd (rlp_index ?r 0)) = sig_enc p"
    using rlp_index_refines(2) [of ?r 0] by auto
  then have i1: "fst (rlp_index (snd (rlp_index ?r 0)) 1) = Inr (enc_data (snd p))"
    using rlp_index_refines(1) [of "snd (rlp_index ?r 0)" 1] at by simp
  obtain r' where r': "rlp_index ?r 0 = (Inr (enc_int (fst p)), r')" using i0 by (cases "rlp_index ?r 0") simp
  show "sig_of_rlp flags (sig_enc p) = Inr p"
    using i1 assms s65 r' by (simp add: sig_of_rlp_def toPair_def cnt toInt_u256 toHash_enc_data sigpair_wf_def)
qed

definition receipt_bytes :: "receipt \<Rightarrow> bytes" where
  "receipt_bytes r = enc_list (concat (receipt_items r))"

definition header_bytes :: "header \<Rightarrow> bytes" where
  "header_bytes h = enc_list (concat (header_items h))"

definition block_items :: "crypto \<Rightarrow> block \<Rightarrow> bytes list" where
  "block_items C b =
     [header_bytes (m_blockHeader b), enc_list (concat (map tx_bytes (m_transactions b))),
      enc_list (concat (map receipt_bytes (m_transactionReceipts b))),
      enc_data (sha3 C (header_bytes (m_blockHeader b))), enc_list (concat (map sig_enc (m_sigList b)))]"

text \<open>The ranges of the fields' types; the caches are empty or hold the current encodings.\<close>

definition block_wf :: "crypto \<Rightarrow> block \<Rightarrow> bool" where
  "block_wf C b \<longleftrightarrow>
     header_wf (m_blockHeader b) \<and> memo_ok C (m_blockHeader b)
     \<and> m_number (m_blockHeader b) < INT64_MAX \<and> m_gasUsed (m_blockHeader b) \<le> m_gasLimit (m_blockHeader b)
     \<and> list_all (tx_canonical C) (m_transactions b) \<and> length (m_transactions b) \<le> 2 ^ 32
     \<and> list_all (\<lambda>r. receipt_wf r \<and> length (receipt_bytes r) \<le> 2 ^ 38) (m_transactionReceipts b)
     \<and> length (m_transactionReceipts b) \<le> 2 ^ 32
     \<and> list_all sigpair_wf (m_sigList b)
     \<and> m_txsCache b \<in> {[], enc_list (concat (map tx_bytes (m_transactions b)))}
     \<and> m_tReceiptsCache b \<in> {[], enc_list (concat (map receipt_bytes (m_transactionReceipts b)))}
     \<and> rlp_size_ok (length (concat (block_items C b)))"

lemma block_parts:
  assumes "block_wf C b"
  shows "rlp_size_ok (length (concat (map tx_bytes (m_transactions b))))"
    and "rlp_size_ok (length (concat (map receipt_bytes (m_transactionReceipts b))))"
    and "rlp_size_ok (length (concat (map sig_enc (m_sigList b))))"
    and "header_encode (m_blockHeader b) = Inr (header_bytes (m_blockHeader b))"
    and "rlp_item (header_bytes (m_blockHeader b))" "isList (header_bytes (m_blockHeader b))"
    and "t \<in> set (m_transactions b) \<Longrightarrow> tx_canonical C t"
    and "r \<in> set (m_transactionReceipts b) \<Longrightarrow> receipt_wf r \<and> length (receipt_bytes r) \<le> 2 ^ 38"
    and "p \<in> set (m_sigList b) \<Longrightarrow> sigpair_wf p"
  using assms header_encode_items [of "m_blockHeader b"]
  by (auto simp: block_wf_def block_items_def enc_list_def header_bytes_def header_wf_def list_all_iff rlp_size_ok_def)
     (auto simp: enc_list_def [symmetric] enc_list_reads0 rlp_size_ok_def)

lemma block_items_ok:
  assumes "block_wf C b" "\<And>x. length (sha3 C x) = 32"
  shows "list_all rlp_item (block_items C b)"
  using assms(2) block_parts [OF assms(1)] by (simp add: block_items_def rlp_size_ok_def)

lemma block_tx_root:
  assumes "block_wf C b" "\<And>x. length (sha3 C x) = 32"
  obtains root where "cal_root C (\<lambda>t. tx_encode t True) (m_transactions b) = Inr (enc_list (concat (map tx_bytes (m_transactions b))), root)"
    and "orderedTrieRoot (sha3 C) (map tx_bytes (m_transactions b)) = Inr root" "length root = 32"
proof -
  note parts = block_parts [OF assms(1)]
  have c: "tx_encode t True = Inr (tx_bytes t)" "length (tx_bytes t) \<le> 2 ^ 38" if "t \<in> set (m_transactions b)" for t
    using tx_canonical_codec(1,4) [OF parts(7) [OF that]] by simp_all
  have "length (m_transactions b) \<le> 2 ^ 32" using assms(1) unfolding block_wf_def by blast
  from c(1) this c(2) parts(1) assms(2) that show ?thesis by (rule cal_root_items)
qed

lemma block_receipt_root:
  assumes "block_wf C b" "\<And>x. length (sha3 C x) = 32"
  obtains root where "cal_root C (\<lambda>r. liftR (receipt_encode r)) (m_transactionReceipts b)
    = Inr (enc_list (concat (map receipt_bytes (m_transactionReceipts b))), root)"
proof -
  note parts = block_parts [OF assms(1)]
  have c: "liftR (receipt_encode r) = Inr (receipt_bytes r)" "length (receipt_bytes r) \<le> 2 ^ 38"
    if "r \<in> set (m_transactionReceipts b)" for r
    using receipt_encode_items(1) [of r] parts(8) [OF that] by (simp_all add: receipt_bytes_def)
  have n: "length (m_transactionReceipts b) \<le> 2 ^ 32" using assms(1) unfolding block_wf_def by blast
  from c(1) n c(2) parts(2) assms(2) that(1) show ?thesis by (rule cal_root_items)
qed

lemma block_encode_items:
  assumes "block_wf C b" "\<And>x. length (sha3 C x) = 32"
  shows "\<exists>b'. block_encode C b = Inr (enc_list (concat (block_items C b)), b')"
proof -
  let ?h = "m_blockHeader b" and ?T = "enc_list (concat (map tx_bytes (m_transactions b)))"
    and ?R = "enc_list (concat (map receipt_bytes (m_transactionReceipts b)))"
  note parts = block_parts [OF assms(1)]
  obtain tr where tr: "cal_root C (\<lambda>t. tx_encode t True) (m_transactions b) = Inr (?T, tr)"
    using assms by (rule block_tx_root)
  obtain rr where rr: "cal_root C (\<lambda>r. liftR (receipt_encode r)) (m_transactionReceipts b) = Inr (?R, rr)"
    using assms by (rule block_receipt_root)
  have verify: "header_verify C CheckEverything header_new [] ?h = Inr ()"
    using assms(1) by (simp add: block_wf_def header_verify_def header_bool_def header_new_def header_wf_def)
  have hash: "header_hash C ?h = Inr (sha3 C (header_bytes ?h), ?h\<lparr>m_hash := sha3 C (header_bytes ?h)\<rparr>)"
    using assms(1) parts(4) by (intro hashOf_memo_ok) (simp_all add: block_wf_def)
  have "emits (appendVector append_sig (m_sigList b)) (enc_list (concat (map sig_enc (m_sigList b))))"
    using parts by (intro emits_appendVector sig_codec) auto
  then have "list_all2 emits [appendRaw (header_bytes ?h) 1, appendRaw ?T 1, appendRaw ?R 1,
      append_hash (sha3 C (header_bytes ?h)) False False, appendVector append_sig (m_sigList b)] (block_items C b)"
    using assms(2) by (simp add: block_items_def appendRaw_item [unfolded One_nat_def] emits_append_hash rlp_size_ok_def)
  from emits_list_out [OF this, of 5] assms(1)
  have out: "bindE (bindE (appendList 5 rlpstream_new) (append_all (\<lambda>f. f) [appendRaw (header_bytes ?h) 1, appendRaw ?T 1,
      appendRaw ?R 1, append_hash (sha3 C (header_bytes ?h)) False False, appendVector append_sig (m_sigList b)])) rlp_out
      = Inr (enc_list (concat (block_items C b)))" by (simp add: block_wf_def)
  have "m_txsCache b \<in> {[], ?T}" "m_tReceiptsCache b \<in> {[], ?R}" using assms(1) by (simp_all add: block_wf_def)
  moreover have "?T \<noteq> []" "?R \<noteq> []" using parts(1,2) by (simp_all add: enc_list_reads)
  ultimately have "\<exists>b1. calTransactionRoot C False b = Inr b1 \<and> m_txsCache b1 = ?T \<and> m_blockHeader b1 = ?h
      \<and> m_transactionReceipts b1 = m_transactionReceipts b \<and> m_tReceiptsCache b1 = m_tReceiptsCache b \<and> m_sigList b1 = m_sigList b"
    using tr by (auto simp: calTransactionRoot_def)
  then obtain b1 where b1: "calTransactionRoot C False b = Inr b1" "m_txsCache b1 = ?T" "m_blockHeader b1 = ?h"
      "m_transactionReceipts b1 = m_transactionReceipts b" "m_tReceiptsCache b1 = m_tReceiptsCache b" "m_sigList b1 = m_sigList b"
    by blast
  have "\<exists>b2. calReceiptRoot C False b1 = Inr b2 \<and> m_tReceiptsCache b2 = ?R \<and> m_txsCache b2 = ?T \<and> m_blockHeader b2 = ?h
      \<and> m_sigList b2 = m_sigList b"
    using rr b1 \<open>m_tReceiptsCache b \<in> {[], ?R}\<close> \<open>?R \<noteq> []\<close> by (auto simp: calReceiptRoot_def)
  then obtain b2 where b2: "calReceiptRoot C False b1 = Inr b2" "m_tReceiptsCache b2 = ?R" "m_txsCache b2 = ?T"
      "m_blockHeader b2 = ?h" "m_sigList b2 = m_sigList b" by blast
  show ?thesis
    using verify b1(1) b2 hash parts(4) out by (simp add: block_encode_def del: append_all.simps)
qed

lemma mapE_enumerate_const:
  assumes "\<And>i. i < n \<Longrightarrow> f (k + i, x) = Inr (ys ! i)" "n = length ys"
  shows "mapE f (enumerate k (replicate n x)) = Inr ys"
  using assms
proof (induction ys arbitrary: n k)
  case (Cons y ys)
  have "mapE f (enumerate (Suc k) (replicate (length ys) x)) = Inr ys"
    using Cons.prems(1) [of "Suc _"] Cons.prems(2) by (intro Cons.IH) auto
  with Cons.prems(1) [of 0] Cons.prems(2) show ?case by simp
qed simp

lemma decode_list_items:
  assumes "list_all rlp_item (map e xs)" "rlp_size_ok (length (concat (map e xs)))"
    and "\<And>x. x \<in> set xs \<Longrightarrow> dec (e x) x0 = Inr x"
  shows "itemCount (enc_list (concat (map e xs))) = Inr (length xs)"
    and "mapE (\<lambda>(i, t). bindE (liftR (rlp_at (enc_list (concat (map e xs))) i)) (\<lambda>d. dec d t))
      (enumerate 0 (replicate (length xs) x0)) = Inr xs"
proof -
  show "itemCount (enc_list (concat (map e xs))) = Inr (length xs)"
    using itemCount_enc_list [OF assms(1,2)] by simp
  show "mapE (\<lambda>(i, t). bindE (liftR (rlp_at (enc_list (concat (map e xs))) i)) (\<lambda>d. dec d t))
      (enumerate 0 (replicate (length xs) x0)) = Inr xs"
    by (rule mapE_enumerate_const) (simp_all add: rlp_at_enc_list [OF assms(1,2)] assms(3))
qed

lemma block_decode_items:
  assumes "block_wf C b" "\<And>x. length (sha3 C x) = 32"
  shows "block_decode C (enc_list (concat (block_items C b))) block_new =
    Inr (b\<lparr>m_blockHeader := (m_blockHeader b)\<lparr>m_hash := sha3 C (header_bytes (m_blockHeader b))\<rparr>,
           m_txsCache := [], m_tReceiptsCache := [], m_transRootCache := hash_zero 32, m_receiptRootCache := hash_zero 32\<rparr>)"
proof -
  let ?h = "m_blockHeader b"
  define d where "d = enc_list (concat (block_items C b))"
  define T where "T = enc_list (concat (map tx_bytes (m_transactions b)))"
  define R where "R = enc_list (concat (map receipt_bytes (m_transactionReceipts b)))"
  define S where "S = enc_list (concat (map sig_enc (m_sigList b)))"
  note parts = block_parts [OF assms(1)] and items = block_items_ok [OF assms]
  have ok: "rlp_size_ok (length (concat (block_items C b)))" using assms(1) by (simp add: block_wf_def)
  have f: "rlp_at d 0 = Inr (header_bytes ?h)" "rlp_at d 1 = Inr T" "rlp_at d 2 = Inr R"
    "rlp_at d 3 = Inr (enc_data (sha3 C (header_bytes ?h)))" "rlp_at d 4 = Inr S"
    unfolding d_def by (simp_all add: rlp_at_enc_list [OF items ok]) (simp_all add: block_items_def T_def R_def S_def)
  have d: "rlp_open d VeryStrict = Inr d" "isList d" using ok by (simp_all add: d_def rlp_item_open enc_list_reads0)
  have "isList T" unfolding T_def using parts(1) by (rule enc_list_reads0)
  then have ext: "extractBlock d = Inr d"
    using d f parts(6) by (simp add: extractBlock_def del: VeryStrict_def One_nat_def)
  have hp: "header_populate (header_bytes ?h) header_new = Inr (?h\<lparr>m_hash := hash_zero 32\<rparr>)"
    using header_populate_items [of ?h header_new] assms(1) by (simp add: header_bytes_def block_wf_def header_new_def)
  have hh: "header_hash C (?h\<lparr>m_hash := hash_zero 32\<rparr>) = Inr (sha3 C (header_bytes ?h), ?h\<lparr>m_hash := sha3 C (header_bytes ?h)\<rparr>)"
    using parts(4) by (simp add: header_hash_def Let_def)
  have "list_all rlp_item (map tx_bytes (m_transactions b))"
    using parts(7) tx_canonical_codec(3) by (auto simp: list_all_iff)
  note txs = decode_list_items [OF this parts(1), of "tx_decode C CheckAll" transaction_null,
      OF tx_canonical_codec(2) [OF parts(7)], folded T_def]
  have "list_all rlp_item (map receipt_bytes (m_transactionReceipts b))"
    using parts(8) by (auto simp: list_all_iff receipt_bytes_def receipt_wf_def)
  note rcs = decode_list_items [OF this parts(2), of receipt_decode receipt_new,
      OF receipt_decode_items [folded receipt_bytes_def, OF parts(8) [THEN conjunct1]], folded R_def]
  have "list_all rlp_item (map sig_enc (m_sigList b))" using parts(9) by (auto simp: list_all_iff sig_codec)
  moreover have "mapE (sig_of_rlp LaissezFaire) (map sig_enc (m_sigList b)) = Inr (m_sigList b)"
    using parts(9) by (intro mapE_map_inverse sig_codec) auto
  ultimately have sigs: "rlp_toVector sig_of_rlp LaissezFaire S = Inr (m_sigList b)"
    unfolding S_def using parts(3)
    by (simp add: rlp_toVector_def enc_list_reads0 itemCount_enc_list rlp_each_enc_list del: LaissezFaire_def)
  have hs: "toHash 32 Strict (enc_data (sha3 C (header_bytes ?h))) = Inr (sha3 C (header_bytes ?h))"
    using assms(2) by (intro toHash_enc_data) (simp_all add: rlp_size_ok_def)
  have bn: "m_transactions block_new = []" "m_transactionReceipts block_new = []" "m_blockHeader block_new = header_new"
    by (simp_all add: block_new_def)
  have "block_decode C d block_new = Inr (noteChange (block_new\<lparr>m_blockHeader := ?h\<lparr>m_hash := sha3 C (header_bytes ?h)\<rparr>,
      m_transactions := m_transactions b, m_transactionReceipts := m_transactionReceipts b, m_sigList := m_sigList b\<rparr>))"
    by (simp del: Strict_def LaissezFaire_def One_nat_def
         add: block_decode_def ext f hp hh txs rcs sigs hs bn resize_def)
  moreover have "noteChange (block_new\<lparr>m_blockHeader := h', m_transactions := m_transactions b,
      m_transactionReceipts := m_transactionReceipts b, m_sigList := m_sigList b\<rparr>)
    = b\<lparr>m_blockHeader := h', m_txsCache := [], m_tReceiptsCache := [], m_transRootCache := hash_zero 32,
        m_receiptRootCache := hash_zero 32\<rparr>" for h'
    by (cases b) (simp add: noteChange_def block_new_def)
  ultimately have "block_decode C d block_new = Inr (b\<lparr>m_blockHeader := ?h\<lparr>m_hash := sha3 C (header_bytes ?h)\<rparr>,
           m_txsCache := [], m_tReceiptsCache := [], m_transRootCache := hash_zero 32, m_receiptRootCache := hash_zero 32\<rparr>)" by simp
  then show ?thesis by (simp add: d_def)
qed

section \<open>Properties of headers and blocks\<close>

text \<open>
  A block header survives the wire: for fields in the range of their types, encoding succeeds
  and decoding into any header object gives the twelve fields back; only the object's memoised
  hash is left as it was.
\<close>

theorem header_roundtrip:
  assumes "header_wf h"
  shows "\<exists>out. header_encode h = Inr out \<and> header_decode out h0 = Inr (h\<lparr>m_hash := m_hash h0\<rparr>)"
  using header_encode_items [OF assms] header_populate_items [OF assms, of h0] assms
  by (simp add: header_decode_def rlp_item_open header_wf_def)

definition toy_header :: header where
  "toy_header = header_new\<lparr>m_number := 7, m_timestamp := 1000, m_gasLimit := 500, m_gasUsed := 21,
     m_extraData := [[1, 2], []], m_sealer := 2, m_sealerList := [hash_of_nat 64 11]\<rparr>"

lemma toy_header_wf: "header_wf toy_header"
  by (simp add: toy_header_def header_new_def header_wf_def INT64_MAX_def UINT64_MAX_def u256_def header_items_def
      enc_data_def enc_list_def enc_int_def length_rlp_header rlp_size_ok_def bytesRequired_pos)

theorem header_roundtrip_witness:
  "\<exists>out. header_encode toy_header = Inr out \<and> header_decode out header_new = Inr (toy_header\<lparr>m_hash := m_hash header_new\<rparr>)"
  by (rule header_roundtrip) (rule toy_header_wf)

text \<open>The mutators of a header as commands, \<open>hash()\<close> included since it fills the memo.\<close>

datatype header_op =
    SetParentHash bytes | SetRoots bytes bytes bytes | SetLogBloom bytes | SetNumber int | SetGasLimit nat
  | SetGasUsed nat | AppendExtraDataArray bytes | SetExtraDataAt bytes nat | SetExtraData "bytes list"
  | SetTimestamp nat | SetSealer nat | SetSealerList "bytes list" | SetStateRoot bytes
  | SetTransactionsRoot bytes | SetReceiptsRoot bytes | PopulateFromParent header | Clear | Hash

fun header_apply :: "crypto \<Rightarrow> header_op \<Rightarrow> header \<Rightarrow> header" where
  "header_apply C (SetParentHash x) h = setParentHash x h"
| "header_apply C (SetRoots a b c) h = setRoots a b c h"
| "header_apply C (SetLogBloom x) h = setLogBloom x h"
| "header_apply C (SetNumber x) h = setNumber x h"
| "header_apply C (SetGasLimit x) h = setGasLimit x h"
| "header_apply C (SetGasUsed x) h = setGasUsed x h"
| "header_apply C (AppendExtraDataArray x) h = appendExtraDataArray x h"
| "header_apply C (SetExtraDataAt x i) h = snd (setExtraData_at x i h)"
| "header_apply C (SetExtraData x) h = setExtraData x h"
| "header_apply C (SetTimestamp x) h = setTimestamp x h"
| "header_apply C (SetSealer x) h = setSealer x h"
| "header_apply C (SetSealerList x) h = setSealerList x h"
| "header_apply C (SetStateRoot x) h = setStateRoot x h"
| "header_apply C (SetTransactionsRoot x) h = setTransactionsRoot x h"
| "header_apply C (SetReceiptsRoot x) h = setReceiptsRoot x h"
| "header_apply C (PopulateFromParent p) h = populateFromParent C p h"
| "header_apply C Clear h = header_clear C h"
| "header_apply C Hash h = (case header_hash C h of Inl _ \<Rightarrow> h | Inr (_, h') \<Rightarrow> h')"

lemma memo_ok_hash: "memo_ok C h \<Longrightarrow> header_hash C h = Inr (v, h') \<Longrightarrow> memo_ok C h'"
  by (auto simp: header_hash_def memo_ok_def bindE_eq_Inr Let_def split: if_splits)

text \<open>A copy has every field of the source, and its memoised hash is the source's hash.\<close>

lemma header_copy_spec:
  "header_hash C h = Inr (v, h') \<Longrightarrow> header_copy C h = Inr (h\<lparr>m_hash := v\<rparr>, h\<lparr>m_hash := v\<rparr>)"
  by (cases h) (auto simp: header_copy_def header_hash_def header_eq_def bindE_eq_Inr Let_def split: if_splits)

lemma header_hash_memo: "header_hash C h = Inr (v, h') \<Longrightarrow> h' = h\<lparr>m_hash := v\<rparr>"
  by (cases h) (auto simp: header_hash_def bindE_eq_Inr Let_def split: if_splits)

lemma memo_ok_copy:
  assumes "memo_ok C h" "header_copy C h = Inr (c, h')"
  shows "memo_ok C c \<and> c = h'"
proof -
  obtain v k where hash: "header_hash C h = Inr (v, k)" using assms(2) by (auto simp: header_copy_def bindE_eq_Inr)
  then have "c = h\<lparr>m_hash := v\<rparr>" "h' = h\<lparr>m_hash := v\<rparr>" using assms(2) header_copy_spec [OF hash] by auto
  then show ?thesis using memo_ok_hash [OF assms(1) hash] header_hash_memo [OF hash] by simp
qed

lemma memo_ok_apply: "memo_ok C h \<Longrightarrow> memo_ok C (header_apply C op h)"
proof (cases op)
  case Hash
  assume "memo_ok C h"
  with Hash show ?thesis by (auto split: sum.splits dest: memo_ok_hash)
qed (auto simp: setter_defs setExtraData_at_def populateFromParent_def header_clear_def Let_def)

text \<open>
  C32. The memoised hash never goes stale under the setters: after any sequence of setters,
  \<open>populateFromParent\<close>, \<open>clear\<close> and calls of \<open>hash()\<close> on a fresh header, in any order, \<open>hash()\<close>
  returns the hash of the encoding of the current fields.
\<close>

theorem header_hash_current:
  assumes "h = fold (header_apply C) ops header_new" "header_encode h = Inr bs"
  shows "hashOf C h = sha3 C bs"
proof -
  have "memo_ok C g \<Longrightarrow> memo_ok C (fold (header_apply C) ops g)" for g
    by (induction ops arbitrary: g) (auto intro: memo_ok_apply)
  moreover have "memo_ok C header_new" by (simp add: memo_ok_def header_new_def)
  ultimately have "memo_ok C h" using assms(1) by blast
  then show ?thesis using assms(2) by (rule hashOf_memo_ok)
qed

lemma header_wf_simple:
  "header_wf (fold (header_apply C) [SetNumber 3, Hash, SetSealer 1, SetTimestamp 9] header_new)"
proof -
  let ?h = "header_apply C Hash (setNumber 3 header_new)"
  have "?h\<lparr>m_hash := hash_zero 32\<rparr> = header_new\<lparr>m_number := 3\<rparr>"
    by (auto simp: setter_defs noteDirty_def header_hash_def header_new_def bindE_def Let_def split: sum.splits)
  then have "setTimestamp 9 (setSealer 1 ?h) = header_new\<lparr>m_number := 3, m_sealer := 1, m_timestamp := 9\<rparr>"
    by (cases ?h) (simp add: setter_defs noteDirty_def header_new_def)
  moreover have "header_wf (header_new\<lparr>m_number := 3, m_sealer := 1, m_timestamp := 9\<rparr>)"
    by (simp add: header_new_def header_wf_def INT64_MAX_def u256_def header_items_def
      enc_data_def enc_list_def enc_int_def length_rlp_header rlp_size_ok_def bytesRequired_pos)
  ultimately show ?thesis by simp
qed

theorem header_hash_current_witness:
  "\<exists>bs. header_encode (fold (header_apply toy_crypto) [SetNumber 3, Hash, SetSealer 1, SetTimestamp 9] header_new) = Inr bs \<and>
    hashOf toy_crypto (fold (header_apply toy_crypto) [SetNumber 3, Hash, SetSealer 1, SetTimestamp 9] header_new) = sha3 toy_crypto bs"
  using header_hash_current [OF refl, of toy_crypto "[SetNumber 3, Hash, SetSealer 1, SetTimestamp 9]"]
    header_encode_items [OF header_wf_simple] by blast

text \<open>
  C35. \<open>appendExtraDataItem\<close> is the exception: it replaces an item of the extra data without
  marking the header dirty, so once \<open>hash()\<close> has been called the header keeps reporting the
  old hash whatever the new content is.
\<close>

theorem appendExtraDataItem_keeps_hash:
  assumes "header_hash C h = Inr (v, h1)" "v \<noteq> hash_zero 32" "i < length (m_extraData h)"
  shows "fst (appendExtraDataItem x i h1) \<and> m_extraData (snd (appendExtraDataItem x i h1)) = (m_extraData h)[i := x]
    \<and> hashOf C (snd (appendExtraDataItem x i h1)) = v"
proof -
  have "m_hash h1 = v \<and> m_extraData h1 = m_extraData h"
    using assms(1,2) by (auto simp: header_hash_def bindE_eq_Inr Let_def split: if_splits)
  then show ?thesis
    using assms by (simp add: appendExtraDataItem_def hashOf_def header_hash_def)
qed

lemma toy_sha3_length [simp]: "length (sha3 toy_crypto x) = 32"
  by (simp add: toy_crypto_def)

lemma toy_header_hash:
  "header_hash toy_crypto toy_header = Inr (sha3 toy_crypto (header_bytes toy_header), toy_header\<lparr>m_hash := sha3 toy_crypto (header_bytes toy_header)\<rparr>)"
  using header_encode_items [OF toy_header_wf]
  by (simp add: header_hash_def header_bytes_def toy_header_def header_new_def Let_def)

lemma hash_of_nat_nonzero:
  assumes "0 < n" "n < 256 ^ N"
  shows "hash_of_nat N n \<noteq> hash_zero N"
proof
  assume "hash_of_nat N n = hash_zero N"
  moreover have "toBigEndian N 0 = hash_zero N"
    by (induction N) (simp_all add: hash_zero_def replicate_append_same)
  ultimately have "fromBigEndian (toBigEndian N n) = fromBigEndian (toBigEndian N 0)" by (simp add: hash_of_nat_def)
  with assms show False by (simp add: fromBigEndian_toBigEndian)
qed

lemma toy_header_bytes_length: "length (header_bytes toy_header) < 1000"
  by (simp add: header_bytes_def header_items_def toy_header_def header_new_def
      enc_data_def enc_list_def enc_int_def length_rlp_header bytesRequired_pos)

theorem appendExtraDataItem_keeps_hash_witness:
  "\<exists>v h1. header_hash toy_crypto toy_header = Inr (v, h1) \<and>
     m_extraData (snd (appendExtraDataItem [9] 0 h1)) = [[9], []] \<and>
     hashOf toy_crypto (snd (appendExtraDataItem [9] 0 h1)) = v"
proof -
  let ?v = "sha3 toy_crypto (header_bytes toy_header)"
  have "?v \<noteq> hash_zero 32"
    using toy_header_bytes_length by (simp add: toy_crypto_def hash_of_nat_nonzero)
  moreover have "0 < length (m_extraData toy_header)" "m_extraData toy_header = [[1, 2], []]"
    by (simp_all add: toy_header_def)
  ultimately show ?thesis
    using appendExtraDataItem_keeps_hash [OF toy_header_hash, of 0 "[9]"] toy_header_hash by auto
qed

text \<open>
  C16. A block survives the wire: a block whose header, transactions, receipts and signature list
  are in the range of their types is encoded successfully, and decoding the bytes into a fresh
  block, which recovers every sender and checks the header hash, gives the same block with the
  header's hash memoised and the encoding caches empty. The hash function is only assumed to return 32 bytes.
\<close>

theorem block_roundtrip:
  assumes "block_wf C b" "\<And>x. length (sha3 C x) = 32"
  shows "\<exists>out b'. block_encode C b = Inr (out, b') \<and>
    block_decode C out block_new =
      Inr (b\<lparr>m_blockHeader := (m_blockHeader b)\<lparr>m_hash := sha3 C (header_bytes (m_blockHeader b))\<rparr>,
             m_txsCache := [], m_tReceiptsCache := [], m_transRootCache := hash_zero 32, m_receiptRootCache := hash_zero 32\<rparr>)"
  using block_encode_items [OF assms] block_decode_items [OF assms] by blast

definition toy_block :: block where
  "toy_block = block_new\<lparr>m_blockHeader := toy_header, m_transactions := [toy_tx\<lparr>m_sender := right160 (hash_of_nat 32 65)\<rparr>],
     m_transactionReceipts := [toy_receipt], m_sigList := [(2, hash_of_nat 65 3)]\<rparr>"

lemma toy_tx_canonical: "tx_canonical toy_crypto (toy_tx\<lparr>m_sender := right160 (hash_of_nat 32 65)\<rparr>)"
proof -
  let ?t = "toy_tx\<lparr>m_sender := hash_zero 20\<rparr>"
  have wf: "tx_wf toy_tx"
    by (simp add: toy_tx_def transaction_null_def tx_wf_def u256_def sig_wf_def SignatureStruct_def)
  then have "tx_wf ?t" by (simp add: tx_wf_def)
  then have enc: "tx_encode ?t False = Inr (enc_list (concat (tx_items ?t)))" by (rule tx_encode_unsigned)
  have "hash_bool (hash_of_nat 64 5)" by (simp add: hash_bool_def hash_eval)
  then have "tx_sender toy_crypto ?t = Inr (right160 (hash_of_nat 32 65), ?t\<lparr>m_sender := right160 (hash_of_nat 32 65)\<rparr>)"
    using enc by (simp add: tx_sender_def tx_sha3_def toy_crypto_def Let_def toy_tx_def)
  moreover have "sig_isValid (SignatureStruct 4 5 1)"
    by (simp add: sig_isValid_def SignatureStruct_def hash_eval)
  ultimately show ?thesis
    using wf by (simp add: tx_canonical_def tx_wf_def) (simp add: toy_tx_def transaction_null_def)
qed

lemma toy_receipt_wf: "receipt_wf toy_receipt"
  by (simp add: receipt_wf_def toy_receipt_def receipt_new_def u256_def log_wf_def receipt_items_def log_enc_def
      enc_data_def enc_list_def enc_int_def length_rlp_header rlp_size_ok_def bytesRequired_pos)

lemma toy_block_wf: "block_wf toy_crypto toy_block"
proof -
  have t: "length (tx_bytes (toy_tx\<lparr>m_sender := right160 (hash_of_nat 32 65)\<rparr>)) \<le> 2 ^ 34"
    using tx_canonical_codec(4) [OF toy_tx_canonical] .
  have r: "length (receipt_bytes toy_receipt) \<le> 1000"
    by (simp add: receipt_bytes_def toy_receipt_def receipt_new_def receipt_items_def log_enc_def
      enc_data_def enc_list_def enc_int_def length_rlp_header bytesRequired_pos)
  have s: "length (sig_enc (2, hash_of_nat 65 3)) \<le> 1000"
    by (simp add: sig_enc_def enc_data_def enc_list_def enc_int_def length_rlp_header bytesRequired_pos)
  have lt: "length (enc_list (tx_bytes (toy_tx\<lparr>m_sender := right160 (hash_of_nat 32 65)\<rparr>))) \<le> 2 ^ 34 + 9"
    using length_enc_list_le [of "tx_bytes (toy_tx\<lparr>m_sender := right160 (hash_of_nat 32 65)\<rparr>)"] t by (simp add: rlp_size_ok_def)
  have lr: "length (enc_list (receipt_bytes toy_receipt)) \<le> 1009"
    using length_enc_list_le [of "receipt_bytes toy_receipt"] r by (simp add: rlp_size_ok_def)
  have ls: "length (enc_list (sig_enc (2, hash_of_nat 65 3))) \<le> 1009"
    using length_enc_list_le [of "sig_enc (2, hash_of_nat 65 3)"] s by (simp add: rlp_size_ok_def)
  have lh: "length (enc_data (sha3 toy_crypto (header_bytes toy_header))) \<le> 41"
    using length_enc_data_le [of "sha3 toy_crypto (header_bytes toy_header)"] by (simp add: rlp_size_ok_def)
  have "rlp_size_ok (length (concat (block_items toy_crypto toy_block)))"
    using lt lr ls lh toy_header_bytes_length by (simp add: block_items_def toy_block_def rlp_size_ok_def)
  moreover have "memo_ok toy_crypto toy_header" by (simp add: memo_ok_def toy_header_def header_new_def)
  moreover have "m_number toy_header < INT64_MAX" "m_gasUsed toy_header \<le> m_gasLimit toy_header"
    by (simp_all add: toy_header_def INT64_MAX_def)
  ultimately show ?thesis
    using toy_header_wf toy_tx_canonical toy_receipt_wf r
    by (simp add: block_wf_def toy_block_def block_new_def sigpair_wf_def u256_def)
qed

theorem block_roundtrip_witness:
  "\<exists>out b'. block_encode toy_crypto toy_block = Inr (out, b') \<and>
    block_decode toy_crypto out block_new =
      Inr (toy_block\<lparr>m_blockHeader := (m_blockHeader toy_block)\<lparr>m_hash := sha3 toy_crypto (header_bytes (m_blockHeader toy_block))\<rparr>,
             m_txsCache := [], m_tReceiptsCache := [], m_transRootCache := hash_zero 32, m_receiptRootCache := hash_zero 32\<rparr>)"
  by (rule block_roundtrip [OF toy_block_wf]) simp

lemma length_enc_data_32: "length x = 32 \<Longrightarrow> length (enc_data x) = 33"
  by (simp add: enc_data_def length_rlp_header)

lemma setTransactionsRoot_wf:
  assumes "block_wf C b" "length root = 32" "\<And>x. length (sha3 C x) = 32"
  shows "block_wf C (b\<lparr>m_blockHeader := setTransactionsRoot root (m_blockHeader b),
    m_txsCache := enc_list (concat (map tx_bytes (m_transactions b))), m_transRootCache := root\<rparr>)"
proof -
  let ?h = "m_blockHeader b" and ?h' = "setTransactionsRoot root (m_blockHeader b)"
  have wf: "header_wf ?h" using assms(1) by (simp add: block_wf_def)
  then have "length (m_transactionsRoot ?h) = 32" by (simp add: header_wf_def)
  then have len: "length (concat (header_items ?h')) = length (concat (header_items ?h))"
    using assms(2) by (simp add: header_items_def setTransactionsRoot_def noteDirty_def length_enc_data_32)
  then have wf': "header_wf ?h'"
    using wf assms(2) by (simp add: header_wf_def) (simp add: setTransactionsRoot_def noteDirty_def)
  have "length (header_bytes ?h') = length (header_bytes ?h)"
    using len by (simp add: header_bytes_def enc_list_def length_rlp_header)
  then have "length (concat (block_items C (b\<lparr>m_blockHeader := ?h',
    m_txsCache := enc_list (concat (map tx_bytes (m_transactions b))), m_transRootCache := root\<rparr>))) = length (concat (block_items C b))"
    using assms(3) by (simp add: block_items_def length_enc_data_32)
  with assms(1) wf' show ?thesis
    by (simp add: block_wf_def) (simp add: setTransactionsRoot_def noteDirty_def memo_ok_def)
qed

text \<open>
  C31. The transaction root that the sealer computes is the one the verifier checks: for a
  well-formed block, \<open>calTransactionRoot(true)\<close> succeeds, the updated block is encoded successfully
  and \<open>BlockHeader::verify\<close>, which recomputes the root from the transaction items of the encoded
  block, accepts the root in the header.
\<close>

theorem block_txroot_verifies:
  assumes "block_wf C b" "m_txsCache b = []" "\<And>x. length (sha3 C x) = 32"
  shows "\<exists>b1 out b2. calTransactionRoot C True b = Inr b1 \<and> block_encode C b1 = Inr (out, b2) \<and>
    verify_txRoot C out (m_blockHeader b1) = Inr ()"
proof -
  define T where "T = enc_list (concat (map tx_bytes (m_transactions b)))"
  obtain root where root: "cal_root C (\<lambda>t. tx_encode t True) (m_transactions b) = Inr (T, root)"
      "orderedTrieRoot (sha3 C) (map tx_bytes (m_transactions b)) = Inr root" "length root = 32"
    unfolding T_def using assms(1,3) by (rule block_tx_root)
  define b1 where "b1 = b\<lparr>m_blockHeader := setTransactionsRoot root (m_blockHeader b), m_txsCache := T, m_transRootCache := root\<rparr>"
  have cal: "calTransactionRoot C True b = Inr b1"
    using assms(2) root(1) by (simp add: calTransactionRoot_def b1_def)
  have wf: "block_wf C b1"
    unfolding b1_def T_def using assms(1) root(3) assms(3) by (rule setTransactionsRoot_wf)
  let ?out = "enc_list (concat (block_items C b1))"
  obtain b2 where enc: "block_encode C b1 = Inr (?out, b2)"
    using block_encode_items [OF wf assms(3)] by blast
  note parts = block_parts [OF wf] and items = block_items_ok [OF wf assms(3)]
  have ok: "rlp_size_ok (length (concat (block_items C b1)))" using wf by (simp add: block_wf_def)
  have T: "rlp_at ?out 1 = Inr T"
    by (simp add: rlp_at_enc_list [OF items ok]) (simp add: block_items_def b1_def T_def)
  have "list_all rlp_item (map tx_bytes (m_transactions b))"
    using block_parts(7) [OF assms(1)] tx_canonical_codec(3) by (auto simp: list_all_iff)
  note it = this block_parts(1) [OF assms(1)]
  have cnt: "itemCount T = Inr (length (m_transactions b))"
    using itemCount_enc_list [OF it] by (simp add: T_def)
  have "mapE (rlp_at T) [0..<length (m_transactions b)] = Inr (map (\<lambda>i. tx_bytes (m_transactions b ! i)) [0..<length (m_transactions b)])"
    by (rule mapE_Inr) (simp add: T_def rlp_at_enc_list [OF it])
  then have ds: "mapE (rlp_at T) [0..<length (m_transactions b)] = Inr (map tx_bytes (m_transactions b))"
    by (simp add: map_equality_iff)
  have "m_transactionsRoot (m_blockHeader b1) = root"
    by (simp add: b1_def setTransactionsRoot_def noteDirty_def)
  then have "verify_txRoot C ?out (m_blockHeader b1) = Inr ()"
    using T cnt ds root(2) ok
    by (simp add: verify_txRoot_def rlp_item_open [OF rlp_item_enc_list])
  with cal enc show ?thesis by blast
qed

theorem block_txroot_verifies_witness:
  "\<exists>b1 out b2. calTransactionRoot toy_crypto True toy_block = Inr b1 \<and> block_encode toy_crypto b1 = Inr (out, b2) \<and>
    verify_txRoot toy_crypto out (m_blockHeader b1) = Inr ()"
  by (rule block_txroot_verifies [OF toy_block_wf]) (simp_all add: toy_block_def block_new_def)

text \<open>
  A header made with \<open>populateFromParent\<close> and then given a later timestamp passes
  \<open>BlockHeader::verify\<close> against that parent, at every strictness, as long as the parent's number
  leaves room for a successor.
\<close>

theorem populateFromParent_verifies:
  assumes "0 \<le> m_number parent" "m_number parent + 1 < INT64_MAX" "m_timestamp parent < ts"
  shows "header_verify C s parent [] (setTimestamp ts (populateFromParent C parent h)) = Inr ()"
  using assms
  by (simp add: header_verify_def populateFromParent_def setTimestamp_def noteDirty_def hashOf_def header_hash_def)

theorem populateFromParent_verifies_witness:
  "header_verify toy_crypto CheckEverything toy_header [] (setTimestamp 1001 (populateFromParent toy_crypto toy_header header_new)) = Inr ()"
  by (rule populateFromParent_verifies) (simp_all add: toy_header_def INT64_MAX_def)

end
