(* ===== verification/PBFTMsg.thy ===== *)
theory PBFTMsg
  imports Block
begin

text \<open>
  The messages of the PBFT protocol and their wire format: \<open>libconsensus/Common.h\<close> and
  \<open>libconsensus/pbft/Common.h\<close>. A message is encoded as a list of one string that holds the
  concatenated fields; the decoder indexes that string.
\<close>

section \<open>Types and constants\<close>

definition MAXIDX :: nat where "MAXIDX = 2 ^ 16 - 1"

definition MAXVIEW :: int where "MAXVIEW = 2 ^ 63 - 1"

definition MAXTTL :: nat where "MAXTTL = 2"

definition PrepareReqPacket :: nat where "PrepareReqPacket = 0"
definition SignReqPacket :: nat where "SignReqPacket = 1"
definition CommitReqPacket :: nat where "CommitReqPacket = 2"
definition ViewChangeReqPacket :: nat where "ViewChangeReqPacket = 3"

lemmas packet_types = PrepareReqPacket_def SignReqPacket_def CommitReqPacket_def ViewChangeReqPacket_def

section \<open>The packet around a message\<close>

record pbft_packet =
  node_idx :: nat
  node_id :: bytes
  packet_id :: nat
  ttl :: nat
  pkt_data :: bytes
  pkt_timestamp :: nat
  endpoint :: string

definition PBFTMsgPacket :: "nat \<Rightarrow> pbft_packet" where
  "PBFTMsgPacket now = \<lparr>node_idx = 0, node_id = hash_zero 64, packet_id = 0, ttl = MAXTTL, pkt_data = [],
     pkt_timestamp = now, endpoint = []\<rparr>"

definition pbft_wrap :: "(rlpstream \<Rightarrow> rlp_error + rlpstream) list \<Rightarrow> rlp_error + bytes" where
  "pbft_wrap fs =
     bindE (append_all (\<lambda>f. f) fs rlpstream_new) (\<lambda>tmp.
     bindE (rlp_out tmp) (\<lambda>out.
     bindE (appendList 1 rlpstream_new) (\<lambda>l.
     bindE (append_data out False l) rlp_out)))"

definition packet_encode :: "pbft_packet \<Rightarrow> rlp_error + bytes" where
  "packet_encode p =
     pbft_wrap [append_unsigned (int (packet_id p)), append_unsigned (int (ttl p)), append_data (pkt_data p) False]"

definition packet_decode :: "bytes \<Rightarrow> pbft_packet \<Rightarrow> rlp_error + pbft_packet" where
  "packet_decode bs p =
     bindE (rlp_open bs VeryStrict) (\<lambda>d.
     bindE (rlp_at d 0) (\<lambda>r.
     bindE (bindE (rlp_at r 0) (toInt 8 Strict)) (\<lambda>pid.
     bindE (bindE (rlp_at r 1) (toInt 8 Strict)) (\<lambda>t.
     bindE (bindE (rlp_at r 2) (toBytes LaissezFaire)) (\<lambda>dat.
     Inr (p\<lparr>packet_id := pid, ttl := t, pkt_data := dat\<rparr>))))))"

definition setOtherField :: "nat \<Rightarrow> nat \<Rightarrow> bytes \<Rightarrow> string \<Rightarrow> pbft_packet \<Rightarrow> pbft_packet" where
  "setOtherField now idx nodeId ep p =
     p\<lparr>node_idx := idx, node_id := nodeId, endpoint := ep, pkt_timestamp := now\<rparr>"

section \<open>The messages\<close>

record pbftmsg =
  height :: int
  view :: int
  idx :: nat
  timestamp :: nat
  block_hash :: bytes
  sig :: bytes
  sig2 :: bytes

text \<open>A prepare request carries the block and the execution context, an opaque handle.\<close>

record prepare_req = pbftmsg +
  block_data :: bytes
  p_execContext :: "nat option"

definition pbftmsg_new :: pbftmsg where
  "pbftmsg_new = \<lparr>height = -1, view = MAXVIEW, idx = MAXIDX, timestamp = Invalid256,
     block_hash = hash_zero 32, sig = hash_zero 65, sig2 = hash_zero 65\<rparr>"

definition prepare_new :: prepare_req where
  "prepare_new = \<lparr>height = -1, view = MAXVIEW, idx = MAXIDX, timestamp = Invalid256,
     block_hash = hash_zero 32, sig = hash_zero 65, sig2 = hash_zero 65, block_data = [], p_execContext = None\<rparr>"

text \<open>\<open>clear\<close> of the base class: the fields of a derived message stay.\<close>

definition msg_clear :: "'a pbftmsg_scheme \<Rightarrow> 'a pbftmsg_scheme" where
  "msg_clear m = m\<lparr>height := -1, view := MAXVIEW, idx := MAXIDX, timestamp := Invalid256,
     block_hash := hash_zero 32, sig := hash_zero 65, sig2 := hash_zero 65\<rparr>"

definition fieldsWithoutBlock :: "crypto \<Rightarrow> 'a pbftmsg_scheme \<Rightarrow> rlp_error + bytes" where
  "fieldsWithoutBlock C m =
     bindE (append_all (\<lambda>f. f) [append_unsigned (height m), append_unsigned (view m), append_unsigned (int (idx m)),
       append_bigint (timestamp m)] rlpstream_new) (\<lambda>ts. bindE (rlp_out ts) (\<lambda>out. Inr (sha3 C out)))"

text \<open>The value alone; the four integers always fit the stream.\<close>

definition fieldsHash :: "crypto \<Rightarrow> 'a pbftmsg_scheme \<Rightarrow> bytes" where
  "fieldsHash C m = (case fieldsWithoutBlock C m of Inl _ \<Rightarrow> hash_zero 32 | Inr h \<Rightarrow> h)"

definition uniqueKey :: "'a pbftmsg_scheme \<Rightarrow> string" where
  "uniqueKey m = toHex (sig m) @ toHex (sig2 m)"

text \<open>The constructors sign the block hash and the other fields with the node's key.\<close>

definition sign_msg :: "crypto \<Rightarrow> bytes \<Rightarrow> 'a pbftmsg_scheme \<Rightarrow> 'a pbftmsg_scheme" where
  "sign_msg C key m = m\<lparr>sig := sign C key (block_hash m), sig2 := sign C key (fieldsHash C m)\<rparr>"

definition PBFTMsg :: "crypto \<Rightarrow> bytes \<Rightarrow> nat \<Rightarrow> int \<Rightarrow> int \<Rightarrow> nat \<Rightarrow> bytes \<Rightarrow> pbftmsg" where
  "PBFTMsg C key now h v i bh =
     sign_msg C key (pbftmsg_new\<lparr>height := h, view := v, idx := i, timestamp := now, block_hash := bh\<rparr>)"

definition PrepareReq_rehandle :: "crypto \<Rightarrow> bytes \<Rightarrow> nat \<Rightarrow> prepare_req \<Rightarrow> int \<Rightarrow> nat \<Rightarrow> prepare_req" where
  "PrepareReq_rehandle C key now req v i =
     sign_msg C key (prepare_new\<lparr>height := height req, view := v, idx := i, timestamp := now,
       block_hash := block_hash req, block_data := block_data req\<rparr>)"

definition PrepareReq_of_block :: "crypto \<Rightarrow> bytes \<Rightarrow> nat \<Rightarrow> block \<Rightarrow> int \<Rightarrow> nat \<Rightarrow> eth_error + prepare_req" where
  "PrepareReq_of_block C key now b v i =
     bindE (block_encode C b) (\<lambda>(bs, _).
       Inr (sign_msg C key (prepare_new\<lparr>height := m_number (m_blockHeader b), view := v, idx := i, timestamp := now,
         block_hash := hashOf C (m_blockHeader b), block_data := bs\<rparr>)))"

definition PrepareReq_sealed :: "crypto \<Rightarrow> bytes \<Rightarrow> nat \<Rightarrow> prepare_req \<Rightarrow> block \<Rightarrow> nat option \<Rightarrow> eth_error + prepare_req" where
  "PrepareReq_sealed C key now req b ctx =
     bindE (block_encode C b) (\<lambda>(bs, _).
       Inr (sign_msg C key (prepare_new\<lparr>height := height req, view := view req, idx := idx req, p_execContext := ctx,
         block_data := bs, timestamp := now, block_hash := hashOf C (m_blockHeader b)\<rparr>)))"

text \<open>\<open>SignReq\<close> and \<open>CommitReq\<close> from a prepare request, \<open>ViewChangeReq\<close> from scratch.\<close>

definition SignReq :: "crypto \<Rightarrow> bytes \<Rightarrow> nat \<Rightarrow> prepare_req \<Rightarrow> nat \<Rightarrow> pbftmsg" where
  "SignReq C key now req i = PBFTMsg C key now (height req) (view req) i (block_hash req)"

definition CommitReq :: "crypto \<Rightarrow> bytes \<Rightarrow> nat \<Rightarrow> prepare_req \<Rightarrow> nat \<Rightarrow> pbftmsg" where
  "CommitReq C key now req i = PBFTMsg C key now (height req) (view req) i (block_hash req)"

definition ViewChangeReq :: "crypto \<Rightarrow> bytes \<Rightarrow> nat \<Rightarrow> int \<Rightarrow> int \<Rightarrow> nat \<Rightarrow> bytes \<Rightarrow> pbftmsg" where
  "ViewChangeReq C key now h v i bh = PBFTMsg C key now h v i bh"

subsection \<open>Wire format\<close>

definition msg_fields :: "'a pbftmsg_scheme \<Rightarrow> (rlpstream \<Rightarrow> rlp_error + rlpstream) list" where
  "msg_fields m =
     [append_unsigned (height m), append_unsigned (view m), append_unsigned (int (idx m)), append_bigint (timestamp m),
      append_hash (block_hash m) False False, append_data (sig m) False, append_data (sig2 m) False]"

definition msg_encode :: "'a pbftmsg_scheme \<Rightarrow> rlp_error + bytes" where
  "msg_encode m = pbft_wrap (msg_fields m)"

definition prepare_encode :: "prepare_req \<Rightarrow> rlp_error + bytes" where
  "prepare_encode m = pbft_wrap (msg_fields m @ [append_data (block_data m) False])"

definition msg_populate :: "bytes \<Rightarrow> 'a pbftmsg_scheme \<Rightarrow> rlp_error + 'a pbftmsg_scheme" where
  "msg_populate r m =
     bindE (bindE (rlp_at r 0) (toInt 64 Strict)) (\<lambda>h.
     bindE (bindE (rlp_at r 1) (toInt 64 Strict)) (\<lambda>v.
     bindE (bindE (rlp_at r 2) (toInt 16 Strict)) (\<lambda>i.
     bindE (bindE (rlp_at r 3) (toInt 256 Strict)) (\<lambda>t.
     bindE (bindE (rlp_at r 4) (toHash 32 VeryStrict)) (\<lambda>bh.
     bindE (bindE (rlp_at r 5) (toBytesConstRef LaissezFaire)) (\<lambda>s1.
     bindE (bindE (rlp_at r 6) (toBytesConstRef LaissezFaire)) (\<lambda>s2.
     Inr (m\<lparr>height := as_int64 h, view := as_int64 v, idx := i, timestamp := t, block_hash := bh,
       sig := hash_of_bytes 65 s1, sig2 := hash_of_bytes 65 s2\<rparr>))))))))"

definition msg_decode :: "bytes \<Rightarrow> 'a pbftmsg_scheme \<Rightarrow> rlp_error + 'a pbftmsg_scheme" where
  "msg_decode bs m = bindE (rlp_open bs VeryStrict) (\<lambda>d. bindE (rlp_at d 0) (\<lambda>r. msg_populate r m))"

definition prepare_decode :: "bytes \<Rightarrow> prepare_req \<Rightarrow> rlp_error + prepare_req" where
  "prepare_decode bs m =
     bindE (rlp_open bs VeryStrict) (\<lambda>d. bindE (rlp_at d 0) (\<lambda>r.
       bindE (msg_populate r m) (\<lambda>m1.
       bindE (bindE (rlp_at r 7) (toBytes LaissezFaire)) (\<lambda>b. Inr (m1\<lparr>block_data := b\<rparr>)))))"

text \<open>\<open>operator==\<close> ignores the sender's index.\<close>

definition msg_eq :: "'a pbftmsg_scheme \<Rightarrow> 'b pbftmsg_scheme \<Rightarrow> bool" where
  "msg_eq a b \<longleftrightarrow> height a = height b \<and> view a = view b \<and> timestamp a = timestamp b
     \<and> block_hash a = block_hash b \<and> sig a = sig b \<and> sig2 a = sig2 b"

section \<open>Round trips\<close>

lemma pbft_wrap_items:
  assumes "list_all2 emits fs es" "rlp_size_ok (length (concat es) + 9)"
  shows "pbft_wrap fs = Inr (enc_list (enc_data (concat es)))"
proof -
  have ok: "rlp_size_ok (length (concat es))" using assms(2) by (auto simp: rlp_size_ok_def)
  then have ok2: "rlp_size_ok (length (enc_data (concat es)))"
    using length_enc_data_le [OF ok] assms(2) by (auto simp: rlp_size_ok_def)
  have flat: "append_all (\<lambda>f. f) fs rlpstream_new = Inr \<lparr>m_out = concat es, m_listStack = []\<rparr>"
    using append_all_flat [OF assms(1), of "[]"] by (simp add: rlpstream_new_def)
  have "bindE (bindE (appendList 1 rlpstream_new) (append_all (\<lambda>f. f) [append_data (concat es) False])) rlp_out
      = Inr (enc_list (concat [enc_data (concat es)]))"
    using emits_append_data [OF ok] ok2 by (intro emits_list_out) simp_all
  then show ?thesis
    by (simp add: pbft_wrap_def flat rlp_out_def [of "\<lparr>m_out = concat es, m_listStack = []\<rparr>"] bindE_assoc)
qed

lemma pbft_unwrap_items:
  assumes "list_all rlp_item es" "rlp_size_ok (length (concat es) + 9)"
  shows "rlp_open (enc_list (enc_data (concat es))) VeryStrict = Inr (enc_list (enc_data (concat es)))"
    and "rlp_at (enc_list (enc_data (concat es))) 0 = Inr (enc_data (concat es))"
    and "rlp_at (enc_data (concat es)) i = Inr (if i < length es then es ! i else [])"
proof -
  have ok: "rlp_size_ok (length (concat es))" using assms(2) by (auto simp: rlp_size_ok_def)
  then have ok2: "rlp_size_ok (length (enc_data (concat es)))"
    using length_enc_data_le [OF ok] assms(2) by (auto simp: rlp_size_ok_def)
  then show "rlp_open (enc_list (enc_data (concat es))) VeryStrict = Inr (enc_list (enc_data (concat es)))"
    by (simp add: rlp_item_open)
  show "rlp_at (enc_list (enc_data (concat es))) 0 = Inr (enc_data (concat es))"
    using rlp_at_enc_list [of "[enc_data (concat es)]" 0] ok ok2 by simp
  show "rlp_at (enc_data (concat es)) i = Inr (if i < length es then es ! i else [])"
    using assms(1) ok by (intro rlp_at_payload) (simp_all add: enc_data_reads0)
qed

text \<open>The ranges of the fields' types.\<close>

definition msg_wf :: "'a pbftmsg_scheme \<Rightarrow> bool" where
  "msg_wf m \<longleftrightarrow> idx m < 2 ^ 16 \<and> u256 (timestamp m) \<and> length (block_hash m) = 32
     \<and> length (sig m) = 65 \<and> length (sig2 m) = 65"

definition msg_items :: "'a pbftmsg_scheme \<Rightarrow> bytes list" where
  "msg_items m =
     [enc_int (nat (height m mod 2 ^ 32)), enc_int (nat (view m mod 2 ^ 32)), enc_int (nat (int (idx m) mod 2 ^ 32)),
      enc_int (timestamp m), enc_data (block_hash m), enc_data (sig m), enc_data (sig2 m)]"

lemma mod32_range: "nat (i mod 2 ^ 32) < 2 ^ 32" "u256 (nat (i mod 2 ^ 32))"
proof -
  show "nat (i mod 2 ^ 32) < 2 ^ 32" by (simp add: nat_less_iff)
  then show "u256 (nat (i mod 2 ^ 32))" by (rule u256_less) simp
qed

lemma msg_items_emitted:
  assumes "msg_wf m"
  shows "list_all2 emits (msg_fields m) (msg_items m)" "list_all rlp_item (msg_items m)"
    and "length (concat (msg_items m)) \<le> 353"
proof -
  have sizes: "rlp_size_ok 32" "rlp_size_ok 65" by (simp_all add: rlp_size_ok_def)
  show "list_all2 emits (msg_fields m) (msg_items m)"
    using assms sizes emits_append_unsigned unfolding msg_fields_def msg_items_def
    by (simp add: msg_wf_def emits_append_u256 emits_append_hash emits_append_data del: power_numeral nat_mod_as_int)
  show "list_all rlp_item (msg_items m)"
    using assms sizes mod32_range unfolding msg_items_def msg_wf_def by (simp del: power_numeral)
  have "length (enc_int (nat (i mod 2 ^ 32))) \<le> 41" for i by (intro length_enc_int_le mod32_range)
  note this [of "height m"] this [of "view m"] this [of "int (idx m)"]
  moreover have "length (enc_int (timestamp m)) \<le> 41" using assms by (intro length_enc_int_le) (simp add: msg_wf_def)
  moreover have "length (enc_data (block_hash m)) \<le> 41" "length (enc_data (sig m)) \<le> 74" "length (enc_data (sig2 m)) \<le> 74"
    using assms sizes length_enc_data_le [of "block_hash m"] length_enc_data_le [of "sig m"] length_enc_data_le [of "sig2 m"]
    by (simp_all add: msg_wf_def)
  ultimately show "length (concat (msg_items m)) \<le> 353" unfolding msg_items_def by simp
qed

lemma as_int64_small: "n < 2 ^ 32 \<Longrightarrow> as_int64 n = int n"
  by (simp add: as_int64_def)

lemma toBytesConstRef_enc_data:
  "rlp_size_ok (length bs) \<Longrightarrow> toBytesConstRef flags (enc_data bs) = Inr bs"
  by (simp add: toBytesConstRef_def enc_data_reads0 cropped_def)

lemma msg_populate_items:
  assumes "msg_wf m" "\<And>i. i < 7 \<Longrightarrow> rlp_at r i = Inr (msg_items m ! i)"
  shows "msg_populate r m0 = Inr (m0\<lparr>height := height m mod 2 ^ 32, view := view m mod 2 ^ 32, idx := idx m,
    timestamp := timestamp m, block_hash := block_hash m, sig := sig m, sig2 := sig2 m\<rparr>)"
proof -
  have sizes: "rlp_size_ok 32" "rlp_size_ok 65" by (simp_all add: rlp_size_ok_def)
  have f: "rlp_at r 0 = Inr (enc_int (nat (height m mod 2 ^ 32)))" "rlp_at r 1 = Inr (enc_int (nat (view m mod 2 ^ 32)))"
    "rlp_at r 2 = Inr (enc_int (nat (int (idx m) mod 2 ^ 32)))" "rlp_at r 3 = Inr (enc_int (timestamp m))"
    "rlp_at r 4 = Inr (enc_data (block_hash m))" "rlp_at r 5 = Inr (enc_data (sig m))" "rlp_at r 6 = Inr (enc_data (sig2 m))"
    using assms(2) by (simp_all add: msg_items_def)
  have i64: "toInt 64 Strict (enc_int (nat (i mod 2 ^ 32))) = Inr (nat (i mod 2 ^ 32))" for i
    using mod32_range(1) [of i] by (intro toInt_enc_int) simp_all
  have a64: "as_int64 (nat (i mod 2 ^ 32)) = i mod 2 ^ 32" for i
    using as_int64_small [OF mod32_range(1) [of i]] by simp
  have ii: "nat (int (idx m) mod 2 ^ 32) = idx m" using assms(1) by (simp add: msg_wf_def)
  have i16: "toInt 16 Strict (enc_int (idx m)) = Inr (idx m)"
    using assms(1) by (intro toInt_enc_int) (simp_all add: msg_wf_def)
  show ?thesis
    using assms(1) sizes
    by (simp del: Strict_def VeryStrict_def LaissezFaire_def One_nat_def power_numeral
        add: msg_populate_def f i64 a64 ii i16 toInt_u256 toHash_enc_data toBytesConstRef_enc_data msg_wf_def)
qed

text \<open>
  C30. A PBFT message survives the wire exactly up to 32-bit truncation: encoding succeeds and
  decoding gives every field back, but the block height and the view are reduced modulo \<open>2^32\<close>, since
  the stream converts every built-in integer to \<open>unsigned\<close>. So a sign, commit or view-change
  request is transmitted faithfully if and only if its height and view are below \<open>2^32\<close>.
\<close>

theorem pbftmsg_roundtrip:
  assumes "msg_wf m"
  shows "\<exists>out. msg_encode m = Inr out \<and>
    msg_decode out m0 = Inr (m0\<lparr>height := height m mod 2 ^ 32, view := view m mod 2 ^ 32, idx := idx m,
      timestamp := timestamp m, block_hash := block_hash m, sig := sig m, sig2 := sig2 m\<rparr>)"
proof -
  note em = msg_items_emitted [OF assms]
  have ok: "rlp_size_ok (length (concat (msg_items m)) + 9)" using em(3) by (simp add: rlp_size_ok_def)
  note un = pbft_unwrap_items [OF em(2) ok]
  have "length (msg_items m) = 7" by (simp add: msg_items_def)
  then have "msg_populate (enc_data (concat (msg_items m))) m0 = Inr (m0\<lparr>height := height m mod 2 ^ 32,
      view := view m mod 2 ^ 32, idx := idx m, timestamp := timestamp m, block_hash := block_hash m, sig := sig m, sig2 := sig2 m\<rparr>)"
    using assms un(3) by (intro msg_populate_items) simp_all
  then show ?thesis
    using pbft_wrap_items [OF em(1) ok] un(1,2) by (simp add: msg_encode_def msg_decode_def del: VeryStrict_def)
qed

definition toy_msg :: pbftmsg where
  "toy_msg = pbftmsg_new\<lparr>height := 2 ^ 32 + 5, view := 3, idx := 1, timestamp := 77, sig := hash_of_nat 65 9\<rparr>"

theorem pbftmsg_roundtrip_witness:
  "\<exists>out. msg_encode toy_msg = Inr out \<and>
    msg_decode out pbftmsg_new = Inr (pbftmsg_new\<lparr>height := height toy_msg mod 2 ^ 32, view := view toy_msg mod 2 ^ 32,
      idx := idx toy_msg, timestamp := timestamp toy_msg, block_hash := block_hash toy_msg, sig := sig toy_msg, sig2 := sig2 toy_msg\<rparr>)"
  by (rule pbftmsg_roundtrip) (simp add: toy_msg_def pbftmsg_new_def msg_wf_def u256_def)

text \<open>
  A prepare request survives the wire: with height and view below \<open>2^32\<close> and a block of
  fewer than \<open>2^60\<close> bytes, encoding succeeds and decoding into a fresh request gives the
  request back, the block bytes included; the execution context is not transmitted.
\<close>

theorem prepare_roundtrip:
  assumes "msg_wf m" "0 \<le> height m" "height m < 2 ^ 32" "0 \<le> view m" "view m < 2 ^ 32" "length (block_data m) < 2 ^ 60"
  shows "\<exists>out. prepare_encode m = Inr out \<and> prepare_decode out prepare_new = Inr (m\<lparr>p_execContext := None\<rparr>)"
proof -
  let ?es = "msg_items m @ [enc_data (block_data m)]"
  note em = msg_items_emitted [OF assms(1)]
  have b: "rlp_size_ok (length (block_data m))" using assms(6) by (simp add: rlp_size_ok_def)
  have ok: "rlp_size_ok (length (concat ?es) + 9)"
    using em(3) length_enc_data_le [OF b] assms(6) by (simp add: rlp_size_ok_def)
  have items: "list_all rlp_item ?es" using em(2) b by simp
  have em2: "list_all2 emits (msg_fields m @ [append_data (block_data m) False]) ?es"
    using em(1) emits_append_data [OF b] by (intro list_all2_appendI) simp_all
  note un = pbft_unwrap_items [OF items ok]
  have len: "length (msg_items m) = 7" by (simp add: msg_items_def)
  have "msg_populate (enc_data (concat ?es)) prepare_new = Inr (prepare_new\<lparr>height := height m mod 2 ^ 32,
      view := view m mod 2 ^ 32, idx := idx m, timestamp := timestamp m, block_hash := block_hash m, sig := sig m, sig2 := sig2 m\<rparr>)"
    using assms(1) un(3) len by (intro msg_populate_items) (simp_all add: nth_append)
  moreover have "rlp_at (enc_data (concat ?es)) 7 = Inr (enc_data (block_data m))"
    using un(3) [of 7] len by (simp add: nth_append)
  moreover have "height m mod 2 ^ 32 = height m" "view m mod 2 ^ 32 = view m"
    using assms(2-5) by simp_all
  ultimately show ?thesis
    using pbft_wrap_items [OF em2 ok] un(1,2) toBytes_enc_data [OF b]
    by (cases m) (simp add: prepare_encode_def prepare_decode_def prepare_new_def del: VeryStrict_def LaissezFaire_def power_numeral)
qed

theorem prepare_roundtrip_witness:
  "\<exists>out. prepare_encode (prepare_new\<lparr>height := 5, view := 3, idx := 1, timestamp := 8, block_data := [1, 2, 3]\<rparr>) = Inr out \<and>
    prepare_decode out prepare_new =
      Inr ((prepare_new\<lparr>height := 5, view := 3, idx := 1, timestamp := 8, block_data := [1, 2, 3]\<rparr>)\<lparr>p_execContext := None\<rparr>)"
  by (rule prepare_roundtrip) (simp_all add: prepare_new_def msg_wf_def u256_def)

lemma packet_roundtrip_items:
  assumes "packet_id p < 256" "ttl p < 256" "length (pkt_data p) < 2 ^ 60"
  shows "\<exists>out. packet_encode p = Inr out \<and>
    packet_decode out q = Inr (q\<lparr>packet_id := packet_id p, ttl := ttl p, pkt_data := pkt_data p\<rparr>)"
proof -
  let ?es = "[enc_int (packet_id p), enc_int (ttl p), enc_data (pkt_data p)]"
  have b: "rlp_size_ok (length (pkt_data p))" using assms(3) by (simp add: rlp_size_ok_def)
  have u: "u256 (packet_id p)" "u256 (ttl p)" using assms(1,2) by (auto intro: u256_less [of _ 8])
  have "nat (int n mod 2 ^ 32) = n" if "n < 256" for n using that by simp
  then have "emits (append_unsigned (int n)) (enc_int n)" if "n < 256" for n
    using emits_append_unsigned [of "int n"] that by simp
  then have em: "list_all2 emits [append_unsigned (int (packet_id p)), append_unsigned (int (ttl p)), append_data (pkt_data p) False] ?es"
    using assms emits_append_data [OF b] by simp
  have items: "list_all rlp_item ?es" using u b by simp
  have ok: "rlp_size_ok (length (concat ?es) + 9)"
    using length_enc_int_le [OF u(1)] length_enc_int_le [OF u(2)] length_enc_data_le [OF b] assms(3) by (simp add: rlp_size_ok_def)
  note un = pbft_unwrap_items [OF items ok]
  define r where "r = enc_data (concat ?es)"
  have f: "rlp_at r 0 = Inr (enc_int (packet_id p))" "rlp_at r 1 = Inr (enc_int (ttl p))" "rlp_at r 2 = Inr (enc_data (pkt_data p))"
    unfolding r_def by (subst un(3), simp)+
  have i8: "toInt 8 Strict (enc_int n) = Inr n" if "n < 256" for n using that by (intro toInt_enc_int) simp_all
  have "packet_decode (enc_list r) q = Inr (q\<lparr>packet_id := packet_id p, ttl := ttl p, pkt_data := pkt_data p\<rparr>)"
    using un(1,2) assms(1,2) unfolding r_def [symmetric]
    by (simp add: packet_decode_def f i8 toBytes_enc_data [OF b] del: VeryStrict_def Strict_def LaissezFaire_def One_nat_def)
  then show ?thesis using pbft_wrap_items [OF em ok] by (simp add: packet_encode_def r_def del: concat.simps)
qed

end
