(* ===== verification/PBFTReqCache.thy ===== *)
theory PBFTReqCache
  imports PBFTMsg
begin

text \<open>
  The request cache of a PBFT node: \<open>libconsensus/pbft/PBFTReqCache.h\<close> and \<open>.cpp\<close>. It holds the current
  proposal in its raw and its executed form, the votes received for a block hash, keyed by the hex form of
  their signature, and the view-change requests, keyed by view and node index.
\<close>

section \<open>State and operations\<close>

record req_cache =
  m_prepareCache :: prepare_req
  m_rawPrepareCache :: prepare_req
  m_signCache :: "(bytes, (string, pbftmsg) amap) amap"
  m_recvViewChangeReq :: "(int, (nat, pbftmsg) amap) amap"
  m_commitCache :: "(bytes, (string, pbftmsg) amap) amap"
  m_committedPrepareCache :: prepare_req
  m_futurePrepareCache :: prepare_req

definition req_cache_new :: req_cache where
  "req_cache_new = \<lparr>m_prepareCache = prepare_new, m_rawPrepareCache = prepare_new, m_signCache = [],
     m_recvViewChangeReq = [], m_commitCache = [], m_committedPrepareCache = prepare_new, m_futurePrepareCache = prepare_new\<rparr>"

definition cacheExists :: "('k, ('l, 'v) amap) amap \<Rightarrow> 'k \<Rightarrow> 'l \<Rightarrow> bool" where
  "cacheExists cache mainKey key =
     (case map_of cache mainKey of None \<Rightarrow> False | Some m \<Rightarrow> map_of m key \<noteq> None)"

definition getSizeFromCache :: "'k \<Rightarrow> ('k, ('l, 'v) amap) amap \<Rightarrow> nat" where
  "getSizeFromCache key cache = (case map_of cache key of None \<Rightarrow> 0 | Some m \<Rightarrow> length m)"

definition isExistPrepare :: "prepare_req \<Rightarrow> req_cache \<Rightarrow> bool" where
  "isExistPrepare req c \<longleftrightarrow> block_hash (m_rawPrepareCache c) = block_hash req"

definition isExistSign :: "pbftmsg \<Rightarrow> req_cache \<Rightarrow> bool" where
  "isExistSign req c = cacheExists (m_signCache c) (block_hash req) (toHex (sig req))"

definition isExistCommit :: "pbftmsg \<Rightarrow> req_cache \<Rightarrow> bool" where
  "isExistCommit req c = cacheExists (m_commitCache c) (block_hash req) (toHex (sig req))"

definition isExistViewChange :: "pbftmsg \<Rightarrow> req_cache \<Rightarrow> bool" where
  "isExistViewChange req c = cacheExists (m_recvViewChangeReq c) (view req) (idx req)"

definition getSigCacheSize :: "bytes \<Rightarrow> req_cache \<Rightarrow> nat" where
  "getSigCacheSize h c = getSizeFromCache h (m_signCache c)"
definition getCommitCacheSize :: "bytes \<Rightarrow> req_cache \<Rightarrow> nat" where
  "getCommitCacheSize h c = getSizeFromCache h (m_commitCache c)"
definition getViewChangeSize :: "int \<Rightarrow> req_cache \<Rightarrow> nat" where
  "getViewChangeSize v c = getSizeFromCache v (m_recvViewChangeReq c)"

text \<open>\<open>cache[k][l] = v\<close>: a missing inner map is created empty first.\<close>

definition nested_set :: "'k \<Rightarrow> 'l \<Rightarrow> 'v \<Rightarrow> ('k, ('l, 'v) amap) amap \<Rightarrow> ('k, ('l, 'v) amap) amap" where
  "nested_set k l v cache = amap_set k (amap_set l v (case map_of cache k of None \<Rightarrow> [] | Some m \<Rightarrow> m)) cache"

text \<open>The loops that erase the entries of one inner map, leaving it in place when it becomes empty.\<close>

definition filter_inner :: "('v \<Rightarrow> bool) \<Rightarrow> 'k \<Rightarrow> ('k, ('l, 'v) amap) amap \<Rightarrow> ('k, ('l, 'v) amap) amap" where
  "filter_inner keep k cache =
     (case map_of cache k of None \<Rightarrow> cache | Some m \<Rightarrow> amap_set k (filter (\<lambda>(_, v). keep v) m) cache)"

definition addRawPrepare :: "prepare_req \<Rightarrow> req_cache \<Rightarrow> req_cache" where
  "addRawPrepare req c = c\<lparr>m_rawPrepareCache := req, m_prepareCache := prepare_new\<rparr>"

definition removeInvalidSignCache :: "bytes \<Rightarrow> int \<Rightarrow> req_cache \<Rightarrow> req_cache" where
  "removeInvalidSignCache h v c = c\<lparr>m_signCache := filter_inner (\<lambda>r. view r = v) h (m_signCache c)\<rparr>"

definition removeInvalidCommitCache :: "bytes \<Rightarrow> int \<Rightarrow> req_cache \<Rightarrow> req_cache" where
  "removeInvalidCommitCache h v c = c\<lparr>m_commitCache := filter_inner (\<lambda>r. view r = v) h (m_commitCache c)\<rparr>"

definition addPrepareReq :: "prepare_req \<Rightarrow> req_cache \<Rightarrow> req_cache" where
  "addPrepareReq req c =
     removeInvalidCommitCache (block_hash req) (view req)
       (removeInvalidSignCache (block_hash req) (view req) (c\<lparr>m_prepareCache := req\<rparr>))"

definition addSignReq :: "pbftmsg \<Rightarrow> req_cache \<Rightarrow> req_cache" where
  "addSignReq req c = c\<lparr>m_signCache := nested_set (block_hash req) (toHex (sig req)) req (m_signCache c)\<rparr>"

definition addCommitReq :: "pbftmsg \<Rightarrow> req_cache \<Rightarrow> req_cache" where
  "addCommitReq req c = c\<lparr>m_commitCache := nested_set (block_hash req) (toHex (sig req)) req (m_commitCache c)\<rparr>"

definition addViewChangeReq :: "pbftmsg \<Rightarrow> req_cache \<Rightarrow> req_cache" where
  "addViewChangeReq req c =
     c\<lparr>m_recvViewChangeReq := nested_set (view req) (idx req) req (m_recvViewChangeReq c)\<rparr>"

definition addFuturePrepareCache :: "prepare_req \<Rightarrow> req_cache \<Rightarrow> req_cache" where
  "addFuturePrepareCache req c =
     (if block_hash (m_futurePrepareCache c) \<noteq> block_hash req then c\<lparr>m_futurePrepareCache := req\<rparr> else c)"

definition updateCommittedPrepare :: "req_cache \<Rightarrow> req_cache" where
  "updateCommittedPrepare c = c\<lparr>m_committedPrepareCache := m_rawPrepareCache c\<rparr>"

definition delCache :: "bytes \<Rightarrow> req_cache \<Rightarrow> req_cache" where
  "delCache h c =
     (let c1 = c\<lparr>m_signCache := amap_del h (m_signCache c), m_commitCache := amap_del h (m_commitCache c)\<rparr>
      in if h = block_hash (m_prepareCache c1) then c1\<lparr>m_prepareCache := msg_clear (m_prepareCache c1)\<rparr> else c1)"

definition clearAllExceptCommitCache :: "req_cache \<Rightarrow> req_cache" where
  "clearAllExceptCommitCache c =
     c\<lparr>m_prepareCache := msg_clear (m_prepareCache c), m_signCache := [], m_recvViewChangeReq := []\<rparr>"

definition reqcache_clearAll :: "req_cache \<Rightarrow> req_cache" where
  "reqcache_clearAll c =
     (clearAllExceptCommitCache (c\<lparr>m_rawPrepareCache := msg_clear (m_rawPrepareCache c)\<rparr>))\<lparr>m_commitCache := []\<rparr>"

definition resetFuturePrepare :: "req_cache \<Rightarrow> req_cache" where
  "resetFuturePrepare c = c\<lparr>m_futurePrepareCache := prepare_new\<rparr>"

text \<open>\<open>number\<close> and \<open>hash\<close> are those of the highest block's header.\<close>

definition req_current :: "int \<Rightarrow> bytes \<Rightarrow> pbftmsg \<Rightarrow> bool" where
  "req_current number hash r \<longleftrightarrow> \<not> height r < number \<and> \<not> (height r = number \<and> block_hash r \<noteq> hash)"

definition removeInvalidEntryFromCache ::
  "int \<Rightarrow> bytes \<Rightarrow> ('k, ('l, pbftmsg) amap) amap \<Rightarrow> ('k, ('l, pbftmsg) amap) amap" where
  "removeInvalidEntryFromCache number hash cache =
     filter (\<lambda>(_, m). m \<noteq> []) (map (\<lambda>(k, m). (k, filter (\<lambda>(_, r). req_current number hash r) m)) cache)"

definition reqcache_collectGarbage :: "int \<Rightarrow> bytes \<Rightarrow> req_cache \<Rightarrow> req_cache" where
  "reqcache_collectGarbage number hash c =
     c\<lparr>m_signCache := removeInvalidEntryFromCache number hash (m_signCache c),
       m_commitCache := removeInvalidEntryFromCache number hash (m_commitCache c)\<rparr>"

definition delInvalidViewChange :: "int \<Rightarrow> bytes \<Rightarrow> req_cache \<Rightarrow> req_cache" where
  "delInvalidViewChange number hash c =
     c\<lparr>m_recvViewChangeReq := removeInvalidEntryFromCache number hash (m_recvViewChangeReq c)\<rparr>"

definition removeInvalidViewChange :: "int \<Rightarrow> int \<Rightarrow> bytes \<Rightarrow> req_cache \<Rightarrow> req_cache" where
  "removeInvalidViewChange v number hash c =
     c\<lparr>m_recvViewChangeReq := filter_inner (req_current number hash) v (m_recvViewChangeReq c)\<rparr>"

definition removeViewChangeUpTo :: "int \<Rightarrow> req_cache \<Rightarrow> req_cache" where
  "removeViewChangeUpTo curView c =
     c\<lparr>m_recvViewChangeReq := filter (\<lambda>(v, _). \<not> v \<le> curView) (m_recvViewChangeReq c)\<rparr>"

definition triggerViewChange :: "int \<Rightarrow> req_cache \<Rightarrow> req_cache" where
  "triggerViewChange curView c =
     removeViewChangeUpTo curView
       (c\<lparr>m_rawPrepareCache := msg_clear (m_rawPrepareCache c), m_prepareCache := msg_clear (m_prepareCache c),
          m_signCache := [], m_commitCache := []\<rparr>)"

text \<open>
  \<open>generateAndSetSigList\<close>: the signature list is read back from the hex keys of the commit cache. The
  result is the returned flag with the block, or the failed assertion.
\<close>

definition sig_of_key :: "string \<Rightarrow> hex_error + bytes" where
  "sig_of_key key = bindE (fromHex key True) (\<lambda>bs. Inr (hash_of_bytes 65 bs))"

datatype siglist_error = SigListTooShort | SigKey hex_error

definition generateAndSetSigList :: "nat \<Rightarrow> block \<Rightarrow> req_cache \<Rightarrow> siglist_error + bool \<times> block" where
  "generateAndSetSigList minSigSize b c =
     (case map_of (m_commitCache c) (block_hash (m_prepareCache c)) of
        None \<Rightarrow> Inr (False, b)
      | Some m \<Rightarrow>
          (case mapE (\<lambda>(key, r). bindE (sig_of_key key) (\<lambda>s. Inr (idx r, s))) m of
             Inl e \<Rightarrow> Inl (SigKey e)
           | Inr sig_list \<Rightarrow>
               if length sig_list \<ge> minSigSize then Inr (True, setSigList sig_list b) else Inl SigListTooShort))"

text \<open>
  \<open>canTriggerViewChange\<close>: the state of the two loops is the map from node index to view, the least view and the
  least height.
\<close>

definition vc_entry :: "int \<Rightarrow> int \<Rightarrow> (nat, int) amap \<times> int \<times> int \<Rightarrow> nat \<times> pbftmsg \<Rightarrow> (nat, int) amap \<times> int \<times> int" where
  "vc_entry number v st entry =
     (case st of (idx_view, minView, minHeight) \<Rightarrow>
        if (case map_of idx_view (fst entry) of None \<Rightarrow> True | Some v' \<Rightarrow> v > v') \<and> height (snd entry) \<ge> number
        then (amap_set (fst entry) v idx_view, (if minView > v then v else minView),
              (if minHeight > height (snd entry) then height (snd entry) else minHeight))
        else st)"

definition vc_scan :: "int \<Rightarrow> int \<Rightarrow> (int, (nat, pbftmsg) amap) amap \<Rightarrow> (nat, int) amap \<times> int \<times> int" where
  "vc_scan toView number cache =
     foldl (\<lambda>st (v, m). if v > toView then foldl (vc_entry number v) st m else st) ([], MAXVIEW, INT64_MAX) cache"

definition canTriggerViewChange :: "nat \<Rightarrow> int \<Rightarrow> int \<Rightarrow> int \<Rightarrow> req_cache \<Rightarrow> bool \<times> int" where
  "canTriggerViewChange maxInvalidNodeNum toView number consensusBlockNumber c =
     (case vc_scan toView number (m_recvViewChangeReq c) of (idx_view, minView, minHeight) \<Rightarrow>
        (let count = length idx_view mod 2 ^ 16;
             flag = (minHeight = consensusBlockNumber \<and> minHeight = height (m_committedPrepareCache c))
         in (count > maxInvalidNodeNum \<and> \<not> flag, minView)))"

section \<open>Nested maps\<close>

named_theorems nested_rules \<open>operations that keep nested caches well formed\<close>

text \<open>Keys are unique at both levels and every entry satisfies \<open>P\<close>.\<close>

definition nested_ok :: "('k \<Rightarrow> 'l \<Rightarrow> 'v \<Rightarrow> bool) \<Rightarrow> ('k, ('l, 'v) amap) amap \<Rightarrow> bool" where
  "nested_ok P cache \<longleftrightarrow> amap_ok cache \<and> (\<forall>(k, m)\<in>set cache. amap_ok m \<and> (\<forall>(l, v)\<in>set m. P k l v))"

lemma nested_ok_Nil [nested_rules]: "nested_ok P []"
  by (simp add: nested_ok_def)

lemma nested_ok_lookup:
  assumes "nested_ok P cache" "map_of cache k = Some m"
  shows "amap_ok m" "\<And>l v. (l, v) \<in> set m \<Longrightarrow> P k l v"
  using assms map_of_SomeD [OF assms(2)] by (fastforce simp: nested_ok_def)+

lemma set_amap_set: "set (amap_set k v m) \<subseteq> insert (k, v) (set m)"
  by (induction k v m rule: amap_set.induct) auto

lemma nested_ok_amap_set:
  assumes "nested_ok P cache" "amap_ok m" "\<And>l v. (l, v) \<in> set m \<Longrightarrow> P k l v"
  shows "nested_ok P (amap_set k m cache)"
  using assms set_amap_set [of k m cache] by (fastforce simp: nested_ok_def)

lemma nested_ok_set [nested_rules]:
  assumes "nested_ok P cache" "P k l v"
  shows "nested_ok P (nested_set k l v cache)"
proof -
  define m where "m = (case map_of cache k of None \<Rightarrow> [] | Some m \<Rightarrow> m)"
  have "amap_ok m" "\<And>l v. (l, v) \<in> set m \<Longrightarrow> P k l v"
    using nested_ok_lookup [OF assms(1)] by (cases "map_of cache k"; simp add: m_def)+
  then show ?thesis
    unfolding nested_set_def m_def [symmetric]
    using assms set_amap_set [of l v m] by (intro nested_ok_amap_set) auto
qed

lemma nested_ok_filter_inner [nested_rules]: "nested_ok P cache \<Longrightarrow> nested_ok P (filter_inner keep k cache)"
  unfolding filter_inner_def
  by (auto split: option.splits intro!: nested_ok_amap_set amap_ok_filter dest: nested_ok_lookup)

lemma nested_ok_filter [nested_rules]: "nested_ok P cache \<Longrightarrow> nested_ok P (filter Q cache)"
  by (auto simp: nested_ok_def)

lemma nested_ok_del [nested_rules]: "nested_ok P cache \<Longrightarrow> nested_ok P (amap_del k cache)"
  unfolding amap_del_def by (rule nested_ok_filter)

lemma nested_ok_removeInvalid [nested_rules]:
  fixes cache :: "('k, ('l, pbftmsg) amap) amap"
  assumes "nested_ok P cache"
  shows "nested_ok P (removeInvalidEntryFromCache number hash cache)"
proof -
  define f where "f = (\<lambda>m. filter (\<lambda>(_ :: 'l, r). req_current number hash r) m)"
  have f: "amap_ok m \<Longrightarrow> amap_ok (f m)" "set (f m) \<subseteq> set m" for m by (auto simp: f_def)
  have "map fst (map (\<lambda>(k, m). (k, f m)) cache) = map fst cache" by (simp add: case_prod_beta comp_def)
  then have keys: "amap_ok (map (\<lambda>(k, m). (k, f m)) cache) = amap_ok cache" by (simp only: amap_ok_def)
  have "amap_ok (f m) \<and> (\<forall>(l, v)\<in>set (f m). P k l v)" if "(k, m) \<in> set cache" for k m
    using assms that f [of m] by (fastforce simp: nested_ok_def)
  then have "nested_ok P (map (\<lambda>(k, m). (k, f m)) cache)"
    using assms unfolding nested_ok_def keys by fastforce
  then show ?thesis unfolding removeInvalidEntryFromCache_def f_def by (rule nested_ok_filter)
qed

lemma nested_set_lookup:
  "map_of (nested_set k l v cache) k' =
     (if k' = k then Some (amap_set l v (case map_of cache k of None \<Rightarrow> [] | Some m \<Rightarrow> m)) else map_of cache k')"
  by (simp add: nested_set_def)

lemma nested_set_size:
  assumes "nested_ok P cache"
  shows "getSizeFromCache k (nested_set k l v cache) =
    (if cacheExists cache k l then getSizeFromCache k cache else Suc (getSizeFromCache k cache))"
  using nested_ok_lookup(1) [OF assms, of k]
  by (auto simp: getSizeFromCache_def nested_set_lookup cacheExists_def length_amap_set split: option.splits)

section \<open>The invariant of the request cache\<close>

definition vote_ok :: "bytes \<Rightarrow> string \<Rightarrow> pbftmsg \<Rightarrow> bool" where
  "vote_ok h key r \<longleftrightarrow> block_hash r = h \<and> key = toHex (sig r) \<and> length (sig r) = 65"

definition viewchange_ok :: "int \<Rightarrow> nat \<Rightarrow> pbftmsg \<Rightarrow> bool" where
  "viewchange_ok v i r \<longleftrightarrow> view r = v \<and> idx r = i \<and> v \<le> MAXVIEW"

definition reqcache_ok :: "req_cache \<Rightarrow> bool" where
  "reqcache_ok c \<longleftrightarrow> nested_ok vote_ok (m_signCache c) \<and> nested_ok vote_ok (m_commitCache c)
     \<and> nested_ok viewchange_ok (m_recvViewChangeReq c)"

named_theorems reqcache_rules \<open>operations that keep the request cache well formed\<close>

lemmas reqcache_op_defs =
  addRawPrepare_def addPrepareReq_def removeInvalidSignCache_def removeInvalidCommitCache_def addSignReq_def
  addCommitReq_def addViewChangeReq_def addFuturePrepareCache_def updateCommittedPrepare_def delCache_def
  clearAllExceptCommitCache_def reqcache_clearAll_def resetFuturePrepare_def reqcache_collectGarbage_def
  delInvalidViewChange_def removeInvalidViewChange_def removeViewChangeUpTo_def triggerViewChange_def

lemma reqcache_ok_new [reqcache_rules]: "reqcache_ok req_cache_new"
  by (simp add: reqcache_ok_def req_cache_new_def nested_rules)

lemma reqcache_ok_add [reqcache_rules]:
  assumes "reqcache_ok c" "length (sig r) = 65"
  shows "reqcache_ok (addSignReq r c)" "reqcache_ok (addCommitReq r c)"
  using assms by (auto simp: reqcache_ok_def addSignReq_def addCommitReq_def vote_ok_def intro!: nested_rules)

lemma reqcache_ok_addViewChange [reqcache_rules]:
  "reqcache_ok c \<Longrightarrow> view r \<le> MAXVIEW \<Longrightarrow> reqcache_ok (addViewChangeReq r c)"
  by (auto simp: reqcache_ok_def addViewChangeReq_def viewchange_ok_def intro!: nested_rules)

lemma reqcache_ok_ops [reqcache_rules]:
  assumes "reqcache_ok c"
  shows "reqcache_ok (addRawPrepare p c)" "reqcache_ok (addPrepareReq p c)" "reqcache_ok (addFuturePrepareCache p c)"
    "reqcache_ok (updateCommittedPrepare c)" "reqcache_ok (delCache h c)" "reqcache_ok (clearAllExceptCommitCache c)"
    "reqcache_ok (reqcache_clearAll c)" "reqcache_ok (resetFuturePrepare c)" "reqcache_ok (reqcache_collectGarbage number h c)"
    "reqcache_ok (delInvalidViewChange number h c)" "reqcache_ok (removeInvalidViewChange v number h c)"
    "reqcache_ok (triggerViewChange v c)"
  using assms by (simp_all add: reqcache_op_defs reqcache_ok_def nested_rules Let_def)

section \<open>The signature list of a committed block\<close>

lemma sig_of_key_toHex: "length s = 65 \<Longrightarrow> sig_of_key (toHex s) = Inr s"
  by (simp add: sig_of_key_def fromHex_toHex hash_of_bytes_def)

lemma commit_votes:
  assumes "reqcache_ok c" "map_of (m_commitCache c) h = Some m"
  shows "mapE (\<lambda>(key, r). bindE (sig_of_key key) (\<lambda>s. Inr (idx r, s))) m = Inr (map (\<lambda>(_, r). (idx r, sig r)) m)"
    and "distinct (map (\<lambda>(_, r). sig r) m)"
    and "\<And>k r. (k, r) \<in> set m \<Longrightarrow> block_hash r = h"
proof -
  have ok: "nested_ok vote_ok (m_commitCache c)" using assms(1) by (simp add: reqcache_ok_def)
  note entry = nested_ok_lookup(2) [OF ok assms(2)]
  show "mapE (\<lambda>(key, r). bindE (sig_of_key key) (\<lambda>s. Inr (idx r, s))) m = Inr (map (\<lambda>(_, r). (idx r, sig r)) m)"
    by (rule mapE_Inr) (auto dest!: entry simp: vote_ok_def sig_of_key_toHex)
  have "map fst m = map toHex (map (\<lambda>(_, r). sig r) m)"
    by (auto dest!: entry simp: vote_ok_def)
  moreover have "distinct (map fst m)" using nested_ok_lookup(1) [OF ok assms(2)] by (simp add: amap_ok_def)
  ultimately show "distinct (map (\<lambda>(_, r). sig r) m)" by (metis distinct_map)
  show "\<And>k r. (k, r) \<in> set m \<Longrightarrow> block_hash r = h" by (auto dest: entry simp: vote_ok_def)
qed

text \<open>
  C22. The signature list written into a block consists of the commit votes held for the executed block's hash:
  on a well-formed cache the hex keys always decode, the only failure is the assertion on the number of votes, and
  on success the list has at least the required length, its signatures are pairwise different, and each comes
  from a cached commit request of that block hash with the listed node index.
\<close>

theorem sigList_from_commits:
  assumes "reqcache_ok c" "map_of (m_commitCache c) (block_hash (m_prepareCache c)) = Some m"
    and "sigs = map (\<lambda>(_, r). (idx r, sig r)) m"
  shows "generateAndSetSigList n b c = (if n \<le> length m then Inr (True, setSigList sigs b) else Inl SigListTooShort)
    \<and> distinct (map snd sigs)
    \<and> (\<forall>i s. (i, s) \<in> set sigs \<longrightarrow>
         (\<exists>key r. (key, r) \<in> set m \<and> idx r = i \<and> sig r = s \<and> block_hash r = block_hash (m_prepareCache c)))"
proof -
  note votes = commit_votes [OF assms(1,2)]
  have "map snd sigs = map (\<lambda>(_, r). sig r) m" by (simp add: assms(3) case_prod_beta comp_def)
  moreover have "generateAndSetSigList n b c = (if n \<le> length m then Inr (True, setSigList sigs b) else Inl SigListTooShort)"
    by (simp add: generateAndSetSigList_def assms(2,3) votes(1))
  moreover have "\<exists>key r. (key, r) \<in> set m \<and> idx r = i \<and> sig r = s \<and> block_hash r = block_hash (m_prepareCache c)"
    if "(i, s) \<in> set sigs" for i s
    using that votes(3) unfolding assms(3) by (auto simp del: map_map)
  ultimately show ?thesis using votes(2) by simp
qed

definition toy_cache :: req_cache where
  "toy_cache = addCommitReq (pbftmsg_new\<lparr>idx := 2, sig := replicate 65 1\<rparr>)
     (addCommitReq (pbftmsg_new\<lparr>idx := 0, sig := replicate 65 7\<rparr>) req_cache_new)"

definition toy_votes :: "(string, pbftmsg) amap" where
  "toy_votes = [(toHex (replicate 65 7), pbftmsg_new\<lparr>idx := 0, sig := replicate 65 7\<rparr>),
     (toHex (replicate 65 1), pbftmsg_new\<lparr>idx := 2, sig := replicate 65 1\<rparr>)]"

lemma toy_cache_commits:
  "map_of (m_commitCache toy_cache) (block_hash (m_prepareCache toy_cache)) = Some toy_votes"
proof -
  have "replicate 65 (1 :: byte) \<noteq> replicate 65 7" by (simp add: replicate_eq_replicate)
  then have "toHex (replicate 65 1) \<noteq> toHex (replicate 65 7)" using toHex_inj by blast
  then show ?thesis
    by (simp add: toy_cache_def toy_votes_def addCommitReq_def req_cache_new_def nested_set_def pbftmsg_new_def prepare_new_def)
qed

lemma toy_cache_ok: "reqcache_ok toy_cache"
  unfolding toy_cache_def by (intro reqcache_rules) simp_all

theorem sigList_from_commits_witness:
  "generateAndSetSigList 2 block_new toy_cache =
     Inr (True, setSigList [(0, replicate 65 7), (2, replicate 65 1)] block_new)"
  using sigList_from_commits [OF toy_cache_ok toy_cache_commits refl, of 2 block_new] by (simp add: toy_votes_def)

section \<open>When a view change is triggered\<close>

text \<open>The entries the two loops visit, in order.\<close>

definition vc_entries :: "int \<Rightarrow> (int, (nat, pbftmsg) amap) amap \<Rightarrow> (int \<times> nat \<times> pbftmsg) list" where
  "vc_entries toView cache = concat (map (\<lambda>(v, m). if v > toView then map (\<lambda>(i, r). (v, i, r)) m else []) cache)"

lemma foldl_concat_map: "foldl f s (concat xss) = foldl (foldl f) s xss"
  by (induction xss arbitrary: s) auto

lemma vc_scan_entries:
  "vc_scan toView number cache = foldl (\<lambda>st (v, e). vc_entry number v st e) ([], MAXVIEW, INT64_MAX) (vc_entries toView cache)"
proof -
  have "foldl (\<lambda>st (v, m). if v > toView then foldl (vc_entry number v) st m else st) st cache =
      foldl (foldl (\<lambda>st (v, e). vc_entry number v st e)) st
        (map (\<lambda>(v, m). if v > toView then map (\<lambda>(i, r). (v, i, r)) m else []) cache)" for st
  proof (induction cache arbitrary: st)
    case (Cons a cache)
    obtain v m where a: "a = (v, m)" by (cases a)
    have "foldl (vc_entry number v) st m = foldl (\<lambda>st (v, e). vc_entry number v st e) st (map (\<lambda>(i, r). (v, i, r)) m)" for st
      by (simp add: foldl_map case_prod_beta)
    with Cons a show ?case by simp
  qed simp
  then show ?thesis by (simp add: vc_scan_def vc_entries_def foldl_concat_map)
qed

definition vc_inv :: "int \<Rightarrow> (int \<times> nat \<times> pbftmsg) list \<Rightarrow> (nat, int) amap \<times> int \<times> int \<Rightarrow> bool" where
  "vc_inv number es st \<longleftrightarrow> (case st of (idx_view, minView, minHeight) \<Rightarrow>
     amap_ok idx_view \<and> fst ` set idx_view = {i. \<exists>v r. (v, i, r) \<in> set es \<and> height r \<ge> number}
     \<and> (minView = MAXVIEW \<or> minView \<in> fst ` set es))"

lemma vc_inv_step:
  assumes "vc_inv number es st"
  shows "vc_inv number (es @ [(v, i, r)]) (vc_entry number v st (i, r))"
proof -
  obtain idx_view minView minHeight where st: "st = (idx_view, minView, minHeight)" by (cases st)
  let ?K = "\<lambda>es. {i. \<exists>v r. (v, i, r) \<in> set es \<and> height r \<ge> number}"
  have inv: "amap_ok idx_view" "fst ` set idx_view = ?K es" "minView = MAXVIEW \<or> minView \<in> fst ` set es"
    using assms by (simp_all add: vc_inv_def st)
  have K: "?K (es @ [(v, i, r)]) = (if height r \<ge> number then insert i (?K es) else ?K es)" by auto
  show ?thesis
  proof (cases "height r \<ge> number")
    case False
    then show ?thesis using inv K by (auto simp: vc_entry_def st vc_inv_def)
  next
    case True
    have "i \<in> ?K es" if "map_of idx_view i = Some w" for w
      using that inv(2) by (metis (no_types, lifting) domI dom_map_of_conv_image_fst)
    with True inv K show ?thesis
      by (cases "map_of idx_view i") (auto simp: vc_entry_def st vc_inv_def insert_absorb)
  qed
qed

lemma vc_inv_scan: "vc_inv number (vc_entries toView cache) (vc_scan toView number cache)"
proof -
  have "vc_inv number es (foldl (\<lambda>st (v, e). vc_entry number v st e) ([], MAXVIEW, INT64_MAX) es)" for es
  proof (induction es rule: rev_induct)
    case (snoc e es)
    then show ?case using vc_inv_step by (cases e) simp
  qed (simp add: vc_inv_def)
  then show ?thesis by (simp add: vc_scan_entries)
qed

text \<open>The nodes whose view-change requests count.\<close>

definition vc_nodes :: "int \<Rightarrow> int \<Rightarrow> req_cache \<Rightarrow> nat set" where
  "vc_nodes toView number c =
     {i. \<exists>v m r. (v, m) \<in> set (m_recvViewChangeReq c) \<and> v > toView \<and> (i, r) \<in> set m \<and> height r \<ge> number}"

lemma set_vc_entries:
  "(v, i, r) \<in> set (vc_entries toView cache) \<longleftrightarrow> (\<exists>m. (v, m) \<in> set cache \<and> v > toView \<and> (i, r) \<in> set m)"
  by (force simp: vc_entries_def split: if_splits)

lemma canTrigger_count:
  "fst (canTriggerViewChange f toView number consensus c) \<Longrightarrow> f < card (vc_nodes toView number c) mod 2 ^ 16"
proof -
  assume trig: "fst (canTriggerViewChange f toView number consensus c)"
  obtain iv mv mh where scan: "vc_scan toView number (m_recvViewChangeReq c) = (iv, mv, mh)" by (metis prod_cases3)
  have "amap_ok iv" "fst ` set iv = vc_nodes toView number c"
    using vc_inv_scan [of number toView "m_recvViewChangeReq c"]
    by (auto simp: vc_inv_def scan vc_nodes_def set_vc_entries)
  then have "length iv = card (vc_nodes toView number c)"
    by (metis amap_ok_def distinct_card length_map list.set_map)
  with trig show ?thesis by (simp add: canTriggerViewChange_def scan Let_def)
qed

lemma canTrigger_minView:
  assumes "fst (canTriggerViewChange f toView number consensus c)" "reqcache_ok c"
  shows "toView < snd (canTriggerViewChange f toView number consensus c)"
proof -
  obtain iv mv mh where scan: "vc_scan toView number (m_recvViewChangeReq c) = (iv, mv, mh)" by (metis prod_cases3)
  have inv: "mv = MAXVIEW \<or> mv \<in> fst ` set (vc_entries toView (m_recvViewChangeReq c))"
    using vc_inv_scan [of number toView "m_recvViewChangeReq c"] by (simp add: vc_inv_def scan)
  have "vc_nodes toView number c \<noteq> {}" using canTrigger_count [OF assms(1)] by (metis card.empty mod_0 not_less0)
  then obtain v m i r where e: "(v, m) \<in> set (m_recvViewChangeReq c)" "v > toView" "(i, r) \<in> set m"
    by (auto simp: vc_nodes_def)
  then have "v \<le> MAXVIEW"
    using assms(2) by (fastforce simp: reqcache_ok_def nested_ok_def viewchange_ok_def)
  with e(2) inv show ?thesis by (auto simp: canTriggerViewChange_def scan Let_def set_vc_entries)
qed

text \<open>
  C23. A fast view change needs more than \<open>f\<close> nodes: when \<open>canTriggerViewChange\<close> answers yes, more than \<open>f\<close> different
  nodes (counted modulo \<open>2^16\<close>, the width of the counter) have asked for a view beyond the target view at a
  height that is not behind the chain, whatever the iteration order of the cache; and the least view it reports is beyond the target view.
\<close>

theorem viewchange_quorum:
  assumes "reqcache_ok c" "canTriggerViewChange f toView number consensus c = (True, minView)"
  shows "f < card (vc_nodes toView number c) mod 2 ^ 16 \<and> toView < minView"
  using canTrigger_count [of f toView number consensus c] canTrigger_minView [of f toView number consensus c] assms by simp

theorem viewchange_quorum_witness:
  "0 < card (vc_nodes 0 3 (addViewChangeReq (pbftmsg_new\<lparr>view := 2, idx := 1, height := 4\<rparr>) req_cache_new)) mod 2 ^ 16 \<and> (0::int) < 2"
proof (rule viewchange_quorum)
  show "reqcache_ok (addViewChangeReq (pbftmsg_new\<lparr>view := 2, idx := 1, height := 4\<rparr>) req_cache_new)"
    by (intro reqcache_rules) (simp add: MAXVIEW_def)
  show "canTriggerViewChange 0 0 3 9 (addViewChangeReq (pbftmsg_new\<lparr>view := 2, idx := 1, height := 4\<rparr>) req_cache_new) = (True, 2)"
    by (simp add: canTriggerViewChange_def vc_scan_def vc_entry_def addViewChangeReq_def nested_set_def req_cache_new_def
        pbftmsg_new_def prepare_new_def MAXVIEW_def INT64_MAX_def Let_def)
qed

end
