(* ===== verification/Effects.thy ===== *)
theory Effects
  imports BcosPrelude
begin

text \<open>
  Methods that change an object and may throw: a function from the state to a result and the new state.
  An exception keeps the changes made before it, as in the C++ code. The predicate \<open>keeps\<close> says that an
  invariant holds again after a method, whether it returns or throws; its rules follow the
  combinators, so the preservation proof of a handler is one application of the collection \<open>keeps_rules\<close>.
\<close>

named_theorems keeps_rules \<open>preservation of an invariant by a method\<close>
named_theorems run_simps \<open>evaluation of methods\<close>

type_synonym ('s, 'e, 'a) action = "'s \<Rightarrow> ('e + 'a) \<times> 's"

definition bindM :: "('s, 'e, 'a) action \<Rightarrow> ('a \<Rightarrow> ('s, 'e, 'b) action) \<Rightarrow> ('s, 'e, 'b) action" where
  "bindM m f s = (case m s of (Inl e, s') \<Rightarrow> (Inl e, s') | (Inr x, s') \<Rightarrow> f x s')"

definition returnM :: "'a \<Rightarrow> ('s, 'e, 'a) action" where
  "returnM x s = (Inr x, s)"

definition throwM :: "'e \<Rightarrow> ('s, 'e, 'a) action" where
  "throwM e s = (Inl e, s)"

definition getM :: "('s \<Rightarrow> 'a) \<Rightarrow> ('s, 'e, 'a) action" where
  "getM f s = (Inr (f s), s)"

definition modifyM :: "('s \<Rightarrow> 's) \<Rightarrow> ('s, 'e, unit) action" where
  "modifyM f s = (Inr (), f s)"

text \<open>A computation that may throw but does not touch the state.\<close>

definition liftM :: "'e + 'a \<Rightarrow> ('s, 'e, 'a) action" where
  "liftM r s = (r, s)"

text \<open>A component of the state changed by a function that also returns a value.\<close>

definition updateM :: "('s \<Rightarrow> 'a \<times> 's) \<Rightarrow> ('s, 'e, 'a) action" where
  "updateM f s = (let (x, s') = f s in (Inr x, s'))"

definition seqM :: "('s, 'e, unit) action \<Rightarrow> ('s, 'e, 'b) action \<Rightarrow> ('s, 'e, 'b) action" where
  "seqM m k = bindM m (\<lambda>_. k)"

text \<open>\<open>try ... catch (std::exception&)\<close>.\<close>

definition catchM :: "('s, 'e, 'a) action \<Rightarrow> ('e \<Rightarrow> ('s, 'e, 'a) action) \<Rightarrow> ('s, 'e, 'a) action" where
  "catchM m h s = (case m s of (Inl e, s') \<Rightarrow> h e s' | (Inr x, s') \<Rightarrow> (Inr x, s'))"

definition whenM :: "bool \<Rightarrow> ('s, 'e, unit) action \<Rightarrow> ('s, 'e, unit) action" where
  "whenM b m = (if b then m else returnM ())"

fun forM :: "'a list \<Rightarrow> ('a \<Rightarrow> ('s, 'e, unit) action) \<Rightarrow> ('s, 'e, unit) action" where
  "forM [] f = returnM ()"
| "forM (x # xs) f = bindM (f x) (\<lambda>_. forM xs f)"

lemmas method_defs = bindM_def returnM_def throwM_def getM_def modifyM_def liftM_def updateM_def catchM_def whenM_def seqM_def

lemma run_return [run_simps]: "returnM x s = (Inr x, s)"
  and run_throw [run_simps]: "throwM e s = (Inl e, s)"
  and run_get [run_simps]: "getM f s = (Inr (f s), s)"
  and run_modify [run_simps]: "modifyM g s = (Inr (), g s)"
  and run_lift [run_simps]: "liftM r s = (r, s)"
  by (simp_all add: method_defs)

lemma run_bind_get [run_simps]: "bindM (getM f) k s = k (f s) s"
  and run_bind_return [run_simps]: "bindM (returnM x) k s = k x s"
  and run_bind_throw [run_simps]: "bindM (throwM e) k s = (Inl e, s)"
  and run_bind_modify [run_simps]: "bindM (modifyM g) k s = k () (g s)"
  and run_bind_lift_Inr [run_simps]: "bindM (liftM (Inr y)) k s = k y s"
  and run_bind_lift_Inl [run_simps]: "bindM (liftM (Inl e)) k s = (Inl e, s)"
  and run_seq_modify [run_simps]: "seqM (modifyM g) m s = m (g s)"
  by (simp_all add: method_defs)

lemma run_bind [run_simps]: "m s = (Inr x, s') \<Longrightarrow> bindM m f s = f x s'"
  and run_bind_Inl: "m s = (Inl e, s') \<Longrightarrow> bindM m f s = (Inl e, s')"
  by (simp_all add: bindM_def)

lemma run_seq: "m s = (Inr (), s') \<Longrightarrow> seqM m k s = k s'"
  by (simp add: method_defs)

lemma bindM_assoc: "bindM (bindM m f) g = bindM m (\<lambda>x. bindM (f x) g)"
  by (auto simp: bindM_def fun_eq_iff split: prod.splits sum.splits)

section \<open>Invariants of methods\<close>

definition keeps :: "('s \<Rightarrow> bool) \<Rightarrow> ('s, 'e, 'a) action \<Rightarrow> bool" where
  "keeps I m \<longleftrightarrow> (\<forall>s. I s \<longrightarrow> I (snd (m s)))"

lemma keepsI: "(\<And>s. I s \<Longrightarrow> I (snd (m s))) \<Longrightarrow> keeps I m"
  by (simp add: keeps_def)

lemma keepsD: "keeps I m \<Longrightarrow> I s \<Longrightarrow> m s = (r, s') \<Longrightarrow> I s'"
  by (metis keeps_def snd_conv)

lemma keeps_bind [keeps_rules]: "keeps I m \<Longrightarrow> (\<And>x. keeps I (f x)) \<Longrightarrow> keeps I (bindM m f)"
  by (auto simp: keeps_def bindM_def split: prod.splits sum.splits)

lemma keeps_seq [keeps_rules]: "keeps I m \<Longrightarrow> keeps I k \<Longrightarrow> keeps I (seqM m k)"
  by (simp add: seqM_def keeps_bind)

lemma keeps_return [keeps_rules]: "keeps I (returnM x)"
  and keeps_throw [keeps_rules]: "keeps I (throwM e)"
  and keeps_get [keeps_rules]: "keeps I (getM f)"
  and keeps_lift [keeps_rules]: "keeps I (liftM r)"
  by (simp_all add: keeps_def method_defs)

lemma keeps_modify: "(\<And>s. I s \<Longrightarrow> I (f s)) \<Longrightarrow> keeps I (modifyM f)"
  by (simp add: keeps_def method_defs)

lemma keeps_update: "(\<And>s. I s \<Longrightarrow> I (snd (f s))) \<Longrightarrow> keeps I (updateM f)"
  by (auto simp: keeps_def method_defs split: prod.splits) (metis snd_conv)

lemma keeps_catch [keeps_rules]: "keeps I m \<Longrightarrow> (\<And>e. keeps I (h e)) \<Longrightarrow> keeps I (catchM m h)"
  by (auto simp: keeps_def catchM_def split: prod.splits sum.splits)

lemma keeps_when [keeps_rules]: "(b \<Longrightarrow> keeps I m) \<Longrightarrow> keeps I (whenM b m)"
  by (simp add: whenM_def keeps_return)

lemma keeps_if [keeps_rules]: "(b \<Longrightarrow> keeps I m) \<Longrightarrow> (\<not> b \<Longrightarrow> keeps I k) \<Longrightarrow> keeps I (if b then m else k)"
  by simp

lemma keeps_for [keeps_rules]: "(\<And>x. x \<in> set xs \<Longrightarrow> keeps I (f x)) \<Longrightarrow> keeps I (forM xs f)"
  by (induction xs) (auto intro: keeps_bind keeps_return)

text \<open>A test of the state may be used to preserve the invariant.\<close>

lemma keeps_get_bind: "(\<And>x. keeps (\<lambda>s. I s) (\<lambda>s. if f s = x then g x s else (Inl undefined, s))) \<Longrightarrow> keeps I (bindM (getM f) g)"
  by (auto simp: keeps_def method_defs) (metis (full_types))

text \<open>A value read from the state stems from a state that satisfies the invariant.\<close>

lemma keeps_bind_get: "(\<And>t. I t \<Longrightarrow> keeps I (g (f t))) \<Longrightarrow> keeps I (bindM (getM f) g)"
  by (simp add: keeps_def method_defs)

lemma keeps_case_prod [keeps_rules]: "(\<And>a b. x = (a, b) \<Longrightarrow> keeps I (f a b)) \<Longrightarrow> keeps I (case x of (a, b) \<Rightarrow> f a b)"
  by (cases x) simp

lemma keeps_case_option [keeps_rules]:
  "(x = None \<Longrightarrow> keeps I m) \<Longrightarrow> (\<And>a. x = Some a \<Longrightarrow> keeps I (f a)) \<Longrightarrow> keeps I (case x of None \<Rightarrow> m | Some a \<Rightarrow> f a)"
  by (cases x) simp_all

end
