(* ===== verification/ConsensusBase.thy ===== *)
theory ConsensusBase
  imports PBFTReqCache Effects
begin

text \<open>
  The base class of the consensus engines (\<open>libconsensus/ConsensusEngineBase.h\<close> and \<open>.cpp\<close>) and the interfaces
  it calls. The block chain, the block verifier and the network are reached through the record \<open>env\<close>, whose
  functions read or change a world of type \<open>'w\<close>; calls that only notify another component are recorded in order as effects.
\<close>

section \<open>Protocol identifiers\<close>

text \<open>Group and module share an identifier of 16 bits (\<open>libethcore/Protocol.h\<close>).\<close>

definition getGroupProtoclID :: "int \<Rightarrow> nat \<Rightarrow> int" where
  "getGroupProtoclID groupID moduleID = (if groupID < 0 then 0 else groupID * 256 + int moduleID)"

text \<open>The pair is narrowed to \<open>int8_t\<close> and \<open>uint8_t\<close>.\<close>

definition getGroupAndProtocol :: "int \<Rightarrow> int \<times> nat" where
  "getGroupAndProtocol ident =
     (let g = ident div 256 mod 256 in (if g < 128 then g else g - 256, nat (ident mod 256)))"

lemma group_protocol_roundtrip:
  "0 \<le> g \<Longrightarrow> g < 128 \<Longrightarrow> m < 256 \<Longrightarrow> getGroupAndProtocol (getGroupProtoclID g m) = (g, m)"
  by (simp add: getGroupAndProtocol_def getGroupProtoclID_def Let_def)

section \<open>The surroundings of an engine\<close>

datatype account_type = ObserverAccount | MinerAccount

datatype commit_result = OK | ERROR_NUMBER | ERROR_PARENT_HASH | ERROR_COMMITTING

datatype consensus_error =
    DisabledFutureTime | InvalidBlockHeight | ExistedBlock | ParentNoneExist | BlockMinerListWrong
  | NotEnoughAvailableSpace | BadLexicalCast | NullBlock
  | EthError eth_error | SigListError siglist_error | VerifierError string | ChainError string

definition liftEth :: "eth_error + 'a \<Rightarrow> consensus_error + 'a" where
  "liftEth m = (case m of Inl e \<Rightarrow> Inl (EthError e) | Inr x \<Rightarrow> Inr x)"

definition liftRlp :: "rlp_error + 'a \<Rightarrow> consensus_error + 'a" where
  "liftRlp m = liftEth (liftR m)"

lemma liftEth_simps [simp, result_simps]: "liftEth (Inr x) = Inr x" "liftEth (Inl e) = Inl (EthError e)"
  by (simp_all add: liftEth_def)

lemma liftRlp_simps [simp, result_simps]: "liftRlp (Inr x) = Inr x" "liftRlp (Inl e) = Inl (EthError (RLPError e))"
  by (simp_all add: liftRlp_def)

text \<open>
  What the engines call of the block chain, the block verifier, the network service, the backup database
  (\<open>db_insert\<close> returns false when the database throws) and of Boost's conversions. \<open>sessions\<close> are the node ids
  of \<open>sessionInfosByProtocolID\<close>; \<open>utcTime\<close> is read by passing the time \<open>now\<close> to a method, which
  takes all its readings at one instant.
\<close>

record 'w env =
  crypt :: crypto
  bc_number :: "'w \<Rightarrow> int"
  bc_numberHash :: "'w \<Rightarrow> int \<Rightarrow> bytes"
  bc_getBlockByHash :: "'w \<Rightarrow> bytes \<Rightarrow> block option"
  bc_getBlockByNumber :: "'w \<Rightarrow> int \<Rightarrow> block option"
  bc_minerList :: "'w \<Rightarrow> bytes list"
  bc_observerList :: "'w \<Rightarrow> bytes list"
  bc_getSystemConfigByKey :: "'w \<Rightarrow> string \<Rightarrow> int \<Rightarrow> string"
  bc_commitBlock :: "block \<Rightarrow> nat option \<Rightarrow> 'w \<Rightarrow> (consensus_error + commit_result) \<times> 'w"
  bv_executeBlock :: "block \<Rightarrow> bytes \<times> int \<times> bytes \<Rightarrow> 'w \<Rightarrow> (consensus_error + block \<times> nat) \<times> 'w"
  convert_to_size_t :: "nat \<Rightarrow> nat"
  lexical_cast_uint64 :: "string \<Rightarrow> nat option"
  db_insert :: "string \<Rightarrow> string \<Rightarrow> 'w \<Rightarrow> bool \<times> 'w"
  db_lookup :: "'w \<Rightarrow> string \<Rightarrow> string"
  diskSpaceEnough :: "'w \<Rightarrow> bool"
  sessions :: "'w \<Rightarrow> bytes list"
  isConnected :: "'w \<Rightarrow> bytes \<Rightarrow> bool"

datatype effect =
    Send bytes bytes | SetNodeListByGroupID int "bytes list" | NoteSealingBlockNumber int
  | DropBlockTrans block | HandleBadBlock block | CommitBlock block | NotifySignal | OnViewChange
  | StartWorking | StopWorking

record 'w consensus =
  m_consensusBlockNumber :: int
  m_highestBlock :: header
  m_nodeNum :: nat
  m_f :: nat
  m_idx :: nat
  m_protocolId :: int
  m_accountType :: account_type
  m_minerList :: "bytes list"
  m_allowFutureBlocks :: bool
  m_startConsensusEngine :: bool
  m_lastNodeList :: string
  m_secret :: bytes
  m_pub :: bytes
  world :: 'w
  effects :: "effect list"

definition emit :: "effect \<Rightarrow> ('w, 'z) consensus_scheme \<Rightarrow> ('w, 'z) consensus_scheme" where
  "emit e s = s\<lparr>effects := effects s @ [e]\<rparr>"

section \<open>Operations\<close>

definition base_start :: "('w, 'z) consensus_scheme \<Rightarrow> ('w, 'z) consensus_scheme" where
  "base_start s = (if m_startConsensusEngine s then s else (emit StartWorking s)\<lparr>m_startConsensusEngine := True\<rparr>)"

definition base_stop :: "('w, 'z) consensus_scheme \<Rightarrow> ('w, 'z) consensus_scheme" where
  "base_stop s = (if \<not> m_startConsensusEngine s then s else emit StopWorking (s\<lparr>m_startConsensusEngine := False\<rparr>))"

text \<open>\<open>IDXTYPE\<close> is \<open>uint16_t\<close>.\<close>

definition minValidNodes :: "('w, 'z) consensus_scheme \<Rightarrow> nat" where
  "minValidNodes s = nat ((int (m_nodeNum s) - int (m_f s)) mod 2 ^ 16)"

definition getMinerByIndex :: "nat \<Rightarrow> ('w, 'z) consensus_scheme \<Rightarrow> bytes" where
  "getMinerByIndex index s = (if index < length (m_minerList s) then m_minerList s ! index else hash_zero 64)"

definition blockExists :: "'w env \<Rightarrow> bytes \<Rightarrow> ('w, 'z) consensus_scheme \<Rightarrow> bool" where
  "blockExists E h s \<longleftrightarrow> bc_getBlockByHash E (world s) h \<noteq> None"

text \<open>
  \<open>checkBlockValid\<close>. The last test of the source, a parent hash that differs from the chain's hash of
  the previous number, only writes a log entry.
\<close>

definition base_checkBlockValid :: "'w env \<Rightarrow> nat \<Rightarrow> block \<Rightarrow> ('w, 'z) consensus_scheme \<Rightarrow> consensus_error + unit" where
  "base_checkBlockValid E now b s =
     (let h = m_blockHeader b; block_hash = hashOf (crypt E) h in
      if m_timestamp h > now \<and> \<not> m_allowFutureBlocks s then Inl DisabledFutureTime
      else if m_number h \<le> bc_number E (world s) then Inl InvalidBlockHeight
      else if blockExists E block_hash s then Inl ExistedBlock
      else if \<not> blockExists E (m_parentHash h) s then Inl ParentNoneExist
      else Inr ())"

definition base_executeBlock :: "'w env \<Rightarrow> block \<Rightarrow> (('w, 'z) consensus_scheme, consensus_error, block \<times> nat) action" where
  "base_executeBlock E b =
     bindM (getM (\<lambda>s. bc_getBlockByNumber E (world s) (bc_number E (world s)))) (\<lambda>parent.
       case parent of None \<Rightarrow> throwM NullBlock
       | Some p \<Rightarrow>
           (\<lambda>s. let h = m_blockHeader p in
              case bv_executeBlock E b (hashOf (crypt E) h, m_number h, m_stateRoot h) (world s) of
                (r, w) \<Rightarrow> (r, s\<lparr>world := w\<rparr>)))"

text \<open>The text that is compared to decide whether the network's node list is refreshed.\<close>

definition abridged :: "bytes \<Rightarrow> string" where
  "abridged h = toHex (cropped h 0 4) @ ''...''"

definition node_list_text :: "bytes list \<Rightarrow> bytes list \<Rightarrow> string" where
  "node_list_text miners observers =
     ''[#updateConsensusNodeList] Miners:'' @ concat (map (\<lambda>n. abridged n @ '','') miners)
     @ ''Observers:'' @ concat (map (\<lambda>n. abridged n @ '','') observers)"

definition updateNodeListInP2P :: "'w env \<Rightarrow> ('w, 'z) consensus_scheme \<Rightarrow> ('w, 'z) consensus_scheme" where
  "updateNodeListInP2P E s =
     emit (SetNodeListByGroupID (fst (getGroupAndProtocol (m_protocolId s)))
       (bc_minerList E (world s) @ bc_observerList E (world s))) s"

text \<open>Node ids are compared as byte strings, so every node sorts the miners alike.\<close>

definition updateConsensusNodeList :: "'w env \<Rightarrow> ('w, 'z) consensus_scheme \<Rightarrow> ('w, 'z) consensus_scheme" where
  "updateConsensusNodeList E s =
     (let s1 = s\<lparr>m_minerList := sort (bc_minerList E (world s))\<rparr>;
          txt = node_list_text (m_minerList s1) (bc_observerList E (world s))
      in if m_lastNodeList s1 \<noteq> txt then (updateNodeListInP2P E s1)\<lparr>m_lastNodeList := txt\<rparr> else s1)"

definition base_resetConfig :: "('w, 'z) consensus_scheme \<Rightarrow> ('w, 'z) consensus_scheme" where
  "base_resetConfig s = s\<lparr>m_nodeNum := length (m_minerList s) mod 2 ^ 16\<rparr>"

definition dropHandledTransactions :: "block \<Rightarrow> ('w, 'z) consensus_scheme \<Rightarrow> ('w, 'z) consensus_scheme" where
  "dropHandledTransactions b s = emit (DropBlockTrans b) s"

lemma hash_less_lex: "length a = length b \<Longrightarrow> hash_less a b \<longleftrightarrow> a < b"
  by (induction a b rule: hash_less.induct) auto

section \<open>Quorums\<close>

text \<open>
  What an engine relies on when it counts votes of distinct nodes: two quorums share more than \<open>faulty\<close> nodes, and the nodes
  that are not faulty form a quorum.
\<close>

locale vote_quorum =
  fixes nodes :: "nat set" and quorum :: "nat set \<Rightarrow> bool" and faulty :: nat
  assumes overlap: "quorum Q \<Longrightarrow> quorum R \<Longrightarrow> Q \<subseteq> nodes \<Longrightarrow> R \<subseteq> nodes \<Longrightarrow> faulty < card (Q \<inter> R)"
    and live: "F \<subseteq> nodes \<Longrightarrow> card F \<le> faulty \<Longrightarrow> quorum (nodes - F)"
    and finite_nodes: "finite nodes"
begin

text \<open>Two quorums share a node outside any set of \<open>faulty\<close> nodes.\<close>

lemma honest_overlap:
  assumes "quorum Q" "quorum R" "Q \<subseteq> nodes" "R \<subseteq> nodes" "card F \<le> faulty" "finite F"
  shows "\<exists>i. i \<in> Q \<and> i \<in> R \<and> i \<notin> F"
proof (rule ccontr)
  assume "\<not> ?thesis"
  then have "Q \<inter> R \<subseteq> F" by auto
  then have "card (Q \<inter> R) \<le> card F" using assms(6) by (rule card_mono [rotated])
  with overlap [OF assms(1-4)] assms(5) show False by simp
qed

text \<open>If honest nodes vote for at most one value, two quorums cannot be for different values.\<close>

lemma agreement:
  assumes "quorum {i \<in> nodes. voted i a}" "quorum {i \<in> nodes. voted i b}" "card F \<le> faulty" "finite F"
    and "\<And>i. i \<in> nodes \<Longrightarrow> i \<notin> F \<Longrightarrow> voted i a \<Longrightarrow> voted i b \<Longrightarrow> a = b"
  shows "a = b"
  using honest_overlap [OF assms(1,2) _ _ assms(3,4)] assms(5) by auto

end

lemma quorum_overlap:
  fixes n :: nat
  assumes "Q \<subseteq> {..<n}" "R \<subseteq> {..<n}" "n - (n - 1) div 3 \<le> card Q" "n - (n - 1) div 3 \<le> card R" "0 < n"
  shows "(n - 1) div 3 < card (Q \<inter> R)"
proof -
  have "card (Q \<union> R) \<le> n" using assms(1,2) card_mono [of "{..<n}" "Q \<union> R"] by simp
  moreover have "card Q + card R = card (Q \<union> R) + card (Q \<inter> R)"
    using assms(1,2) by (intro card_Un_Int) (auto intro: finite_subset)
  ultimately show ?thesis using assms(3-5) by arith
qed

text \<open>The interface holds for the engine's threshold on \<open>n + 1\<close> nodes.\<close>

definition vote_threshold :: "nat \<Rightarrow> nat" where
  "vote_threshold n = n - (n - 1) div 3"

interpretation bft: vote_quorum "{..<Suc n}" "\<lambda>Q. vote_threshold (Suc n) \<le> card Q" "n div 3" for n
proof
  show "vote_threshold (Suc n) \<le> card ({..<Suc n} - F)" if "F \<subseteq> {..<Suc n}" "card F \<le> n div 3" for F
    using that card_Diff_subset [of F "{..<Suc n}"] by (simp add: vote_threshold_def finite_subset [of F])
  show "n div 3 < card (Q \<inter> R)"
    if "vote_threshold (Suc n) \<le> card Q" "vote_threshold (Suc n) \<le> card R" "Q \<subseteq> {..<Suc n}" "R \<subseteq> {..<Suc n}" for Q R
    using quorum_overlap [of Q "Suc n" R] that by (simp add: vote_threshold_def)
qed simp

end
