(* ===== verification/PBFTMsgCache.thy ===== *)
theory PBFTMsgCache
  imports PBFTMsg
begin

text \<open>
  The memory of already seen and already sent consensus packets: the \<open>QueueSet\<close> of
  \<open>libdevcore/Common.h\<close> and the per-node caches of \<open>libconsensus/pbft/PBFTMsgCache.h\<close>. The locale
  \<open>fifo_set\<close> states what the caches rely on of a queue without duplicates; its clients' lemmas are proved
  in it and reach the caches through the interpretation on \<open>QueueSet\<close>.
\<close>

section \<open>QueueSet\<close>

record 'a queue_set =
  m_set :: "'a set"
  m_queue :: "'a list"

definition queue_set_new :: "'a queue_set" where
  "queue_set_new = \<lparr>m_set = {}, m_queue = []\<rparr>"

definition qs_push :: "'a \<Rightarrow> 'a queue_set \<Rightarrow> bool \<times> 'a queue_set" where
  "qs_push t q =
     (if t \<notin> m_set q then (True, q\<lparr>m_set := insert t (m_set q), m_queue := m_queue q @ [t]\<rparr>) else (False, q))"

definition qs_pop :: "'a queue_set \<Rightarrow> bool \<times> 'a queue_set" where
  "qs_pop q =
     (case m_queue q of [] \<Rightarrow> (False, q)
      | t # ts \<Rightarrow> (True, q\<lparr>m_set := m_set q - {t}, m_queue := ts\<rparr>))"

definition qs_exist :: "'a queue_set \<Rightarrow> 'a \<Rightarrow> bool" where
  "qs_exist q t \<longleftrightarrow> t \<in> m_set q"

definition qs_size :: "'a queue_set \<Rightarrow> nat" where
  "qs_size q = card (m_set q)"

definition qs_clear :: "'a queue_set \<Rightarrow> 'a queue_set" where
  "qs_clear q = q\<lparr>m_set := {}, m_queue := []\<rparr>"

text \<open>The set and the queue always hold the same elements.\<close>

definition queue_set_ok :: "'a queue_set \<Rightarrow> bool" where
  "queue_set_ok q \<longleftrightarrow> distinct (m_queue q) \<and> m_set q = set (m_queue q)"

section \<open>The caches of one node\<close>

record msg_cache =
  m_knownPrepare :: "string queue_set"
  m_knownSign :: "string queue_set"
  m_knownCommit :: "string queue_set"
  m_knownViewChange :: "string queue_set"

definition msg_cache_new :: msg_cache where
  "msg_cache_new = \<lparr>m_knownPrepare = queue_set_new, m_knownSign = queue_set_new, m_knownCommit = queue_set_new,
     m_knownViewChange = queue_set_new\<rparr>"

definition c_known :: nat where "c_known = 1024"

definition insertMessage :: "nat \<Rightarrow> 'a \<Rightarrow> 'a queue_set \<Rightarrow> 'a queue_set" where
  "insertMessage maxCacheSize key q =
     snd (qs_push key (if qs_size q > maxCacheSize then snd (qs_pop q) else q))"

definition insertByPacketType :: "nat \<Rightarrow> string \<Rightarrow> msg_cache \<Rightarrow> bool \<times> msg_cache" where
  "insertByPacketType type key c =
     (if type = PrepareReqPacket then (True, c\<lparr>m_knownPrepare := insertMessage c_known key (m_knownPrepare c)\<rparr>)
      else if type = SignReqPacket then (True, c\<lparr>m_knownSign := insertMessage c_known key (m_knownSign c)\<rparr>)
      else if type = CommitReqPacket then (True, c\<lparr>m_knownCommit := insertMessage c_known key (m_knownCommit c)\<rparr>)
      else if type = ViewChangeReqPacket then (True, c\<lparr>m_knownViewChange := insertMessage c_known key (m_knownViewChange c)\<rparr>)
      else (False, c))"

definition cache_exists :: "nat \<Rightarrow> string \<Rightarrow> msg_cache \<Rightarrow> bool" where
  "cache_exists type key c =
     (if type = PrepareReqPacket then qs_exist (m_knownPrepare c) key
      else if type = SignReqPacket then qs_exist (m_knownSign c) key
      else if type = CommitReqPacket then qs_exist (m_knownCommit c) key
      else if type = ViewChangeReqPacket then qs_exist (m_knownViewChange c) key
      else False)"

definition msg_cache_clearAll :: "msg_cache \<Rightarrow> msg_cache" where
  "msg_cache_clearAll c =
     c\<lparr>m_knownPrepare := qs_clear (m_knownPrepare c), m_knownSign := qs_clear (m_knownSign c),
       m_knownCommit := qs_clear (m_knownCommit c), m_knownViewChange := qs_clear (m_knownViewChange c)\<rparr>"

section \<open>The caches of all nodes\<close>

type_synonym broadcast_cache = "(bytes, msg_cache) amap"

definition insertKey :: "bytes \<Rightarrow> nat \<Rightarrow> string \<Rightarrow> broadcast_cache \<Rightarrow> bool \<times> broadcast_cache" where
  "insertKey nodeId type key m =
     (let c = (case map_of m nodeId of None \<Rightarrow> msg_cache_new | Some c \<Rightarrow> c);
          (r, c') = insertByPacketType type key c
      in (r, amap_set nodeId c' m))"

definition keyExists :: "bytes \<Rightarrow> nat \<Rightarrow> string \<Rightarrow> broadcast_cache \<Rightarrow> bool" where
  "keyExists nodeId type key m =
     (case map_of m nodeId of None \<Rightarrow> False | Some c \<Rightarrow> cache_exists type key c)"

definition broadcast_clearAll :: "broadcast_cache \<Rightarrow> broadcast_cache" where
  "broadcast_clearAll m = map (\<lambda>(n, c). (n, msg_cache_clearAll c)) m"

section \<open>Bounded first-in-first-out sets\<close>

text \<open>The last elements of a list.\<close>

definition lastn :: "nat \<Rightarrow> 'a list \<Rightarrow> 'a list" where
  "lastn n xs = drop (length xs - n) xs"

lemma lastn_snoc: "lastn (Suc n) (xs @ [x]) = (if length xs > n then tl (lastn (Suc n) xs) else lastn (Suc n) xs) @ [x]"
  by (auto simp: lastn_def tl_drop drop_Suc [symmetric] Suc_diff_Suc)

lemma length_lastn [simp]: "length (lastn n xs) = min n (length xs)"
  by (simp add: lastn_def)

lemma set_lastn: "set (lastn n xs) \<subseteq> set xs"
  by (simp add: lastn_def set_drop_subset)

locale fifo_set =
  fixes push :: "'a \<Rightarrow> 'q \<Rightarrow> bool \<times> 'q"
    and pop :: "'q \<Rightarrow> bool \<times> 'q"
    and exist :: "'q \<Rightarrow> 'a \<Rightarrow> bool"
    and size_of :: "'q \<Rightarrow> nat"
    and inv :: "'q \<Rightarrow> bool"
    and items :: "'q \<Rightarrow> 'a list"
  assumes push_inv: "inv q \<Longrightarrow> inv (snd (push k q))"
    and push_items: "inv q \<Longrightarrow> items (snd (push k q)) = (if k \<in> set (items q) then items q else items q @ [k])"
    and push_fresh: "inv q \<Longrightarrow> fst (push k q) \<longleftrightarrow> k \<notin> set (items q)"
    and pop_inv: "inv q \<Longrightarrow> inv (snd (pop q))"
    and pop_items: "inv q \<Longrightarrow> items (snd (pop q)) = tl (items q)"
    and exist_items: "inv q \<Longrightarrow> exist q k \<longleftrightarrow> k \<in> set (items q)"
    and size_items: "inv q \<Longrightarrow> size_of q = length (items q)"
begin

lemma bounded_inv:
  "inv q \<Longrightarrow> inv (snd (push k (if size_of q > m then snd (pop q) else q)))"
  by (simp add: push_inv pop_inv)

lemma bounded_items:
  "inv q \<Longrightarrow> items (snd (push k (if size_of q > m then snd (pop q) else q))) =
     (let r = (if length (items q) > m then tl (items q) else items q) in if k \<in> set r then r else r @ [k])"
  by (simp add: push_items pop_items pop_inv size_items Let_def)

lemma bounded_size:
  "inv q \<Longrightarrow> size_of q \<le> Suc m \<Longrightarrow> size_of (snd (push k (if size_of q > m then snd (pop q) else q))) \<le> Suc m"
  by (auto simp: size_items push_items push_inv pop_items pop_inv)

lemma bounded_exist:
  "inv q \<Longrightarrow> exist (snd (push k (if size_of q > m then snd (pop q) else q))) k"
  by (simp add: exist_items push_items push_inv pop_items pop_inv)

text \<open>Inserting fresh keys keeps exactly the most recent ones.\<close>

lemma bounded_lastn:
  assumes "inv q" "items q = lastn (Suc m) ks" "k \<notin> set ks"
  shows "items (snd (push k (if size_of q > m then snd (pop q) else q))) = lastn (Suc m) (ks @ [k])"
proof -
  have "set (items q) \<subseteq> set ks" using assms(2) set_lastn [of "Suc m" ks] by simp
  moreover have "set (tl (items q)) \<subseteq> set (items q)" by (cases "items q") auto
  ultimately have "k \<notin> set (items q)" "k \<notin> set (tl (items q))" using assms(3) by auto
  moreover have "length (items q) > m \<longleftrightarrow> length ks > m" using assms(2) by auto
  ultimately show ?thesis
    unfolding bounded_items [OF assms(1)] lastn_snoc assms(2) [symmetric] by simp
qed

end

interpretation qset: fifo_set qs_push qs_pop qs_exist qs_size queue_set_ok m_queue
  by unfold_locales
    (auto simp: qs_push_def qs_pop_def qs_exist_def qs_size_def queue_set_ok_def distinct_card split: list.splits)

section \<open>The broadcast cache\<close>

text \<open>The queue of one node and packet type.\<close>

definition queue_of :: "nat \<Rightarrow> msg_cache \<Rightarrow> string queue_set" where
  "queue_of type c =
     (if type = PrepareReqPacket then m_knownPrepare c else if type = SignReqPacket then m_knownSign c
      else if type = CommitReqPacket then m_knownCommit c else m_knownViewChange c)"

definition node_queue :: "bytes \<Rightarrow> nat \<Rightarrow> broadcast_cache \<Rightarrow> string queue_set" where
  "node_queue n type m = (case map_of m n of None \<Rightarrow> queue_set_new | Some c \<Rightarrow> queue_of type c)"

definition insert_all :: "(bytes \<times> nat \<times> string) list \<Rightarrow> broadcast_cache \<Rightarrow> broadcast_cache" where
  "insert_all ops m = foldl (\<lambda>m (n, t, k). snd (insertKey n t k m)) m ops"

definition keys_for :: "bytes \<Rightarrow> nat \<Rightarrow> (bytes \<times> nat \<times> string) list \<Rightarrow> string list" where
  "keys_for n t ops = map (snd \<circ> snd) (filter (\<lambda>(n', t', k). n' = n \<and> t' = t) ops)"

lemma packet_type_cases: "t < 4 \<Longrightarrow> t = 0 \<or> t = 1 \<or> t = 2 \<or> t = (3::nat)"
  by arith

lemma insertByPacketType_queue:
  assumes "type < 4" "t < 4"
  shows "queue_of t (snd (insertByPacketType type key c)) =
    (if t = type then insertMessage c_known key (queue_of type c) else queue_of t c)"
  using packet_type_cases [OF assms(1)] packet_type_cases [OF assms(2)]
  by (elim disjE) (simp_all add: insertByPacketType_def queue_of_def packet_types)

lemma insertByPacketType_invalid: "\<not> type < 4 \<Longrightarrow> insertByPacketType type key c = (False, c)"
  by (simp add: insertByPacketType_def packet_types)

lemma queue_of_new [simp]: "queue_of t msg_cache_new = queue_set_new"
  by (simp add: queue_of_def msg_cache_new_def)

lemma insertKey_snd:
  "snd (insertKey n type key m) =
     amap_set n (snd (insertByPacketType type key (case map_of m n of None \<Rightarrow> msg_cache_new | Some c \<Rightarrow> c))) m"
  by (simp add: insertKey_def Let_def split: prod.splits)

lemma node_queue_alt:
  "node_queue n t m = queue_of t (case map_of m n of None \<Rightarrow> msg_cache_new | Some c \<Rightarrow> c)"
  by (simp add: node_queue_def split: option.splits)

lemma node_queue_insertKey:
  assumes "t < 4"
  shows "node_queue n t (snd (insertKey n' type key m)) =
    (if n = n' \<and> t = type then insertMessage c_known key (node_queue n t m) else node_queue n t m)"
proof (cases "type < 4")
  case True
  then show ?thesis
    unfolding insertKey_snd node_queue_alt
    by (cases "n = n'"; cases "t = type") (simp_all add: insertByPacketType_queue [OF True assms] insertByPacketType_queue [OF True True])
next
  case False
  with assms show ?thesis
    unfolding insertKey_snd node_queue_alt by (auto simp: insertByPacketType_invalid)
qed

lemma keyExists_queue: "t < 4 \<Longrightarrow> keyExists n t k m \<longleftrightarrow> qs_exist (node_queue n t m) k"
  using packet_type_cases [of t]
  by (auto simp: keyExists_def node_queue_def cache_exists_def queue_of_def packet_types queue_set_new_def qs_exist_def
      split: option.splits)

lemma insert_all_snoc: "insert_all (ops @ [(n, t, k)]) m = snd (insertKey n t k (insert_all ops m))"
  by (simp add: insert_all_def)

lemma insert_all_queue:
  assumes "t < 4" "distinct (keys_for n t ops)"
  shows "queue_set_ok (node_queue n t (insert_all ops [])) \<and>
    m_queue (node_queue n t (insert_all ops [])) = lastn (Suc c_known) (keys_for n t ops)"
  using assms(2)
proof (induction ops rule: rev_induct)
  case Nil
  then show ?case by (simp add: insert_all_def node_queue_def queue_set_new_def queue_set_ok_def keys_for_def lastn_def)
next
  case (snoc op ops)
  obtain n' t' k where op: "op = (n', t', k)" by (cases op)
  show ?case
  proof (cases "n' = n \<and> t' = t")
    case True
    then have ks: "keys_for n t (ops @ [op]) = keys_for n t ops @ [k]" by (simp add: keys_for_def op)
    then have "distinct (keys_for n t ops)" "k \<notin> set (keys_for n t ops)" using snoc.prems by auto
    with snoc.IH have q: "queue_set_ok (node_queue n t (insert_all ops []))"
        "m_queue (node_queue n t (insert_all ops [])) = lastn (Suc c_known) (keys_for n t ops)" "k \<notin> set (keys_for n t ops)"
      by simp_all
    have "queue_set_ok (insertMessage c_known k (node_queue n t (insert_all ops [])))"
      "m_queue (insertMessage c_known k (node_queue n t (insert_all ops []))) = lastn (Suc c_known) (keys_for n t ops @ [k])"
      unfolding insertMessage_def by (rule qset.bounded_inv [OF q(1)], rule qset.bounded_lastn [OF q])
    then show ?thesis
      using True assms(1) unfolding ks unfolding op insert_all_snoc by (simp add: node_queue_insertKey)
  next
    case False
    then have "keys_for n t (ops @ [op]) = keys_for n t ops" by (auto simp: keys_for_def op)
    with snoc False assms(1) show ?thesis unfolding op insert_all_snoc by (auto simp: node_queue_insertKey)
  qed
qed



end
