(* ===== verification/TimeManager.thy ===== *)
theory TimeManager
  imports BcosPrelude Complex_Main "HOL-Library.Log_Nat"
begin

text \<open>
  The timers of PBFT: \<open>libconsensus/pbft/TimeManager.h\<close>. Unsigned subtraction wraps as in the source; floating-point
  values are rationals rounded to the nearest value with 53 (\<open>double\<close>) or 24 (\<open>float\<close>) significant bits, ties to even,
  with an unbounded exponent.
\<close>

section \<open>Rounding\<close>

definition round_even :: "rat \<Rightarrow> int" where
  "round_even x =
     (let n = \<lfloor>x\<rfloor>; r = x - of_int n
      in if r < 1 / 2 then n else if r > 1 / 2 then n + 1 else if even n then n else n + 1)"

definition expo :: "rat \<Rightarrow> int" where
  "expo x =
     (let (a, b) = quotient_of x; l = int (floorlog 2 (nat a)) - int (floorlog 2 (nat b))
      in if x < power_int 2 l then l - 1 else l)"

text \<open>Only non-negative values occur.\<close>

definition rounded :: "nat \<Rightarrow> rat \<Rightarrow> rat" where
  "rounded p x =
     (if x \<le> 0 then 0
      else let ulp = power_int 2 (expo x - int p + 1) in of_int (round_even (x / ulp)) * ulp)"

section \<open>The timers\<close>

record time_manager =
  m_lastExecFinishTime :: nat
  m_viewTimeout :: nat
  m_changeCycle :: nat
  m_lastSignTime :: nat
  m_lastConsensusTime :: nat
  m_intervalBlockTime :: nat
  m_lastGarbageCollection :: nat
  m_execTimePerTx :: rat

definition kMaxChangeCycle :: nat where "kMaxChangeCycle = 20"

definition CollectInterval :: nat where "CollectInterval = 60"

definition time_manager_new :: time_manager where
  "time_manager_new = \<lparr>m_lastExecFinishTime = 0, m_viewTimeout = 0, m_changeCycle = 0, m_lastSignTime = 0,
     m_lastConsensusTime = 0, m_intervalBlockTime = 1000, m_lastGarbageCollection = 0, m_execTimePerTx = 0\<rparr>"

text \<open>\<open>uint64_t\<close> subtraction.\<close>

definition sub64 :: "nat \<Rightarrow> nat \<Rightarrow> nat" where
  "sub64 a b = nat ((int a - int b) mod 2 ^ 64)"

definition initTimerManager :: "nat \<Rightarrow> nat \<Rightarrow> time_manager \<Rightarrow> time_manager" where
  "initTimerManager now view_timeout t =
     t\<lparr>m_lastExecFinishTime := now, m_lastConsensusTime := now, m_lastSignTime := 0, m_viewTimeout := view_timeout,
       m_changeCycle := 0, m_lastGarbageCollection := now\<rparr>"

definition changeView :: "time_manager \<Rightarrow> time_manager" where
  "changeView t = t\<lparr>m_lastConsensusTime := 0, m_lastSignTime := 0\<rparr>"

definition updateChangeCycle :: "time_manager \<Rightarrow> time_manager" where
  "updateChangeCycle t = t\<lparr>m_changeCycle := min (m_changeCycle t + 1) kMaxChangeCycle\<rparr>"

definition timeout_interval :: "time_manager \<Rightarrow> nat" where
  "timeout_interval t = nat \<lfloor>rounded 53 (of_nat (m_viewTimeout t) * rounded 53 ((3 / 2) ^ m_changeCycle t))\<rfloor>"

definition isTimeout :: "nat \<Rightarrow> time_manager \<Rightarrow> bool" where
  "isTimeout now t \<longleftrightarrow> sub64 now (max (m_lastConsensusTime t) (m_lastSignTime t)) \<ge> timeout_interval t"

definition updateTimeAfterHandleBlock :: "nat \<Rightarrow> nat \<Rightarrow> nat \<Rightarrow> time_manager \<Rightarrow> time_manager" where
  "updateTimeAfterHandleBlock now txNum startExecTime t =
     (let t1 = t\<lparr>m_lastExecFinishTime := now\<rparr> in
      if txNum \<noteq> 0 then
        let perTx = rounded 24 (rounded 24 (of_nat (sub64 now startExecTime)) / rounded 24 (of_nat txNum));
            avg = rounded 24 (rounded 24 (m_execTimePerTx t + perTx) / 2);
            limit = rounded 24 (of_nat (m_intervalBlockTime t))
        in t1\<lparr>m_execTimePerTx := (if avg \<ge> limit then limit else avg)\<rparr>
      else t1)"

text \<open>\<open>passed_time\<close> is a 32-bit \<open>unsigned\<close>, \<open>left_time\<close> an \<open>int\<close>.\<close>

definition passed_time :: "nat \<Rightarrow> int \<Rightarrow> time_manager \<Rightarrow> nat" where
  "passed_time now v t =
     (if v \<noteq> 0 then sub64 now (m_lastConsensusTime t)
      else if sub64 (m_lastConsensusTime t) (m_lastExecFinishTime t) \<ge> m_intervalBlockTime t
      then sub64 now (m_lastConsensusTime t)
      else sub64 now (m_lastExecFinishTime t)) mod 2 ^ 32"

definition left_time :: "nat \<Rightarrow> int \<Rightarrow> time_manager \<Rightarrow> int" where
  "left_time now v t =
     (if passed_time now v t < m_intervalBlockTime t
      then let d = m_intervalBlockTime t - passed_time now v t in if d < 2 ^ 31 then int d else int d - 2 ^ 32
      else 0)"

definition calculateMaxPackTxNum :: "nat \<Rightarrow> nat \<Rightarrow> int \<Rightarrow> time_manager \<Rightarrow> nat" where
  "calculateMaxPackTxNum now defaultMaxTxNum v t =
     (if m_execTimePerTx t \<noteq> 0 then
        let left = left_time now v t;
            n = nat \<lfloor>rounded 24 (rounded 24 (of_int left) / m_execTimePerTx t)\<rfloor>;
            n1 = (if left > 0 \<and> rounded 24 (of_int left) < m_execTimePerTx t then 1 else n)
        in if n1 > defaultMaxTxNum then defaultMaxTxNum else n1
      else defaultMaxTxNum)"

section \<open>Exactness\<close>

lemma round_even_of_int [simp]: "round_even (of_int n) = n"
  by (simp add: round_even_def)

lemma expo_lower:
  assumes "x > 0"
  shows "power_int 2 (expo x) \<le> x"
proof -
  obtain a b where q: "quotient_of x = (a, b)" by (cases "quotient_of x")
  have b: "b > 0" and x: "x = of_int a / of_int b" using q quotient_of_denom_pos quotient_of_div by blast+
  have a: "a > 0" using assms b x by (simp add: zero_less_divide_iff)
  define l where "l = int (floorlog 2 (nat a)) - int (floorlog 2 (nat b))"
  have "2 ^ (floorlog 2 (nat a) - 1) \<le> nat a" "nat b < 2 ^ floorlog 2 (nat b)" "floorlog 2 (nat a) > 0"
    using floorlog_bounds [of "nat a" 2] floorlog_bounds [of "nat b" 2] a b by (auto simp: floorlog_def)
  then have "int (2 ^ (floorlog 2 (nat a) - 1)) \<le> a" "b \<le> int (2 ^ floorlog 2 (nat b))" using a b by linarith+
  then have "(2::rat) ^ (floorlog 2 (nat a) - 1) \<le> of_int a" "of_int b \<le> (2::rat) ^ floorlog 2 (nat b)"
    by (metis of_int_le_iff of_int_of_nat_eq of_nat_numeral of_nat_power)+
  then have "2 ^ (floorlog 2 (nat a) - 1) / 2 ^ floorlog 2 (nat b) \<le> x"
    using b x by (simp add: frac_le a less_imp_le)
  moreover have "(2::rat) ^ (floorlog 2 (nat a) - 1) / 2 ^ floorlog 2 (nat b) = power_int 2 (l - 1)"
    using \<open>floorlog 2 (nat a) > 0\<close>
    by (simp add: l_def power_int_diff power_int_minus flip: power_int_of_nat)
  ultimately show ?thesis by (simp add: expo_def q l_def [symmetric] Let_def)
qed

text \<open>A value of at most \<open>p\<close> significant bits is not changed.\<close>

lemma rounded_exact:
  assumes "0 < m" "m < 2 ^ p"
  shows "rounded p (of_nat m / 2 ^ k) = of_nat m / 2 ^ k"
proof -
  let ?x = "of_nat m / 2 ^ k :: rat"
  have pos: "?x > 0" using assms(1) by simp
  have "power_int 2 (expo ?x) \<le> ?x" by (rule expo_lower [OF pos])
  also have "?x < power_int 2 (int p - int k)"
  proof -
    have "(of_nat m :: rat) < 2 ^ p" using assms(2) by (metis of_nat_less_iff of_nat_numeral of_nat_power)
    then show ?thesis by (simp add: power_int_diff divide_strict_right_mono)
  qed
  finally have "(power_int 2 (expo ?x) :: rat) < power_int 2 (int p - int k)" .
  then have "expo ?x < int p - int k"
    using power_int_increasing [of "int p - int k" "expo ?x" "2::rat"] by (meson not_le one_le_numeral)
  define d where "d = nat (int p - 1 - int k - expo ?x)"
  have d: "int d = int p - 1 - int k - expo ?x" using \<open>expo ?x < _\<close> by (simp add: d_def)
  let ?u = "power_int 2 (expo ?x - int p + 1) :: rat"
  have "?u = power_int 2 (- int k - int d)" by (simp add: d algebra_simps)
  then have u: "?u = 1 / (2 ^ k * 2 ^ d)"
    by (simp add: power_int_diff power_int_minus field_simps)
  have "?x / ?u = of_int (int m * 2 ^ d)" unfolding u by simp
  then have "round_even (?x / ?u) = int m * 2 ^ d" by (simp only: round_even_of_int)
  then have "of_int (round_even (?x / ?u)) * ?u = ?x" by (simp add: u)
  then show ?thesis using pos unfolding rounded_def Let_def by simp
qed



lemma calculateMaxPackTxNum_le: "calculateMaxPackTxNum now d v t \<le> d"
  by (simp add: calculateMaxPackTxNum_def Let_def)

end
