(* ===== verification/PBFTEngine.thy ===== *)
theory PBFTEngine
  imports ConsensusBase PBFTMsgCache TimeManager
begin

text \<open>
  The PBFT engine: \<open>libconsensus/pbft/PBFTEngine.h\<close> and \<open>.cpp\<close>. The methods run one at a time (each entry point
  takes \<open>m_mutex\<close>), so a run of a node is a sequence of entry-point calls; an exception that leaves a
  method keeps the changes made so far. Reading the clock is the parameter \<open>now\<close>.
\<close>

section \<open>State\<close>

record 'w pbft = "'w consensus" +
  m_view :: int
  m_toView :: int
  m_connectedNode :: nat
  m_cfgErr :: bool
  m_leaderFailed :: bool
  m_omitEmptyBlock :: bool
  m_emptyBlockViewChange :: bool
  m_backupDB :: bool
  m_broadCastCache :: broadcast_cache
  m_reqCache :: req_cache
  m_timeManager :: time_manager
  m_msgQueue :: "pbft_packet list"
  maxTTL :: nat

type_synonym ('w, 'a) eng = "('w pbft, consensus_error, 'a) action"

definition on_cache :: "(req_cache \<Rightarrow> req_cache) \<Rightarrow> 'w pbft \<Rightarrow> 'w pbft" where
  "on_cache f s = s\<lparr>m_reqCache := f (m_reqCache s)\<rparr>"

definition on_time :: "(time_manager \<Rightarrow> time_manager) \<Rightarrow> 'w pbft \<Rightarrow> 'w pbft" where
  "on_time f s = s\<lparr>m_timeManager := f (m_timeManager s)\<rparr>"

section \<open>Decoding in place\<close>

text \<open>
  \<open>populate\<close> assigns field by field, so a message that fails to decode keeps the fields read before the failure.
\<close>

definition populate_m :: "bytes \<Rightarrow> ('a pbftmsg_scheme, rlp_error, unit) action" where
  "populate_m r =
     bindM (liftM (bindE (rlp_at r 0) (toInt 64 Strict))) (\<lambda>h. seqM (modifyM (\<lambda>m. m\<lparr>height := as_int64 h\<rparr>))
    (bindM (liftM (bindE (rlp_at r 1) (toInt 64 Strict))) (\<lambda>v. seqM (modifyM (\<lambda>m. m\<lparr>view := as_int64 v\<rparr>))
    (bindM (liftM (bindE (rlp_at r 2) (toInt 16 Strict))) (\<lambda>i. seqM (modifyM (\<lambda>m. m\<lparr>idx := i\<rparr>))
    (bindM (liftM (bindE (rlp_at r 3) (toInt 256 Strict))) (\<lambda>t. seqM (modifyM (\<lambda>m. m\<lparr>timestamp := t\<rparr>))
    (bindM (liftM (bindE (rlp_at r 4) (toHash 32 VeryStrict))) (\<lambda>b. seqM (modifyM (\<lambda>m. m\<lparr>block_hash := b\<rparr>))
    (bindM (liftM (bindE (rlp_at r 5) (toBytesConstRef LaissezFaire))) (\<lambda>x. seqM (modifyM (\<lambda>m. m\<lparr>sig := hash_of_bytes 65 x\<rparr>))
    (bindM (liftM (bindE (rlp_at r 6) (toBytesConstRef LaissezFaire))) (\<lambda>y. modifyM (\<lambda>m. m\<lparr>sig2 := hash_of_bytes 65 y\<rparr>))))))))))))))"

definition populate_prepare_m :: "bytes \<Rightarrow> (prepare_req, rlp_error, unit) action" where
  "populate_prepare_m r =
     seqM (populate_m r)
       (bindM (liftM (bindE (rlp_at r 7) (toBytes LaissezFaire))) (\<lambda>b. modifyM (\<lambda>m. m\<lparr>block_data := b\<rparr>)))"

text \<open>\<open>decodeToRequests\<close>: the flag and the object, which may be half filled.\<close>

definition decodeToRequests :: "(bytes \<Rightarrow> ('m, rlp_error, unit) action) \<Rightarrow> bytes \<Rightarrow> 'm \<Rightarrow> bool \<times> 'm" where
  "decodeToRequests populate data m =
     (case bindM (liftM (bindE (rlp_open data VeryStrict) (\<lambda>d. rlp_at d 0))) populate m of
        (Inl _, m') \<Rightarrow> (False, m') | (Inr _, m') \<Rightarrow> (True, m'))"

section \<open>Membership, leader and configuration\<close>

text \<open>\<open>-1\<close> is \<open>None\<close>.\<close>

definition getIndexByMiner :: "bytes \<Rightarrow> 'w pbft \<Rightarrow> nat option" where
  "getIndexByMiner nodeId s = find (\<lambda>i. m_minerList s ! i = nodeId) [0..<length (m_minerList s)]"

definition getNodeIDByIndex :: "nat \<Rightarrow> 'w pbft \<Rightarrow> bytes option" where
  "getNodeIDByIndex i s = (let n = getMinerByIndex i s in if n = hash_zero 64 then None else Some n)"

definition getLeader :: "'w pbft \<Rightarrow> nat option" where
  "getLeader s =
     (if m_cfgErr s \<or> m_leaderFailed s \<or> m_sealer (m_highestBlock s) = Invalid256 then None
      else Some (nat ((m_view s + m_number (m_highestBlock s)) mod int (m_nodeNum s)) mod 2 ^ 16))"

definition resetConfig :: "'w env \<Rightarrow> 'w pbft \<Rightarrow> 'w pbft" where
  "resetConfig E s =
     (let s1 = updateConsensusNodeList E (s\<lparr>m_idx := MAXIDX\<rparr>);
          s2 = (case find (\<lambda>i. m_minerList s1 ! i = m_pub s1) [0..<length (m_minerList s1)] of
                  None \<Rightarrow> s1 | Some i \<Rightarrow> s1\<lparr>m_accountType := MinerAccount, m_idx := i mod 2 ^ 16\<rparr>);
          n = length (m_minerList s2) mod 2 ^ 16
      in s2\<lparr>m_nodeNum := n, m_f := (n - 1) div 3, m_cfgErr := (m_idx s2 = MAXIDX)\<rparr>)"

section \<open>Sending\<close>

definition broadcastFilter :: "bytes \<Rightarrow> nat \<Rightarrow> string \<Rightarrow> 'w pbft \<Rightarrow> bool" where
  "broadcastFilter nodeId packetType key s = keyExists nodeId packetType key (m_broadCastCache s)"

definition broadcastMark :: "bytes \<Rightarrow> nat \<Rightarrow> string \<Rightarrow> 'w pbft \<Rightarrow> 'w pbft" where
  "broadcastMark nodeId packetType key s =
     (if keyExists nodeId packetType key (m_broadCastCache s) then s
      else s\<lparr>m_broadCastCache := snd (insertKey nodeId packetType key (m_broadCastCache s))\<rparr>)"

definition clearMask :: "'w pbft \<Rightarrow> 'w pbft" where
  "clearMask s = s\<lparr>m_broadCastCache := broadcast_clearAll (m_broadCastCache s)\<rparr>"

text \<open>The packet's \<open>ttl\<close> is a byte; the receive time is not encoded.\<close>

definition transDataToMessage :: "bytes \<Rightarrow> nat \<Rightarrow> nat \<Rightarrow> 'w pbft \<Rightarrow> rlp_error + bytes" where
  "transDataToMessage data packetType t s =
     packet_encode ((PBFTMsgPacket 0)\<lparr>pkt_data := data, packet_id := packetType mod 2 ^ 8,
       ttl := (if t = 0 then maxTTL s else t mod 2 ^ 8)\<rparr>)"

definition sendTo :: "bytes \<Rightarrow> nat \<Rightarrow> string \<Rightarrow> bytes \<Rightarrow> nat \<Rightarrow> ('w, unit) eng" where
  "sendTo node packetType key data t =
     bindM (getM (transDataToMessage data packetType t)) (\<lambda>r. bindM (liftM (liftRlp r)) (\<lambda>msg.
       modifyM (\<lambda>s. broadcastMark node packetType key (emit (Send node msg) s))))"

definition sendMsg :: "'w env \<Rightarrow> bytes \<Rightarrow> nat \<Rightarrow> string \<Rightarrow> bytes \<Rightarrow> nat \<Rightarrow> ('w, bool) eng" where
  "sendMsg E nodeId packetType key data t =
     bindM (getM (\<lambda>s. s)) (\<lambda>s.
       if getIndexByMiner nodeId s = None then returnM True
       else if broadcastFilter nodeId packetType key s then returnM True
       else if nodeId \<in> set (sessions E (world s)) then seqM (sendTo nodeId packetType key data t) (returnM True)
       else returnM False)"

definition broadcastOne :: "nat \<Rightarrow> string \<Rightarrow> bytes \<Rightarrow> bytes set \<Rightarrow> nat \<Rightarrow> bytes \<Rightarrow> ('w, unit) eng" where
  "broadcastOne packetType key data flt t node =
     bindM (getM (\<lambda>s. s)) (\<lambda>s.
       if getIndexByMiner node s = None then returnM ()
       else if node \<in> flt then modifyM (broadcastMark node packetType key)
       else if broadcastFilter node packetType key s then returnM ()
       else sendTo node packetType key data t)"

definition broadcastMsg :: "'w env \<Rightarrow> nat \<Rightarrow> string \<Rightarrow> bytes \<Rightarrow> bytes set \<Rightarrow> nat \<Rightarrow> ('w, bool) eng" where
  "broadcastMsg E packetType key data flt t =
     bindM (getM (\<lambda>s. sessions E (world s))) (\<lambda>ss.
       seqM (modifyM (\<lambda>s. s\<lparr>m_connectedNode := length ss mod 2 ^ 16\<rparr>))
      (seqM (forM ss (broadcastOne packetType key data flt t)) (returnM True)))"

definition broadcastSignReq :: "'w env \<Rightarrow> nat \<Rightarrow> prepare_req \<Rightarrow> ('w, bool) eng" where
  "broadcastSignReq E now req =
     bindM (getM (\<lambda>s. SignReq (crypt E) (m_secret s) now req (m_idx s))) (\<lambda>r.
     bindM (liftM (liftRlp (msg_encode r))) (\<lambda>data.
     bindM (broadcastMsg E SignReqPacket (uniqueKey r) data {} 0) (\<lambda>succ.
       seqM (whenM succ (modifyM (on_cache (addSignReq r)))) (returnM succ))))"

definition broadcastCommitReq :: "'w env \<Rightarrow> nat \<Rightarrow> prepare_req \<Rightarrow> ('w, bool) eng" where
  "broadcastCommitReq E now req =
     bindM (getM (\<lambda>s. CommitReq (crypt E) (m_secret s) now req (m_idx s))) (\<lambda>r.
     bindM (liftM (liftRlp (msg_encode r))) (\<lambda>data.
     bindM (broadcastMsg E CommitReqPacket (uniqueKey r) data {} 0) (\<lambda>succ.
       seqM (whenM succ (modifyM (on_cache (addCommitReq r)))) (returnM succ))))"

definition ownViewChangeReq :: "'w env \<Rightarrow> nat \<Rightarrow> 'w pbft \<Rightarrow> pbftmsg" where
  "ownViewChangeReq E now s =
     ViewChangeReq (crypt E) (m_secret s) now (m_number (m_highestBlock s)) (m_toView s) (m_idx s)
       (hashOf (crypt E) (m_highestBlock s))"

definition sendViewChangeMsg :: "'w env \<Rightarrow> nat \<Rightarrow> bytes \<Rightarrow> ('w, unit) eng" where
  "sendViewChangeMsg E now nodeId =
     bindM (getM (ownViewChangeReq E now)) (\<lambda>r.
     bindM (liftM (liftRlp (msg_encode r))) (\<lambda>data.
     bindM (sendMsg E nodeId ViewChangeReqPacket (uniqueKey r) data 1) (\<lambda>_. returnM ())))"

definition broadcastViewChangeReq :: "'w env \<Rightarrow> nat \<Rightarrow> ('w, bool) eng" where
  "broadcastViewChangeReq E now =
     bindM (getM (ownViewChangeReq E now)) (\<lambda>r.
     seqM (modifyM (\<lambda>s. s\<lparr>m_emptyBlockViewChange := False\<rparr>))
    (bindM (liftM (liftRlp (msg_encode r))) (\<lambda>data.
     broadcastMsg E ViewChangeReqPacket (uniqueKey r) data {} 0)))"

section \<open>Checks\<close>

definition checkSign :: "crypto \<Rightarrow> 'a pbftmsg_scheme \<Rightarrow> 'w pbft \<Rightarrow> bool" where
  "checkSign C req s =
     (case getNodeIDByIndex (idx req) s of
        None \<Rightarrow> False
      | Some pub_id \<Rightarrow> dev_verify C pub_id (sig req) (block_hash req) \<and> dev_verify C pub_id (sig2 req) (fieldsHash C req))"

definition hasConsensused :: "'a pbftmsg_scheme \<Rightarrow> 'w pbft \<Rightarrow> bool" where
  "hasConsensused req s \<longleftrightarrow> height req < m_consensusBlockNumber s \<or> view req < m_view s"

definition isFutureBlock :: "'a pbftmsg_scheme \<Rightarrow> 'w pbft \<Rightarrow> bool" where
  "isFutureBlock req s \<longleftrightarrow> height req > m_consensusBlockNumber s
     \<or> (height req = m_consensusBlockNumber s \<and> view req > m_view s)"

definition isHashSavedAfterCommit :: "prepare_req \<Rightarrow> 'w pbft \<Rightarrow> bool" where
  "isHashSavedAfterCommit req s \<longleftrightarrow>
     \<not> (height req = height (m_committedPrepareCache (m_reqCache s))
        \<and> block_hash req \<noteq> block_hash (m_committedPrepareCache (m_reqCache s)))"

definition isValidLeader :: "prepare_req \<Rightarrow> 'w pbft \<Rightarrow> bool" where
  "isValidLeader req s \<longleftrightarrow> getLeader s = Some (idx req)"

datatype check_result = VALID | INVALID | FUTURE

definition checkReq :: "crypto \<Rightarrow> pbftmsg \<Rightarrow> 'w pbft \<Rightarrow> check_result" where
  "checkReq C req s =
     (let prep = m_prepareCache (m_reqCache s) in
      if block_hash prep \<noteq> block_hash req then (if isFutureBlock req s \<and> checkSign C req s then FUTURE else INVALID)
      else if idx req = m_idx s then INVALID
      else if view prep \<noteq> view req then INVALID
      else if \<not> checkSign C req s then INVALID
      else VALID)"

definition isValidPrepare :: "crypto \<Rightarrow> prepare_req \<Rightarrow> ('w, bool) eng" where
  "isValidPrepare C req =
     bindM (getM (\<lambda>s. s)) (\<lambda>s.
       if isExistPrepare req (m_reqCache s) then returnM False
       else if hasConsensused req s then returnM False
       else if isFutureBlock req s then seqM (modifyM (on_cache (addFuturePrepareCache req))) (returnM False)
       else if \<not> isValidLeader req s then returnM False
       else if \<not> isHashSavedAfterCommit req s then returnM False
       else returnM (checkSign C req s))"

definition isValidSignReq :: "crypto \<Rightarrow> pbftmsg \<Rightarrow> ('w, bool) eng" where
  "isValidSignReq C req =
     bindM (getM (\<lambda>s. s)) (\<lambda>s.
       if isExistSign req (m_reqCache s) then returnM False
       else case checkReq C req s of
              FUTURE \<Rightarrow> seqM (modifyM (on_cache (addSignReq req))) (returnM False)
            | INVALID \<Rightarrow> returnM False | VALID \<Rightarrow> returnM True)"

definition isValidCommitReq :: "crypto \<Rightarrow> pbftmsg \<Rightarrow> ('w, bool) eng" where
  "isValidCommitReq C req =
     bindM (getM (\<lambda>s. s)) (\<lambda>s.
       if isExistCommit req (m_reqCache s) then returnM False
       else case checkReq C req s of
              FUTURE \<Rightarrow> seqM (modifyM (on_cache (addCommitReq req))) (returnM False)
            | INVALID \<Rightarrow> returnM False | VALID \<Rightarrow> returnM True)"

definition checkMinerList :: "block \<Rightarrow> 'w pbft \<Rightarrow> consensus_error + unit" where
  "checkMinerList b s = (if m_minerList s \<noteq> m_sealerList (m_blockHeader b) then Inl BlockMinerListWrong else Inr ())"

definition checkBlockValid :: "'w env \<Rightarrow> nat \<Rightarrow> block \<Rightarrow> 'w pbft \<Rightarrow> consensus_error + unit" where
  "checkBlockValid E now b s = bindE (base_checkBlockValid E now b s) (\<lambda>_. checkMinerList b s)"

text \<open>The signature loop returns at the first bad entry.\<close>

definition checkBlockSigns :: "crypto \<Rightarrow> (nat \<Rightarrow> nat) \<Rightarrow> block \<Rightarrow> 'w pbft \<Rightarrow> bool" where
  "checkBlockSigns C to_size b s =
     list_all (\<lambda>(i, sg). \<not> i \<ge> length (m_minerList s)
       \<and> dev_verify C (m_minerList s ! to_size i) sg (hashOf C (m_blockHeader b))) (m_sigList b)"

definition checkBlock :: "'w env \<Rightarrow> block \<Rightarrow> 'w pbft \<Rightarrow> consensus_error + bool" where
  "checkBlock E b s =
     (if m_minerList s \<noteq> m_sealerList (m_blockHeader b) then Inr False
      else if getMinerByIndex (convert_to_size_t E (m_sealer (m_blockHeader b))) s = hash_zero 64 then Inr False
      else if length (m_sigList b) < minValidNodes s then Inr False
      else if \<not> checkBlockSigns (crypt E) (convert_to_size_t E) b s then Inr False
      else case lexical_cast_uint64 E (bc_getSystemConfigByKey E (world s) ''tx_count_limit'' (m_number (m_blockHeader b))) of
             None \<Rightarrow> Inl BadLexicalCast
           | Some limit \<Rightarrow> Inr (\<not> length (m_transactions b) > limit))"

section \<open>Executing and storing a proposal\<close>

definition needOmit :: "block \<Rightarrow> 'w pbft \<Rightarrow> bool" where
  "needOmit b s \<longleftrightarrow> getTransactionSize b = 0 \<and> m_omitEmptyBlock s"

definition execBlock :: "'w env \<Rightarrow> nat \<Rightarrow> prepare_req \<Rightarrow> ('w, block \<times> nat) eng" where
  "execBlock E now req =
     bindM (liftM (liftEth (block_decode (crypt E) (block_data req) block_new))) (\<lambda>working.
     bindM (getM (checkBlockValid E now working)) (\<lambda>ok. bindM (liftM ok) (\<lambda>_.
     seqM (modifyM (emit (NoteSealingBlockNumber (m_number (m_blockHeader working)))))
    (bindM (base_executeBlock E working) (\<lambda>(b, ctx).
     bindM (liftM (liftRlp (block_assign (crypt E) b block_new))) (\<lambda>(sealed, _).
     seqM (modifyM (on_time (updateTimeAfterHandleBlock now (getTransactionSize sealed) now)))
    (returnM (sealed, ctx))))))))"

text \<open>\<open>backupMsg\<close> catches what the database throws.\<close>

definition backupMsg :: "'w env \<Rightarrow> string \<Rightarrow> prepare_req \<Rightarrow> ('w, unit) eng" where
  "backupMsg E key msg =
     bindM (getM m_backupDB) (\<lambda>db. if \<not> db then returnM () else
     bindM (liftM (liftRlp (prepare_encode msg))) (\<lambda>data.
     modifyM (\<lambda>s. s\<lparr>world := snd (db_insert E key (toHex data) (world s))\<rparr>)))"

definition reloadMsg :: "'w env \<Rightarrow> string \<Rightarrow> 'w pbft \<Rightarrow> 'w pbft" where
  "reloadMsg E key s =
     (if \<not> m_backupDB s then s
      else case fromHex (db_lookup E (world s) key) False of
             Inl _ \<Rightarrow> s
           | Inr data \<Rightarrow>
               if data = [] then s
               else on_cache (\<lambda>c. c\<lparr>m_committedPrepareCache :=
                      snd (decodeToRequests populate_prepare_m data (m_committedPrepareCache c))\<rparr>) s)"

definition c_backupKeyCommitted :: string where "c_backupKeyCommitted = ''committed''"

definition checkAndSave :: "'w env \<Rightarrow> ('w, unit) eng" where
  "checkAndSave E =
     bindM (getM (\<lambda>s. s)) (\<lambda>s.
       let prep = m_prepareCache (m_reqCache s);
           sign_size = getSigCacheSize (block_hash prep) (m_reqCache s);
           commit_size = getCommitCacheSize (block_hash prep) (m_reqCache s)
       in if sign_size \<ge> minValidNodes s \<and> commit_size \<ge> minValidNodes s then
            if view prep \<noteq> m_view s then returnM ()
            else if height prep > m_number (m_highestBlock s) then
              bindM (liftM (liftEth (block_decode (crypt E) (block_data prep) block_new))) (\<lambda>b0.
              bindM (liftM (case generateAndSetSigList (minValidNodes s) b0 (m_reqCache s) of
                              Inl e \<Rightarrow> Inl (SigListError e) | Inr (_, b) \<Rightarrow> Inr b)) (\<lambda>b.
              seqM (modifyM (emit (CommitBlock b)))
             (bindM (\<lambda>s. case bc_commitBlock E b (p_execContext prep) (world s) of (r, w) \<Rightarrow> (r, s\<lparr>world := w\<rparr>)) (\<lambda>ret.
              seqM (if ret = OK then modifyM (dropHandledTransactions b)
                    else modifyM (\<lambda>s. emit (HandleBadBlock b) (emit (NoteSealingBlockNumber (bc_number E (world s))) s)))
             (seqM (modifyM (on_cache clearAllExceptCommitCache))
             (modifyM (\<lambda>s. on_cache (delCache (block_hash (m_prepareCache (m_reqCache s)))) s))))))) 
            else returnM ()
          else returnM ())"

definition checkAndCommit :: "'w env \<Rightarrow> nat \<Rightarrow> ('w, unit) eng" where
  "checkAndCommit E now =
     bindM (getM (\<lambda>s. s)) (\<lambda>s.
       let prep = m_prepareCache (m_reqCache s);
           sign_size = getSigCacheSize (block_hash prep) (m_reqCache s)
       in if sign_size = minValidNodes s then
            if view prep \<noteq> m_view s then returnM ()
            else
              seqM (modifyM (on_cache updateCommittedPrepare))
             (bindM (getM (\<lambda>s. m_committedPrepareCache (m_reqCache s))) (\<lambda>committed.
              seqM (backupMsg E c_backupKeyCommitted committed)
             (bindM (broadcastCommitReq E now prep) (\<lambda>_.
              seqM (modifyM (on_time (\<lambda>t. t\<lparr>m_lastSignTime := now\<rparr>)))
             (checkAndSave E)))))
          else returnM ())"

section \<open>Handlers\<close>

definition handlePrepareMsg :: "'w env \<Rightarrow> nat \<Rightarrow> prepare_req \<Rightarrow> ('w, unit) eng" where
  "handlePrepareMsg E now req =
     bindM (isValidPrepare (crypt E) req) (\<lambda>valid.
       if \<not> valid then returnM ()
       else
         seqM (modifyM (on_cache (addRawPrepare req)))
        (bindM (catchM (bindM (execBlock E now req) (\<lambda>r. returnM (Some r))) (\<lambda>_. returnM None)) (\<lambda>res.
         case res of None \<Rightarrow> returnM ()
         | Some (sealed, ctx) \<Rightarrow>
             bindM (getM (needOmit sealed)) (\<lambda>omit.
             if omit then
               modifyM (\<lambda>s. emit NotifySignal ((on_time (\<lambda>t. (changeView t)\<lparr>m_changeCycle := 0\<rparr>) s)\<lparr>m_emptyBlockViewChange := True\<rparr>))
             else
               bindM (getM (\<lambda>s. PrepareReq_sealed (crypt E) (m_secret s) now req sealed (Some ctx))) (\<lambda>r.
               bindM (liftM (liftEth r)) (\<lambda>sign_prepare.
               seqM (modifyM (on_cache (addPrepareReq sign_prepare)))
              (bindM (broadcastSignReq E now sign_prepare) (\<lambda>_.
               checkAndCommit E now)))))))) "

text \<open>A handler of a packet returns the decoded, possibly half-decoded, request.\<close>

definition handlePreparePacket :: "'w env \<Rightarrow> nat \<Rightarrow> pbft_packet \<Rightarrow> ('w, prepare_req) eng" where
  "handlePreparePacket E now pkt =
     (case decodeToRequests populate_prepare_m (pkt_data pkt) prepare_new of (valid, req) \<Rightarrow>
        seqM (whenM valid (handlePrepareMsg E now req)) (returnM req))"

definition handleSignMsg :: "'w env \<Rightarrow> nat \<Rightarrow> pbft_packet \<Rightarrow> ('w, pbftmsg) eng" where
  "handleSignMsg E now pkt =
     (case decodeToRequests populate_m (pkt_data pkt) pbftmsg_new of (valid, req) \<Rightarrow>
        if \<not> valid then returnM req
        else bindM (isValidSignReq (crypt E) req) (\<lambda>ok.
               seqM (whenM ok (seqM (modifyM (on_cache (addSignReq req))) (checkAndCommit E now))) (returnM req)))"

definition handleCommitMsg :: "'w env \<Rightarrow> nat \<Rightarrow> pbft_packet \<Rightarrow> ('w, pbftmsg) eng" where
  "handleCommitMsg E now pkt =
     (case decodeToRequests populate_m (pkt_data pkt) pbftmsg_new of (valid, req) \<Rightarrow>
        if \<not> valid then returnM req
        else bindM (isValidCommitReq (crypt E) req) (\<lambda>ok.
               seqM (whenM ok (seqM (modifyM (on_cache (addCommitReq req))) (checkAndSave E))) (returnM req)))"

definition catchupView :: "'w env \<Rightarrow> nat \<Rightarrow> pbftmsg \<Rightarrow> ('w, unit) eng" where
  "catchupView E now req =
     bindM (getM (\<lambda>s. s)) (\<lambda>s.
       if view req + 1 < m_toView s then
         case getNodeIDByIndex (idx req) s of None \<Rightarrow> returnM () | Some nodeId \<Rightarrow> sendViewChangeMsg E now nodeId
       else returnM ())"

definition isValidViewChangeReq :: "'w env \<Rightarrow> nat \<Rightarrow> pbftmsg \<Rightarrow> nat \<Rightarrow> ('w, bool) eng" where
  "isValidViewChangeReq E now req source =
     bindM (getM (\<lambda>s. s)) (\<lambda>s.
       if isExistViewChange req (m_reqCache s) then returnM False
       else if idx req = m_idx s then returnM False
       else seqM (whenM (view req + 1 < m_toView s \<and> idx req = source) (catchupView E now req))
        (if height req < m_number (m_highestBlock s) \<or> view req \<le> m_view s then returnM False
         else if (height req = m_number (m_highestBlock s) \<and> block_hash req \<noteq> hashOf (crypt E) (m_highestBlock s))
                 \<or> bc_getBlockByHash E (world s) (block_hash req) = None then returnM False
         else returnM (checkSign (crypt E) req s)))"

definition checkAndChangeView :: "'w env \<Rightarrow> nat \<Rightarrow> 'w pbft \<Rightarrow> 'w pbft" where
  "checkAndChangeView E now s =
     (let count = getViewChangeSize (m_toView s) (m_reqCache s) mod 2 ^ 16 in
      if int count \<ge> int (minValidNodes s) - 1 then
        let s1 = on_time (\<lambda>t. t\<lparr>m_lastConsensusTime := now\<rparr>) (s\<lparr>m_leaderFailed := False, m_view := m_toView s\<rparr>);
            s2 = on_cache (triggerViewChange (m_view s1)) s1
        in emit (NoteSealingBlockNumber (bc_number E (world s2))) s2
      else s)"

definition triggerFastViewChange :: "'w pbft \<Rightarrow> 'w pbft" where
  "triggerFastViewChange s =
     (case canTriggerViewChange (m_f s) (m_toView s) (m_number (m_highestBlock s)) (m_consensusBlockNumber s) (m_reqCache s) of
        (should_trigger, min_view) \<Rightarrow>
          if should_trigger then emit NotifySignal ((on_time changeView s)\<lparr>m_toView := min_view - 1\<rparr>) else s)"

definition handleViewChangeMsg :: "'w env \<Rightarrow> nat \<Rightarrow> pbft_packet \<Rightarrow> ('w, pbftmsg) eng" where
  "handleViewChangeMsg E now pkt =
     (case decodeToRequests populate_m (pkt_data pkt) pbftmsg_new of (valid, req) \<Rightarrow>
        if \<not> valid then returnM req
        else bindM (isValidViewChangeReq E now req (node_idx pkt)) (\<lambda>ok.
          seqM (whenM ok
            (seqM (modifyM (on_cache (addViewChangeReq req)))
             (modifyM (\<lambda>s. if view req = m_toView s then checkAndChangeView E now s else triggerFastViewChange s))))
          (returnM req)))"

text \<open>Forwarding: \<open>ttl - 1\<close> is computed in \<open>unsigned\<close>.\<close>

definition forwardMsg :: "'w env \<Rightarrow> pbft_packet \<Rightarrow> string \<Rightarrow> int \<Rightarrow> nat \<Rightarrow> ('w, unit) eng" where
  "forwardMsg E pkt key msg_height msg_idx =
     bindM (getM (\<lambda>s. s)) (\<lambda>s.
       if ttl pkt = 1 then returnM ()
       else if key \<noteq> [] \<and> (msg_height > m_number (m_highestBlock s) \<or> m_number (m_highestBlock s) - msg_height < 10) then
         let gen = getMinerByIndex msg_idx s;
             flt = insert (node_id pkt) (if gen \<noteq> hash_zero 64 then {gen} else {})
         in bindM (broadcastMsg E (packet_id pkt) key (pkt_data pkt) flt (nat ((int (ttl pkt) - 1) mod 2 ^ 32))) (\<lambda>_. returnM ())
       else returnM ())"

definition handleMsg :: "'w env \<Rightarrow> nat \<Rightarrow> pbft_packet \<Rightarrow> ('w, unit) eng" where
  "handleMsg E now pkt =
     (if packet_id pkt = PrepareReqPacket then
        bindM (handlePreparePacket E now pkt) (\<lambda>r. forwardMsg E pkt (uniqueKey r) (height r) (idx r))
      else if packet_id pkt = SignReqPacket then
        bindM (handleSignMsg E now pkt) (\<lambda>r. forwardMsg E pkt (uniqueKey r) (height r) (idx r))
      else if packet_id pkt = CommitReqPacket then
        bindM (handleCommitMsg E now pkt) (\<lambda>r. forwardMsg E pkt (uniqueKey r) (height r) (idx r))
      else if packet_id pkt = ViewChangeReqPacket then
        bindM (handleViewChangeMsg E now pkt) (\<lambda>r. forwardMsg E pkt (uniqueKey r) (height r) (idx r))
      else returnM ())"

text \<open>
  \<open>onRecvPBFTMessage\<close>: \<open>buffer\<close>, \<open>sender\<close> and \<open>ep\<close> are the message buffer, the session's node id and its endpoint.
\<close>

definition isValidReq :: "bytes \<Rightarrow> bytes \<Rightarrow> 'w pbft \<Rightarrow> nat option" where
  "isValidReq buffer sender s =
     (if buffer = [] then None
      else case getIndexByMiner sender s of
             None \<Rightarrow> None
           | Some i \<Rightarrow>
               (case getNodeIDByIndex (m_idx s) s of None \<Rightarrow> None | Some n \<Rightarrow> if sender = n then None else Some i))"

definition onRecvPBFTMessage :: "nat \<Rightarrow> bytes \<Rightarrow> bytes \<Rightarrow> string \<Rightarrow> 'w pbft \<Rightarrow> 'w pbft" where
  "onRecvPBFTMessage now buffer sender ep s =
     (if m_idx s = MAXIDX then s
      else case isValidReq buffer sender s of
             None \<Rightarrow> s
           | Some i \<Rightarrow>
               (case packet_decode buffer (PBFTMsgPacket now) of
                  Inl _ \<Rightarrow> s
                | Inr p \<Rightarrow>
                    if packet_id p \<le> ViewChangeReqPacket
                    then s\<lparr>m_msgQueue := m_msgQueue s @ [setOtherField now (i mod 2 ^ 16) sender ep p]\<rparr> else s))"

section \<open>Timers and the work loop\<close>

definition collectGarbage :: "'w env \<Rightarrow> nat \<Rightarrow> 'w pbft \<Rightarrow> 'w pbft" where
  "collectGarbage E now s =
     (if \<not> header_bool (m_highestBlock s) then s
      else if int now - int (m_lastGarbageCollection (m_timeManager s)) > int (1000 * CollectInterval) then
        on_time (\<lambda>t. t\<lparr>m_lastGarbageCollection := now\<rparr>)
          (on_cache (reqcache_collectGarbage (m_number (m_highestBlock s)) (hashOf (crypt E) (m_highestBlock s))) s)
      else s)"

definition checkTimeout :: "'w env \<Rightarrow> nat \<Rightarrow> ('w, unit) eng" where
  "checkTimeout E now =
     bindM (getM (\<lambda>s. isTimeout now (m_timeManager s))) (\<lambda>timeout.
       if \<not> timeout then returnM ()
       else
         seqM (modifyM (\<lambda>s.
           on_time (\<lambda>t. t\<lparr>m_lastConsensusTime := now\<rparr>)
             (emit (NoteSealingBlockNumber (bc_number E (world s)))
               (on_time updateChangeCycle (s\<lparr>m_toView := m_toView s + 1, m_leaderFailed := True\<rparr>)))))
        (seqM (modifyM (\<lambda>s. on_cache (removeInvalidViewChange (m_toView s) (m_number (m_highestBlock s))
                 (hashOf (crypt E) (m_highestBlock s))) s))
        (bindM (broadcastViewChangeReq E now) (\<lambda>succ.
         if \<not> succ then returnM ()
         else seqM (modifyM (checkAndChangeView E now)) (modifyM (emit OnViewChange))))))"

definition handleFutureBlock :: "'w env \<Rightarrow> nat \<Rightarrow> ('w, unit) eng" where
  "handleFutureBlock E now =
     bindM (getM (\<lambda>s. s)) (\<lambda>s.
       let future_req = m_futurePrepareCache (m_reqCache s) in
       if height future_req = m_consensusBlockNumber s \<and> view future_req = m_view s then
         seqM (handlePrepareMsg E now future_req) (modifyM (on_cache resetFuturePrepare))
       else returnM ())"

text \<open>One turn of \<open>workLoop\<close>; whatever is thrown is caught and logged.\<close>

definition work_step :: "'w env \<Rightarrow> nat \<Rightarrow> ('w, unit) eng" where
  "work_step E now =
     catchM
      (seqM (bindM (getM m_msgQueue) (\<lambda>q.
          case q of [] \<Rightarrow> returnM ()
          | pkt # rest \<Rightarrow> seqM (modifyM (\<lambda>s. s\<lparr>m_msgQueue := rest\<rparr>)) (handleMsg E now pkt)))
      (seqM (checkTimeout E now)
      (seqM (handleFutureBlock E now)
      (modifyM (collectGarbage E now)))))
      (\<lambda>_. returnM ())"

section \<open>Calls from the sealer and the block chain\<close>

definition reportBlock :: "'w env \<Rightarrow> nat \<Rightarrow> block \<Rightarrow> 'w pbft \<Rightarrow> 'w pbft" where
  "reportBlock E now b s =
     (if bc_number E (world s) = 0 \<or> m_number (m_highestBlock s) < m_number (m_blockHeader b) then
        let s1 = s\<lparr>m_highestBlock := m_blockHeader b\<rparr>;
            hash = hashOf (crypt E) (m_highestBlock s1);
            s2 = (if m_number (m_highestBlock s1) \<ge> m_consensusBlockNumber s1 then
                    on_cache (delInvalidViewChange (m_number (m_highestBlock s1)) hash)
                      ((on_time (\<lambda>t. t\<lparr>m_lastConsensusTime := now, m_changeCycle := 0\<rparr>) s1)
                        \<lparr>m_view := 0, m_toView := 0, m_leaderFailed := False,
                         m_consensusBlockNumber := m_number (m_highestBlock s1) + 1\<rparr>)
                  else s1)
        in on_cache (delCache hash) (on_cache clearAllExceptCommitCache (resetConfig E s2))
      else s)"

definition generatePrepare :: "'w env \<Rightarrow> nat \<Rightarrow> block \<Rightarrow> ('w, bool) eng" where
  "generatePrepare E now b =
     bindM (getM (\<lambda>s. PrepareReq_of_block (crypt E) (m_secret s) now b (m_view s) (m_idx s))) (\<lambda>r.
     bindM (liftM (liftEth r)) (\<lambda>req.
     bindM (liftM (liftRlp (prepare_encode req))) (\<lambda>data.
     bindM (broadcastMsg E PrepareReqPacket (uniqueKey req) data {} 0) (\<lambda>succ.
     seqM (whenM succ
       (bindM (getM (needOmit b)) (\<lambda>omit.
        seqM (whenM omit (modifyM (\<lambda>s. emit NotifySignal
                 ((on_time (\<lambda>t. (changeView t)\<lparr>m_changeCycle := 0\<rparr>) s)\<lparr>m_emptyBlockViewChange := True, m_leaderFailed := True\<rparr>))))
             (handlePrepareMsg E now req))))
      (returnM succ)))))"

definition rehandleCommitedPrepareCache :: "'w env \<Rightarrow> nat \<Rightarrow> prepare_req \<Rightarrow> ('w, unit) eng" where
  "rehandleCommitedPrepareCache E now req0 =
     seqM (modifyM clearMask)
    (bindM (getM (\<lambda>s. PrepareReq_rehandle (crypt E) (m_secret s) now req0 (m_view s) (m_idx s))) (\<lambda>req.
     bindM (liftM (liftRlp (prepare_encode req))) (\<lambda>data.
     bindM (broadcastMsg E PrepareReqPacket (uniqueKey req) data {} 0) (\<lambda>_.
     seqM (handlePrepareMsg E now req)
    (modifyM (\<lambda>s. emit (NoteSealingBlockNumber (bc_number E (world s))) s))))))"

definition shouldSeal :: "'w env \<Rightarrow> nat \<Rightarrow> ('w, bool) eng" where
  "shouldSeal E now =
     bindM (getM (\<lambda>s. s)) (\<lambda>s.
       if m_cfgErr s \<or> m_accountType s \<noteq> MinerAccount then returnM False
       else case getLeader s of
              None \<Rightarrow> returnM False
            | Some leader \<Rightarrow>
                if leader \<noteq> m_idx s then
                  let node = getMinerByIndex leader s in
                  seqM (whenM (node \<noteq> hash_zero 64 \<and> \<not> isConnected E (world s) node)
                          (modifyM (\<lambda>s. emit NotifySignal (on_time (\<lambda>t. t\<lparr>m_lastConsensusTime := 0, m_lastSignTime := 0\<rparr>) s))))
                       (returnM False)
                else if height (m_committedPrepareCache (m_reqCache s)) = m_consensusBlockNumber s then
                  seqM (whenM (height (m_rawPrepareCache (m_reqCache s)) \<noteq> m_consensusBlockNumber s)
                          (rehandleCommitedPrepareCache E now (m_committedPrepareCache (m_reqCache s))))
                       (returnM False)
                else returnM True)"

definition reachBlockIntervalTime :: "nat \<Rightarrow> 'w pbft \<Rightarrow> bool" where
  "reachBlockIntervalTime now s \<longleftrightarrow>
     sub64 now (m_lastConsensusTime (m_timeManager s)) \<ge> m_intervalBlockTime (m_timeManager s)"

definition initBackupDB :: "'w env \<Rightarrow> ('w, unit) eng" where
  "initBackupDB E =
     seqM (modifyM (\<lambda>s. s\<lparr>m_backupDB := True\<rparr>))
    (bindM (getM (\<lambda>s. diskSpaceEnough E (world s))) (\<lambda>enough.
       if \<not> enough then throwM NotEnoughAvailableSpace else modifyM (reloadMsg E c_backupKeyCommitted)))"

definition initPBFTEnv :: "'w env \<Rightarrow> nat \<Rightarrow> nat \<Rightarrow> ('w, unit) eng" where
  "initPBFTEnv E now view_timeout =
     seqM (modifyM (\<lambda>s. (resetConfig E s)\<lparr>m_consensusBlockNumber := 0, m_view := 0, m_toView := 0, m_leaderFailed := False\<rparr>))
    (seqM (initBackupDB E)
    (modifyM (\<lambda>s. (on_time (initTimerManager now view_timeout) s)\<lparr>m_connectedNode := m_nodeNum s\<rparr>)))"

definition pbft_start :: "'w env \<Rightarrow> nat \<Rightarrow> ('w, unit) eng" where
  "pbft_start E now =
     bindM (getM (\<lambda>s. 3 * m_intervalBlockTime (m_timeManager s) mod 2 ^ 32)) (\<lambda>t.
     seqM (initPBFTEnv E now t) (modifyM base_start))"

end
