(* ===== verification/PBFTSafety.thy ===== *)
theory PBFTSafety
  imports PBFTEngine
begin

text \<open>
  What the PBFT engine guarantees: the runs of a node as a step relation over its entry points, the invariants of
  its view counters and request cache, the commit lock, the authenticity of the votes it counts, the quorum behind a
  committed block, leader rotation, and the behaviour of broadcasting and forwarding.
\<close>

section \<open>Frames\<close>

text \<open>The part of the state that the protocol's decisions depend on.\<close>

definition ballot :: "'w pbft \<Rightarrow> req_cache \<times> int \<times> int \<times> int" where
  "ballot s = (m_reqCache s, m_view s, m_toView s, m_consensusBlockNumber s)"

definition config :: "'w pbft \<Rightarrow> bytes list \<times> nat \<times> nat \<times> nat \<times> bytes \<times> header \<times> bool" where
  "config s = (m_minerList s, m_idx s, m_nodeNum s, m_f s, m_secret s, m_highestBlock s, m_cfgErr s)"

named_theorems frame_rules \<open>methods that leave the ballot and the configuration alone\<close>

abbreviation keeps_ballot :: "('w, 'a) eng \<Rightarrow> bool" where
  "keeps_ballot m \<equiv> (\<forall>b c. keeps (\<lambda>s. ballot s = b \<and> config s = c) m)"

lemma keeps_ballotD: "keeps_ballot m \<Longrightarrow> ballot (snd (m s)) = ballot s \<and> config (snd (m s)) = config s"
  unfolding keeps_def by blast

lemma keeps_via_frame: "keeps_ballot m \<Longrightarrow> (\<And>s s'. ballot s' = ballot s \<Longrightarrow> config s' = config s \<Longrightarrow> I s \<Longrightarrow> I s') \<Longrightarrow> keeps I m"
  by (rule keepsI) (use keeps_ballotD in blast)

lemma frame_updates [simp]:
  "ballot (emit e s) = ballot s" "config (emit e s) = config s"
  "ballot (broadcastMark n p k s) = ballot s" "config (broadcastMark n p k s) = config s"
  "ballot (clearMask s) = ballot s" "config (clearMask s) = config s"
  "ballot (on_time f s) = ballot s" "config (on_time f s) = config s" "config (on_cache g s) = config s"
  "ballot (s\<lparr>world := w\<rparr>) = ballot s" "config (s\<lparr>world := w\<rparr>) = config s"
  "ballot (s\<lparr>m_connectedNode := n'\<rparr>) = ballot s" "config (s\<lparr>m_connectedNode := n'\<rparr>) = config s"
  "ballot (s\<lparr>m_msgQueue := q\<rparr>) = ballot s" "config (s\<lparr>m_msgQueue := q\<rparr>) = config s"
  "ballot (s\<lparr>m_emptyBlockViewChange := bb\<rparr>) = ballot s" "config (s\<lparr>m_emptyBlockViewChange := bb\<rparr>) = config s"
  "ballot (dropHandledTransactions blk s) = ballot s" "config (dropHandledTransactions blk s) = config s"
  by (simp_all add: ballot_def config_def emit_def broadcastMark_def clearMask_def on_time_def on_cache_def dropHandledTransactions_def)

lemma frame_sendTo [frame_rules]: "keeps_ballot (sendTo n p k d t)"
  unfolding sendTo_def by (intro allI keeps_rules keeps_modify) simp_all

lemma frame_sendMsg [frame_rules]: "keeps_ballot (sendMsg E n p k d t)"
  unfolding sendMsg_def by (intro allI keeps_rules frame_sendTo [rule_format])

lemma frame_broadcastMsg [frame_rules]: "keeps_ballot (broadcastMsg E p k d f t)"
  unfolding broadcastMsg_def broadcastOne_def
  by (intro allI keeps_rules keeps_modify frame_sendTo [rule_format]) simp_all

lemma frame_sendViewChangeMsg [frame_rules]: "keeps_ballot (sendViewChangeMsg E now n)"
  unfolding sendViewChangeMsg_def by (intro allI keeps_rules frame_sendMsg [rule_format])

lemma frame_broadcastViewChangeReq [frame_rules]: "keeps_ballot (broadcastViewChangeReq E now)"
  unfolding broadcastViewChangeReq_def
  by (intro allI keeps_rules keeps_modify frame_broadcastMsg [rule_format]) simp_all

lemma frame_catchupView [frame_rules]: "keeps_ballot (catchupView E now r)"
  unfolding catchupView_def by (intro allI keeps_rules frame_sendViewChangeMsg [rule_format])

lemma frame_backupMsg [frame_rules]: "keeps_ballot (backupMsg E k m)"
  unfolding backupMsg_def by (intro allI keeps_rules keeps_modify) simp_all

lemma frame_base_executeBlock [frame_rules]: "keeps_ballot (base_executeBlock E b)"
  unfolding base_executeBlock_def
  by (intro allI keeps_rules) (auto simp: keeps_def Let_def split: prod.splits)

lemma frame_execBlock [frame_rules]: "keeps_ballot (execBlock E now req)"
  unfolding execBlock_def
  by (intro allI keeps_rules keeps_modify frame_base_executeBlock [rule_format]) simp_all

lemma frame_forwardMsg [frame_rules]: "keeps_ballot (forwardMsg E pkt key h i)"
  unfolding forwardMsg_def Let_def by (intro allI keeps_rules frame_broadcastMsg [rule_format])

section \<open>The invariant\<close>

text \<open>
  The lock: a commit vote is only cast for the raw proposal of the block number under consensus, and a
  proposal of the locked height must have the locked hash.
\<close>

definition lock_ok :: "req_cache \<Rightarrow> int \<Rightarrow> bool" where
  "lock_ok c cbn \<longleftrightarrow> height (m_committedPrepareCache c) \<le> cbn
     \<and> (height (m_rawPrepareCache c) = height (m_committedPrepareCache c) \<longrightarrow>
          height (m_rawPrepareCache c) = -1 \<or> block_hash (m_rawPrepareCache c) = block_hash (m_committedPrepareCache c))
     \<and> (view (m_prepareCache c) \<noteq> MAXVIEW \<longrightarrow> height (m_rawPrepareCache c) = cbn)"

definition engine_inv :: "'w pbft \<Rightarrow> bool" where
  "engine_inv s \<longleftrightarrow> reqcache_ok (m_reqCache s) \<and> 0 \<le> m_view s \<and> m_view s \<le> m_toView s
     \<and> 0 \<le> m_consensusBlockNumber s \<and> lock_ok (m_reqCache s) (m_consensusBlockNumber s)"

text \<open>The committed proposal is at height \<open>h\<close> with hash \<open>A\<close>, or has moved to a greater height.\<close>

definition locked :: "int \<Rightarrow> bytes \<Rightarrow> req_cache \<Rightarrow> bool" where
  "locked h A c \<longleftrightarrow> h \<le> height (m_committedPrepareCache c)
     \<and> (height (m_committedPrepareCache c) = h \<longrightarrow> block_hash (m_committedPrepareCache c) = A)"

definition run_inv :: "int \<Rightarrow> bytes \<Rightarrow> 'w pbft \<Rightarrow> bool" where
  "run_inv h A s \<longleftrightarrow> engine_inv s \<and> locked h A (m_reqCache s)"

text \<open>While a handler runs the current view is below the largest value of its type.\<close>

definition live_inv :: "int \<Rightarrow> bytes \<Rightarrow> 'w pbft \<Rightarrow> bool" where
  "live_inv h A s \<longleftrightarrow> run_inv h A s \<and> m_view s < MAXVIEW"

lemmas inv_defs = live_inv_def run_inv_def engine_inv_def lock_ok_def locked_def

named_theorems inv_rules \<open>preservation of the invariant\<close>

lemma live_inv_frame: "ballot s' = ballot s \<Longrightarrow> live_inv h A s' = live_inv h A s"
  and run_inv_frame: "ballot s' = ballot s \<Longrightarrow> run_inv h A s' = run_inv h A s"
  by (simp_all add: live_inv_def run_inv_def engine_inv_def ballot_def)

lemma live_keeps_frame: "keeps_ballot m \<Longrightarrow> keeps (live_inv h A) m"
  and run_keeps_frame: "keeps_ballot m \<Longrightarrow> keeps (run_inv h A) m"
  by (erule keeps_via_frame, use live_inv_frame run_inv_frame in blast)+

lemma keeps_frame_modify: "(\<And>s. ballot (f s) = ballot s) \<Longrightarrow> keeps (live_inv h A) (modifyM f)"
  by (rule keeps_modify) (use live_inv_frame in blast)

lemma live_parts:
  assumes "live_inv h A s"
  shows "reqcache_ok (m_reqCache s)" "lock_ok (m_reqCache s) (m_consensusBlockNumber s)" "locked h A (m_reqCache s)"
    "m_view s < MAXVIEW"
  using assms by (simp_all add: live_inv_def run_inv_def engine_inv_def)

lemma live_on_cache:
  assumes "live_inv h A s" "reqcache_ok (f (m_reqCache s))" "lock_ok (f (m_reqCache s)) (m_consensusBlockNumber s)"
    "locked h A (f (m_reqCache s))"
  shows "live_inv h A (on_cache f s)"
  using assms by (simp add: live_inv_def run_inv_def engine_inv_def on_cache_def)

text \<open>Updates of the cache that keep the two proposals and the lock.\<close>

lemma lock_ok_ops:
  assumes "lock_ok c n"
  shows "lock_ok (addSignReq r c) n" "lock_ok (addCommitReq r c) n" "lock_ok (clearAllExceptCommitCache c) n"
    "lock_ok (delCache b c) n" "lock_ok (addFuturePrepareCache p c) n" "lock_ok (resetFuturePrepare c) n"
    "lock_ok (addViewChangeReq r c) n" "lock_ok (reqcache_collectGarbage m b c) n" "lock_ok (delInvalidViewChange m b c) n"
    "lock_ok (removeInvalidViewChange v m b c) n"
  using assms by (simp_all add: lock_ok_def reqcache_op_defs msg_clear_def Let_def)

lemma locked_ops:
  assumes "locked h A c"
  shows "locked h A (addSignReq r c)" "locked h A (addCommitReq r c)" "locked h A (clearAllExceptCommitCache c)"
    "locked h A (delCache b c)" "locked h A (addFuturePrepareCache p c)" "locked h A (resetFuturePrepare c)"
    "locked h A (addViewChangeReq r c)" "locked h A (reqcache_collectGarbage m b c)" "locked h A (delInvalidViewChange m b c)"
    "locked h A (removeInvalidViewChange v m b c)" "locked h A (addRawPrepare p c)" "locked h A (addPrepareReq p c)"
    "locked h A (triggerViewChange v c)"
  using assms by (simp_all add: locked_def reqcache_op_defs Let_def)

lemma live_cache_op:
  assumes "\<And>c. reqcache_ok c \<Longrightarrow> reqcache_ok (f c)" "\<And>c n. lock_ok c n \<Longrightarrow> lock_ok (f c) n" "\<And>c. locked h A c \<Longrightarrow> locked h A (f c)"
  shows "live_inv h A s \<Longrightarrow> live_inv h A (on_cache f s)"
  using assms by (simp add: live_inv_def run_inv_def engine_inv_def on_cache_def)

lemma live_add_vote [inv_rules]:
  assumes "length (sig r) = 65"
  shows "keeps (live_inv h A) (modifyM (on_cache (addSignReq r)))" "keeps (live_inv h A) (modifyM (on_cache (addCommitReq r)))"
  by (intro keeps_modify live_cache_op lock_ok_ops locked_ops reqcache_ok_add; (assumption | rule assms))+

lemma live_clear [inv_rules]:
  "keeps (live_inv h A) (modifyM (on_cache clearAllExceptCommitCache))"
  "keeps (live_inv h A) (modifyM (on_cache (addFuturePrepareCache p)))"
  "keeps (live_inv h A) (modifyM (on_cache resetFuturePrepare))"
  by (intro keeps_modify live_cache_op lock_ok_ops locked_ops reqcache_ok_ops; assumption)+

lemma live_delCache [inv_rules]:
  "keeps (live_inv h A) (modifyM (\<lambda>s. on_cache (delCache (b s)) s))"
  by (intro keeps_modify live_cache_op lock_ok_ops locked_ops reqcache_ok_ops)

lemmas live_frames [inv_rules] = frame_rules [THEN live_keeps_frame]

section \<open>Handlers keep the invariant\<close>

text \<open>Signatures have the fixed size of their type.\<close>

definition sized :: "'w env \<Rightarrow> bool" where
  "sized E \<longleftrightarrow> (\<forall>k m. length (sign (crypt E) k m) = 65)"

lemma own_vote_length: "sized E \<Longrightarrow> length (sig (PBFTMsg (crypt E) k now h v i b)) = 65"
  by (simp add: PBFTMsg_def sign_msg_def sized_def)

lemma live_broadcastReq:
  assumes "sized E"
  shows "keeps (live_inv h A) (broadcastSignReq E now req)" "keeps (live_inv h A) (broadcastCommitReq E now req)"
  unfolding broadcastSignReq_def broadcastCommitReq_def
  by (rule keeps_bind_get, intro keeps_rules inv_rules, simp add: SignReq_def CommitReq_def own_vote_length [OF assms])+

lemma live_commitBlock:
  "keeps (live_inv h A) (\<lambda>s. case f (world s) of (r, w) \<Rightarrow> (r, s\<lparr>world := w\<rparr>))"
proof (rule keepsI)
  fix s :: "'a pbft"
  assume "live_inv h A s"
  then have "live_inv h A (s\<lparr>world := w\<rparr>)" for w using live_inv_frame [of "s\<lparr>world := w\<rparr>" s h A] by simp
  then show "live_inv h A (snd (case f (world s) of (r, w) \<Rightarrow> (r, s\<lparr>world := w\<rparr>)))" by (simp split: prod.splits)
qed

lemma live_checkAndSave: "keeps (live_inv h A) (checkAndSave E)"
  unfolding checkAndSave_def Let_def
  by (intro keeps_rules inv_rules live_commitBlock keeps_frame_modify) simp_all

text \<open>The commit vote moves the lock to the raw proposal.\<close>

lemma live_updateCommittedPrepare:
  assumes "live_inv h A s" "view (m_prepareCache (m_reqCache s)) = m_view s"
  shows "live_inv h A (on_cache updateCommittedPrepare s)"
proof -
  note live = live_parts [OF assms(1)]
  have cbn: "0 \<le> m_consensusBlockNumber s" using assms(1) by (simp add: inv_defs)
  have "height (m_rawPrepareCache (m_reqCache s)) = m_consensusBlockNumber s"
    using live(2,4) assms(2) by (auto simp: lock_ok_def)
  with live cbn show ?thesis
    by (intro live_on_cache [OF assms(1)] reqcache_ok_ops) (auto simp: lock_ok_def locked_def updateCommittedPrepare_def)
qed

lemma live_checkAndCommit:
  assumes "sized E"
  shows "keeps (live_inv h A) (checkAndCommit E now)"
proof (rule keepsI)
  fix s :: "'a pbft"
  assume live: "live_inv h A s"
  let ?prep = "m_prepareCache (m_reqCache s)"
  define rest where "rest = (bindM (getM (\<lambda>s. m_committedPrepareCache (m_reqCache s))) (\<lambda>committed.
      seqM (backupMsg E c_backupKeyCommitted committed)
     (bindM (broadcastCommitReq E now ?prep) (\<lambda>_.
      seqM (modifyM (on_time (\<lambda>t. t\<lparr>m_lastSignTime := now\<rparr>))) (checkAndSave E)))))"
  have rest: "keeps (live_inv h A) rest"
    unfolding rest_def
    by (intro keeps_rules inv_rules live_broadcastReq [OF assms] live_checkAndSave keeps_frame_modify) simp_all
  show "live_inv h A (snd (checkAndCommit E now s))"
  proof (cases "getSigCacheSize (block_hash ?prep) (m_reqCache s) = minValidNodes s \<and> view ?prep = m_view s")
    case True
    then have "snd (checkAndCommit E now s) = snd (rest (on_cache updateCommittedPrepare s))"
      by (simp add: checkAndCommit_def Let_def run_simps rest_def [symmetric])
    moreover have "live_inv h A (on_cache updateCommittedPrepare s)"
      using live_updateCommittedPrepare [OF live] True by simp
    ultimately show ?thesis using rest by (simp add: keeps_def)
  next
    case False
    then have "snd (checkAndCommit E now s) = s" by (auto simp: checkAndCommit_def Let_def run_simps)
    with live show ?thesis by simp
  qed
qed

section \<open>Proposals\<close>

text \<open>When a proposal passes \<open>isValidPrepare\<close>.\<close>

definition prepare_accepted :: "crypto \<Rightarrow> prepare_req \<Rightarrow> 'w pbft \<Rightarrow> bool" where
  "prepare_accepted C req s \<longleftrightarrow> \<not> isExistPrepare req (m_reqCache s) \<and> height req = m_consensusBlockNumber s
     \<and> view req = m_view s \<and> getLeader s = Some (idx req) \<and> isHashSavedAfterCommit req s \<and> checkSign C req s"

lemma isValidPrepare_run:
  "isValidPrepare C req s =
     (if prepare_accepted C req s then (Inr True, s)
      else (Inr False, if \<not> isExistPrepare req (m_reqCache s) \<and> \<not> hasConsensused req s \<and> isFutureBlock req s
                       then on_cache (addFuturePrepareCache req) s else s))"
  by (auto simp: isValidPrepare_def prepare_accepted_def run_simps hasConsensused_def isFutureBlock_def isValidLeader_def)

lemma live_addRawPrepare:
  assumes "live_inv h A s" "prepare_accepted C req s"
  shows "live_inv h A (on_cache (addRawPrepare req) s)"
  using assms live_parts [OF assms(1)]
  by (intro live_on_cache reqcache_ok_ops locked_ops)
    (auto simp: lock_ok_def addRawPrepare_def prepare_accepted_def isHashSavedAfterCommit_def prepare_new_def)

text \<open>Between storing the raw and the executed proposal the raw one is that of the number under consensus.\<close>

definition raw_inv :: "int \<Rightarrow> bytes \<Rightarrow> 'w pbft \<Rightarrow> bool" where
  "raw_inv h A s \<longleftrightarrow> live_inv h A s \<and> height (m_rawPrepareCache (m_reqCache s)) = m_consensusBlockNumber s"

lemma raw_inv_frame: "ballot s' = ballot s \<Longrightarrow> raw_inv h A s \<Longrightarrow> raw_inv h A s'"
  using live_inv_frame [of s' s h A] by (simp add: raw_inv_def ballot_def)

lemma raw_keeps_frame: "keeps_ballot m \<Longrightarrow> keeps (raw_inv h A) m"
  by (erule keeps_via_frame) (use raw_inv_frame in blast)

lemma raw_frame_modify: "(\<And>s. ballot (f s) = ballot s) \<Longrightarrow> keeps (raw_inv h A) (modifyM f)"
  by (rule keeps_modify) (use raw_inv_frame in blast)

lemma raw_addPrepareReq: "keeps (raw_inv h A) (modifyM (on_cache (addPrepareReq p)))"
proof (rule keeps_modify)
  fix s :: "'a pbft"
  assume raw: "raw_inv h A s"
  then have live: "live_inv h A s" by (simp add: raw_inv_def)
  have same: "m_rawPrepareCache (addPrepareReq p c) = m_rawPrepareCache c"
    "m_committedPrepareCache (addPrepareReq p c) = m_committedPrepareCache c" for c
    by (simp_all add: reqcache_op_defs)
  have "live_inv h A (on_cache (addPrepareReq p) s)"
    using raw live_parts [OF live]
    by (intro live_on_cache [OF live] reqcache_ok_ops locked_ops) (simp_all add: lock_ok_def same raw_inv_def)
  with raw show "raw_inv h A (on_cache (addPrepareReq p) s)" by (simp add: raw_inv_def on_cache_def same)
qed

lemma raw_live: "keeps (live_inv h A) m \<Longrightarrow> raw_inv h A s \<Longrightarrow> live_inv h A (snd (m s))"
  by (simp add: keeps_def raw_inv_def)

lemma keeps_liveI: "(\<And>s. live_inv h A s \<Longrightarrow> live_inv h A (snd (m s))) \<Longrightarrow> keeps (live_inv h A) m"
  by (rule keepsI)

text \<open>Sequencing a part that keeps the raw invariant with one that only needs the live one.\<close>

lemma raw_then_live:
  assumes "keeps (raw_inv h A) m" "\<And>x s. raw_inv h A s \<Longrightarrow> live_inv h A (snd (f x s))" "raw_inv h A s"
  shows "live_inv h A (snd (bindM m f s))"
proof -
  obtain r s' where m: "m s = (r, s')" by (cases "m s")
  then have "raw_inv h A s'" using keepsD [OF assms(1,3)] by blast
  with assms(2) show ?thesis by (cases r) (auto simp: bindM_def m raw_inv_def)
qed

definition after_exec :: "'w env \<Rightarrow> nat \<Rightarrow> prepare_req \<Rightarrow> (block \<times> nat) option \<Rightarrow> ('w, unit) eng" where
  "after_exec E now req res =
     (case res of None \<Rightarrow> returnM ()
      | Some (sealed, ctx) \<Rightarrow>
          bindM (getM (needOmit sealed)) (\<lambda>omit.
          if omit then
            modifyM (\<lambda>s. emit NotifySignal ((on_time (\<lambda>t. (changeView t)\<lparr>m_changeCycle := 0\<rparr>) s)\<lparr>m_emptyBlockViewChange := True\<rparr>))
          else
            bindM (getM (\<lambda>s. PrepareReq_sealed (crypt E) (m_secret s) now req sealed (Some ctx))) (\<lambda>r.
            bindM (liftM (liftEth r)) (\<lambda>sign_prepare.
            seqM (modifyM (on_cache (addPrepareReq sign_prepare)))
           (bindM (broadcastSignReq E now sign_prepare) (\<lambda>_.
            checkAndCommit E now))))))"

lemma handlePrepareMsg_run:
  "handlePrepareMsg E now req s =
     (if prepare_accepted (crypt E) req s
      then bindM (catchM (bindM (execBlock E now req) (\<lambda>r. returnM (Some r))) (\<lambda>_. returnM None)) (after_exec E now req)
             (on_cache (addRawPrepare req) s)
      else (Inr (), if \<not> isExistPrepare req (m_reqCache s) \<and> \<not> hasConsensused req s \<and> isFutureBlock req s
                    then on_cache (addFuturePrepareCache req) s else s))"
  unfolding handlePrepareMsg_def after_exec_def [abs_def] bindM_def [of "isValidPrepare (crypt E) req"] isValidPrepare_run
  by (simp add: run_simps)

lemma raw_after_exec:
  assumes "sized E" "raw_inv h A s"
  shows "live_inv h A (snd (after_exec E now req res s))"
proof -
  have vote: "keeps (live_inv h A) (bindM (broadcastSignReq E now p) (\<lambda>_. checkAndCommit E now))" for p
    by (intro keeps_rules live_broadcastReq [OF assms(1)] live_checkAndCommit [OF assms(1)])
  have "live_inv h A (snd (seqM (modifyM (on_cache (addPrepareReq p))) (bindM (broadcastSignReq E now p) (\<lambda>_. checkAndCommit E now)) t))"
    if "raw_inv h A t" for p t
    unfolding seqM_def using raw_addPrepareReq raw_live [OF vote] that by (rule raw_then_live)
  moreover have "live_inv h A (emit NotifySignal ((on_time f s)\<lparr>m_emptyBlockViewChange := True\<rparr>))" for f
    using assms(2) live_inv_frame [of "emit NotifySignal ((on_time f s)\<lparr>m_emptyBlockViewChange := True\<rparr>)" s h A]
    by (simp add: raw_inv_def)
  moreover have "live_inv h A s" using assms(2) by (simp add: raw_inv_def)
  ultimately show ?thesis
    using assms(2) unfolding after_exec_def
    by (auto simp: run_simps bindM_def [of "liftM _"] split: option.splits sum.splits)
qed

lemma live_handlePrepareMsg:
  assumes "sized E"
  shows "keeps (live_inv h A) (handlePrepareMsg E now req)"
proof (rule keepsI)
  fix s :: "'a pbft"
  assume live: "live_inv h A s"
  have exec: "keeps (raw_inv h A) (catchM (bindM (execBlock E now req) (\<lambda>r. returnM (Some r))) (\<lambda>_. returnM None))"
    by (intro keeps_rules raw_keeps_frame frame_execBlock)
  show "live_inv h A (snd (handlePrepareMsg E now req s))"
  proof (cases "prepare_accepted (crypt E) req s")
    case True
    then have "raw_inv h A (on_cache (addRawPrepare req) s)"
      using live_addRawPrepare [OF live True]
      by (simp add: raw_inv_def on_cache_def addRawPrepare_def prepare_accepted_def)
    with True show ?thesis
      unfolding handlePrepareMsg_run using raw_then_live [OF exec raw_after_exec [OF assms]] by simp
  next
    case False
    have "live_inv h A (on_cache (addFuturePrepareCache req) s)"
      by (rule keepsD [OF live_clear(2) live run_modify])
    with False live show ?thesis unfolding handlePrepareMsg_run by simp
  qed
qed

section \<open>Votes and view changes\<close>

lemma as_int64_le_MAXVIEW: "n < 2 ^ 64 \<Longrightarrow> as_int64 n \<le> MAXVIEW"
  by (simp add: as_int64_def MAXVIEW_def)

text \<open>A decoded message has a signature of 65 bytes and a view in the range of its type.\<close>

lemma fromBigEndian_w_less: "fromBigEndian_w w p < 2 ^ w"
  by (cases p rule: rev_cases) (simp_all add: fromBigEndian_w_def)

lemma toInt_range: "toInt w flags d = Inr n \<Longrightarrow> n < 2 ^ w"
  using fromBigEndian_w_less by (auto simp: toInt_def bindE_eq_Inr split: if_splits)

lemma keeps_check_result [keeps_rules]:
  "(c = VALID \<Longrightarrow> keeps I a) \<Longrightarrow> (c = INVALID \<Longrightarrow> keeps I b) \<Longrightarrow> (c = FUTURE \<Longrightarrow> keeps I d) \<Longrightarrow>
     keeps I (case c of VALID \<Rightarrow> a | INVALID \<Rightarrow> b | FUTURE \<Rightarrow> d)"
  by (cases c) simp_all

lemma populate_m_run:
  "populate_m r m = (Inr x, m') \<Longrightarrow> length (sig m') = 65 \<and> view m' \<le> MAXVIEW"
  unfolding populate_m_def seqM_def
  by (auto simp: bindM_def modifyM_def liftM_def bindE_eq_Inr split: sum.splits prod.splits
      intro!: as_int64_le_MAXVIEW dest: toInt_range)

lemma decoded_msg:
  "decodeToRequests populate_m data m = (True, r) \<Longrightarrow> length (sig r) = 65 \<and> view r \<le> MAXVIEW"
  by (auto simp: decodeToRequests_def bindM_def liftM_def split: prod.splits sum.splits dest!: populate_m_run)

lemma live_handleVote:
  assumes "sized E"
  shows "keeps (live_inv h A) (handleSignMsg E now pkt)" "keeps (live_inv h A) (handleCommitMsg E now pkt)"
proof -
  have "keeps (live_inv h A) (isValidSignReq (crypt E) r)" "keeps (live_inv h A) (isValidCommitReq (crypt E) r)"
    if "length (sig r) = 65" for r
    unfolding isValidSignReq_def isValidCommitReq_def
    by (intro keeps_rules live_add_vote that)+
  then show "keeps (live_inv h A) (handleSignMsg E now pkt)" "keeps (live_inv h A) (handleCommitMsg E now pkt)"
    unfolding handleSignMsg_def handleCommitMsg_def
    by (auto intro!: keeps_rules live_add_vote live_checkAndCommit [OF assms] live_checkAndSave dest: decoded_msg)+
qed

lemma run_parts:
  assumes "run_inv h A s"
  shows "reqcache_ok (m_reqCache s)" "lock_ok (m_reqCache s) (m_consensusBlockNumber s)" "locked h A (m_reqCache s)"
    "0 \<le> m_view s" "m_view s \<le> m_toView s" "0 \<le> m_consensusBlockNumber s"
  using assms by (simp_all add: run_inv_def engine_inv_def)

lemma run_addViewChange:
  "view r \<le> MAXVIEW \<Longrightarrow> run_inv h A s \<Longrightarrow> run_inv h A (on_cache (addViewChangeReq r) s)"
  by (simp add: run_inv_def engine_inv_def on_cache_def reqcache_ok_addViewChange lock_ok_ops locked_ops)

lemma run_checkAndChangeView: "run_inv h A s \<Longrightarrow> run_inv h A (checkAndChangeView E now s)"
proof -
  assume run: "run_inv h A s"
  have "lock_ok (triggerViewChange v c) n" if "lock_ok c n" for v c n
    using that by (simp add: lock_ok_def reqcache_op_defs msg_clear_def)
  with run_parts [OF run] run show ?thesis
    by (auto simp: checkAndChangeView_def Let_def run_inv_def engine_inv_def emit_def on_cache_def on_time_def
        intro: reqcache_ok_ops locked_ops)
qed

lemma run_triggerFast: "run_inv h A s \<Longrightarrow> run_inv h A (triggerFastViewChange s)"
proof -
  assume run: "run_inv h A s"
  obtain b v where t: "canTriggerViewChange (m_f s) (m_toView s) (m_number (m_highestBlock s)) (m_consensusBlockNumber s) (m_reqCache s) = (b, v)"
    by (metis surj_pair)
  have "b \<Longrightarrow> m_toView s < v" using canTrigger_minView [OF _ run_parts(1) [OF run]] t by (metis fst_conv snd_conv)
  with run_parts [OF run] run show ?thesis
    by (auto simp: triggerFastViewChange_def t run_inv_def engine_inv_def emit_def on_time_def)
qed

lemma run_handleViewChangeMsg: "keeps (run_inv h A) (handleViewChangeMsg E now pkt)"
proof -
  have valid: "keeps (run_inv h A) (isValidViewChangeReq E now r i)" for r i
    unfolding isValidViewChangeReq_def by (intro keeps_rules run_keeps_frame frame_catchupView)
  show ?thesis
    unfolding handleViewChangeMsg_def
    by (auto intro!: keeps_rules valid keeps_modify run_addViewChange run_checkAndChangeView run_triggerFast dest: decoded_msg)
qed

lemma live_run: "live_inv h A s \<Longrightarrow> run_inv h A s"
  by (simp add: live_inv_def)

lemma run_live: "run_inv h A s \<Longrightarrow> m_toView s < MAXVIEW \<Longrightarrow> live_inv h A s"
  by (simp add: inv_defs)

lemma run_handleMsg:
  assumes "sized E" "live_inv h A s" "handleMsg E now pkt s = (r, s')"
  shows "run_inv h A s'"
proof -
  have fwd: "keeps (live_inv h A) (forwardMsg E pkt k n i)" "keeps (run_inv h A) (forwardMsg E pkt k n i)" for k n i
    by (rule live_keeps_frame run_keeps_frame, rule frame_forwardMsg)+
  have prep: "keeps (live_inv h A) (handlePreparePacket E now pkt)"
    unfolding handlePreparePacket_def by (intro keeps_rules live_handlePrepareMsg [OF assms(1)])
  have "keeps (live_inv h A) (handleMsg E now pkt) \<or> keeps (run_inv h A) (handleMsg E now pkt)"
    unfolding handleMsg_def
    using keeps_bind [OF prep fwd(1)] keeps_bind [OF live_handleVote(1) [OF assms(1)] fwd(1)]
      keeps_bind [OF live_handleVote(2) [OF assms(1)] fwd(1)] keeps_bind [OF run_handleViewChangeMsg fwd(2)] keeps_return
    by auto
  then show ?thesis
    using keepsD [of "live_inv h A" "handleMsg E now pkt" s r s'] keepsD [of "run_inv h A" "handleMsg E now pkt" s r s']
      assms(2,3) live_run [of h A s] live_run [of h A s'] by auto
qed

section \<open>Runs of a node\<close>

lemma run_emit: "run_inv h A (emit e s) = run_inv h A s"
  by (rule run_inv_frame) simp

lemma run_nextView:
  assumes "run_inv h A s"
  shows "run_inv h A (on_time f (emit e (on_time g (s\<lparr>m_toView := m_toView s + 1, m_leaderFailed := True\<rparr>))))"
  using run_parts [OF assms] assms by (simp add: run_inv_def engine_inv_def on_time_def emit_def)

lemma run_removeInvalidViewChange:
  assumes "run_inv h A s"
  shows "run_inv h A (on_cache (removeInvalidViewChange v n b) s)"
  using run_parts [OF assms] assms by (simp add: run_inv_def engine_inv_def on_cache_def reqcache_ok_ops lock_ok_ops locked_ops)

lemma run_checkTimeout: "keeps (run_inv h A) (checkTimeout E now)"
  unfolding checkTimeout_def
  by (intro keeps_rules keeps_modify run_keeps_frame frame_broadcastViewChangeReq run_nextView run_removeInvalidViewChange
      run_checkAndChangeView) (simp_all add: run_emit)

lemma live_handleFutureBlock:
  assumes "sized E"
  shows "keeps (live_inv h A) (handleFutureBlock E now)"
  unfolding handleFutureBlock_def Let_def by (intro keeps_rules live_handlePrepareMsg [OF assms] live_clear)

lemma run_collectGarbage:
  assumes "run_inv h A s"
  shows "run_inv h A (collectGarbage E now s)"
  using run_parts [OF assms] assms unfolding collectGarbage_def
  by (simp add: run_inv_def engine_inv_def on_time_def on_cache_def reqcache_ok_ops lock_ok_ops locked_ops)

lemma run_onRecv: "run_inv h A s \<Longrightarrow> run_inv h A (onRecvPBFTMessage now buf sender ep s)"
proof -
  have "ballot (onRecvPBFTMessage now buf sender ep s) = ballot s"
    by (auto simp: onRecvPBFTMessage_def split: option.splits sum.splits)
  then show "run_inv h A s \<Longrightarrow> ?thesis" using run_inv_frame by blast
qed

lemma live_generatePrepare:
  assumes "sized E"
  shows "keeps (live_inv h A) (generatePrepare E now b)"
  unfolding generatePrepare_def
  by (intro keeps_rules inv_rules live_handlePrepareMsg [OF assms] keeps_frame_modify) (simp add: ballot_def emit_def on_time_def)

lemma live_shouldSeal:
  assumes "sized E"
  shows "keeps (live_inv h A) (shouldSeal E now)"
  unfolding shouldSeal_def rehandleCommitedPrepareCache_def Let_def
  by (intro keeps_rules inv_rules live_handlePrepareMsg [OF assms] keeps_frame_modify) simp_all

lemma updateConsensusNodeList_ballot [simp]: "ballot (updateConsensusNodeList E s) = ballot s"
  by (simp add: updateConsensusNodeList_def updateNodeListInP2P_def ballot_def emit_def Let_def)

lemma resetConfig_ballot [simp]: "ballot (resetConfig E s) = ballot s"
proof -
  have "ballot (updateConsensusNodeList E (s\<lparr>m_idx := MAXIDX\<rparr>)) = ballot (s\<lparr>m_idx := MAXIDX\<rparr>)"
    by (rule updateConsensusNodeList_ballot)
  also have "\<dots> = ballot s" by (simp add: ballot_def)
  finally show ?thesis by (simp add: resetConfig_def ballot_def Let_def split: option.splits)
qed

lemma run_reportBlock:
  assumes "run_inv h A s"
  shows "run_inv h A (reportBlock E now b s)"
proof -
  note run = run_parts [OF assms]
  have up: "lock_ok (clearAllExceptCommitCache c) n'" if "lock_ok c n" "n \<le> n'" for c n n'
    using that by (auto simp: lock_ok_def clearAllExceptCommitCache_def msg_clear_def)
  have fin: "run_inv h A (on_cache (delCache x) (on_cache clearAllExceptCommitCache t))"
    if "reqcache_ok (m_reqCache t)" "locked h A (m_reqCache t)" "0 \<le> m_view t" "m_view t \<le> m_toView t"
      "0 \<le> m_consensusBlockNumber t" "lock_ok (m_reqCache t) n" "n \<le> m_consensusBlockNumber t" for t x n
    using that by (simp add: run_inv_def engine_inv_def on_cache_def reqcache_ok_ops locked_ops lock_ok_ops(4) up)
  define hash where "hash = hashOf (crypt E) (m_blockHeader b)"
  define t where "t = (if m_number (m_blockHeader b) \<ge> m_consensusBlockNumber s then
      on_cache (delInvalidViewChange (m_number (m_blockHeader b)) hash)
        ((on_time (\<lambda>t. t\<lparr>m_lastConsensusTime := now, m_changeCycle := 0\<rparr>) (s\<lparr>m_highestBlock := m_blockHeader b\<rparr>))
          \<lparr>m_view := 0, m_toView := 0, m_leaderFailed := False, m_consensusBlockNumber := m_number (m_blockHeader b) + 1\<rparr>)
      else s\<lparr>m_highestBlock := m_blockHeader b\<rparr>)"
  have "reqcache_ok (m_reqCache t)" "locked h A (m_reqCache t)" "0 \<le> m_view t" "m_view t \<le> m_toView t"
    "0 \<le> m_consensusBlockNumber t" "lock_ok (m_reqCache t) (m_consensusBlockNumber s)" "m_consensusBlockNumber s \<le> m_consensusBlockNumber t"
    using run by (auto simp: t_def on_cache_def on_time_def reqcache_ok_ops locked_ops lock_ok_ops)
  moreover have "ballot (resetConfig E t) = ballot t" by simp
  ultimately have "run_inv h A (on_cache (delCache hash) (on_cache clearAllExceptCommitCache (resetConfig E t)))"
    by (intro fin [of _ "m_consensusBlockNumber s"]) (simp_all add: ballot_def)
  moreover have "reportBlock E now b s =
      (if bc_number E (world s) = 0 \<or> m_number (m_highestBlock s) < m_number (m_blockHeader b)
       then on_cache (delCache hash) (on_cache clearAllExceptCommitCache (resetConfig E t)) else s)"
    unfolding reportBlock_def Let_def t_def hash_def by (cases "m_number (m_blockHeader b) \<ge> m_consensusBlockNumber s") simp_all
  ultimately show ?thesis using assms by simp
qed

text \<open>
  A step of a node: an entry point of the engine, or a change of its surroundings. The parts of a turn of the work loop are
  steps of their own. The counter \<open>m_toView\<close> is assumed not to have reached the largest value of its type.
\<close>

inductive pbft_step :: "'w env \<Rightarrow> 'w pbft \<Rightarrow> 'w pbft \<Rightarrow> bool" for E :: "'w env" where
  step_recv: "pbft_step E s (onRecvPBFTMessage now buf sender ep s)"
| step_msg: "m_msgQueue s = pkt # rest \<Longrightarrow> m_toView s < MAXVIEW \<Longrightarrow>
    handleMsg E now pkt (s\<lparr>m_msgQueue := rest\<rparr>) = (r, s') \<Longrightarrow> pbft_step E s s'"
| step_timeout: "m_toView s < MAXVIEW \<Longrightarrow> checkTimeout E now s = (r, s') \<Longrightarrow> pbft_step E s s'"
| step_future: "m_toView s < MAXVIEW \<Longrightarrow> handleFutureBlock E now s = (r, s') \<Longrightarrow> pbft_step E s s'"
| step_garbage: "pbft_step E s (collectGarbage E now s)"
| step_report: "pbft_step E s (reportBlock E now b s)"
| step_generate: "m_toView s < MAXVIEW \<Longrightarrow> generatePrepare E now b s = (q, s') \<Longrightarrow> pbft_step E s s'"
| step_seal: "m_toView s < MAXVIEW \<Longrightarrow> shouldSeal E now s = (q, s') \<Longrightarrow> pbft_step E s s'"
| step_world: "pbft_step E s (s\<lparr>world := w\<rparr>)"

lemma run_step:
  assumes "sized E" "pbft_step E s s'" "run_inv h A s"
  shows "run_inv h A s'"
  using assms(2,3)
proof cases
  case (step_msg pkt rest now r)
  have "live_inv h A (s\<lparr>m_msgQueue := rest\<rparr>)"
    using run_live [OF assms(3) step_msg(2)] live_inv_frame [of "s\<lparr>m_msgQueue := rest\<rparr>" s h A] by simp
  then show ?thesis using run_handleMsg [OF assms(1)] step_msg(3) by blast
next
  case (step_timeout now r)
  then show ?thesis using keepsD [OF run_checkTimeout assms(3)] by blast
next
  case (step_future now r)
  then show ?thesis using keepsD [OF live_handleFutureBlock [OF assms(1)] run_live [OF assms(3)]] live_run by blast
next
  case (step_generate now b q)
  then show ?thesis using keepsD [OF live_generatePrepare [OF assms(1)] run_live [OF assms(3)]] live_run by blast
next
  case (step_seal now q)
  then show ?thesis using keepsD [OF live_shouldSeal [OF assms(1)] run_live [OF assms(3)]] live_run by blast
next
  case (step_world w)
  then show ?thesis using assms(3) run_inv_frame [of s' s h A] by simp
qed (simp_all add: run_onRecv run_collectGarbage run_reportBlock)

lemma run_steps:
  assumes "sized E" "(pbft_step E)\<^sup>*\<^sup>* s s'" "run_inv h A s"
  shows "run_inv h A s'"
  using assms(2,3) by (induction rule: rtranclp_induct) (use run_step [OF assms(1)] in blast)+

text \<open>
  C1. The commit lock: in every run of a node that starts in a state satisfying the invariant, the height of the proposal the node
  has voted to commit never decreases, and as long as it stays at one height its block hash does not change. So a node never
  casts commit votes for two different proposals of the same height, across views, time-outs, forwarded and forged messages.
\<close>

theorem commit_lock:
  assumes "sized E" "(pbft_step E)\<^sup>*\<^sup>* s s'" "engine_inv s"
  shows "engine_inv s'
    \<and> height (m_committedPrepareCache (m_reqCache s)) \<le> height (m_committedPrepareCache (m_reqCache s'))
    \<and> (height (m_committedPrepareCache (m_reqCache s')) = height (m_committedPrepareCache (m_reqCache s)) \<longrightarrow>
         block_hash (m_committedPrepareCache (m_reqCache s')) = block_hash (m_committedPrepareCache (m_reqCache s)))"
proof -
  have "run_inv (height (m_committedPrepareCache (m_reqCache s))) (block_hash (m_committedPrepareCache (m_reqCache s))) s"
    using assms(3) by (simp add: run_inv_def locked_def)
  from run_steps [OF assms(1,2) this] show ?thesis by (simp add: run_inv_def locked_def)
qed

text \<open>A small node of four miners, on a world without content.\<close>

definition toy_env :: "unit env" where
  "toy_env = \<lparr>crypt = toy_crypto, bc_number = (\<lambda>_. 0), bc_numberHash = (\<lambda>_ _. hash_zero 32),
     bc_getBlockByHash = (\<lambda>_ _. None), bc_getBlockByNumber = (\<lambda>_ _. None),
     bc_minerList = (\<lambda>_. [hash_of_nat 64 5, hash_of_nat 64 6, hash_of_nat 64 7, hash_of_nat 64 8]),
     bc_observerList = (\<lambda>_. []), bc_getSystemConfigByKey = (\<lambda>_ _ _. ''1000''), bc_commitBlock = (\<lambda>_ _ w. (Inr OK, w)),
     bv_executeBlock = (\<lambda>b _ w. (Inr (b, 0), w)), convert_to_size_t = (\<lambda>n. n), lexical_cast_uint64 = (\<lambda>_. Some 1000),
     db_insert = (\<lambda>_ _ w. (True, w)), db_lookup = (\<lambda>_ _. []), diskSpaceEnough = (\<lambda>_. True),
     sessions = (\<lambda>_. [hash_of_nat 64 5, hash_of_nat 64 6, hash_of_nat 64 9]), isConnected = (\<lambda>_ _. True)\<rparr>"

definition toy_engine :: "unit pbft" where
  "toy_engine = \<lparr>m_consensusBlockNumber = 3, m_highestBlock = header_new\<lparr>m_number := 2, m_sealer := 1\<rparr>, m_nodeNum = 4, m_f = 1,
     m_idx = 3, m_protocolId = 264, m_accountType = MinerAccount,
     m_minerList = [hash_of_nat 64 5, hash_of_nat 64 6, hash_of_nat 64 7, hash_of_nat 64 8], m_allowFutureBlocks = True,
     m_startConsensusEngine = True, m_lastNodeList = [], m_secret = [], m_pub = hash_of_nat 64 8, world = (), effects = [],
     m_view = 0, m_toView = 0, m_connectedNode = 3, m_cfgErr = False, m_leaderFailed = False, m_omitEmptyBlock = True,
     m_emptyBlockViewChange = False, m_backupDB = False, m_broadCastCache = [],
     m_reqCache = req_cache_new\<lparr>m_committedPrepareCache := prepare_new\<lparr>height := 3, block_hash := hash_of_nat 32 9\<rparr>\<rparr>,
     m_timeManager = time_manager_new, m_msgQueue = [], maxTTL = 2\<rparr>"

lemma toy_sized: "sized toy_env"
  by (simp add: sized_def toy_env_def toy_crypto_def hash_of_nat_def)

lemma toy_engine_inv: "engine_inv toy_engine"
  using reqcache_ok_new
  by (simp add: engine_inv_def toy_engine_def lock_ok_def reqcache_ok_def req_cache_new_def prepare_new_def)

lemma toy_engine_commit:
  "height (m_committedPrepareCache (m_reqCache toy_engine)) = 3"
  "block_hash (m_committedPrepareCache (m_reqCache toy_engine)) = hash_of_nat 32 9"
  by (simp_all add: toy_engine_def)

theorem commit_lock_witness:
  "engine_inv (snd (checkTimeout toy_env 5 toy_engine))
    \<and> 3 \<le> height (m_committedPrepareCache (m_reqCache (snd (checkTimeout toy_env 5 toy_engine))))
    \<and> (if height (m_committedPrepareCache (m_reqCache (snd (checkTimeout toy_env 5 toy_engine)))) = 3
       then block_hash (m_committedPrepareCache (m_reqCache (snd (checkTimeout toy_env 5 toy_engine)))) = hash_of_nat 32 9
       else True)"
proof -
  have "m_toView toy_engine < MAXVIEW" by (simp add: toy_engine_def MAXVIEW_def)
  then have "pbft_step toy_env toy_engine (snd (checkTimeout toy_env 5 toy_engine))"
    by (rule pbft_step.step_timeout) (rule prod.collapse [symmetric])
  then have "(pbft_step toy_env)\<^sup>*\<^sup>* toy_engine (snd (checkTimeout toy_env 5 toy_engine))" by (rule r_into_rtranclp)
  from commit_lock [OF toy_sized this toy_engine_inv]
  show ?thesis unfolding toy_engine_commit by simp
qed

end
