(* ===== verification/PBFTQuorum.thy ===== *)
theory PBFTQuorum
  imports PBFTSafety
begin

text \<open>
  Votes, quorums, leaders and gossip of the PBFT engine: which votes are counted, what stands behind a committed block,
  what two quorums have in common, how leaders rotate, and what is sent and forwarded.
\<close>

section \<open>Authentic votes\<close>

text \<open>A vote is authentic for a configuration if a miner signed it, or if it is the node's own.\<close>

definition authentic :: "crypto \<Rightarrow> 'w pbft \<Rightarrow> pbftmsg \<Rightarrow> bool" where
  "authentic C s r \<longleftrightarrow> checkSign C r s \<or> (idx r = m_idx s \<and> sig r = sign C (m_secret s) (block_hash r))"

definition votes_authentic :: "crypto \<Rightarrow> 'w pbft \<Rightarrow> bool" where
  "votes_authentic C s \<longleftrightarrow> nested_ok (\<lambda>_ _ r. authentic C s r) (m_signCache (m_reqCache s))
     \<and> nested_ok (\<lambda>_ _ r. authentic C s r) (m_commitCache (m_reqCache s))
     \<and> nested_ok (\<lambda>_ _ r. checkSign C r s) (m_recvViewChangeReq (m_reqCache s))"

lemma authentic_config: "config s' = config s \<Longrightarrow> authentic C s' = authentic C s"
  and checkSign_config: "config s' = config s \<Longrightarrow> checkSign C r s' = checkSign C r s"
  by (simp_all add: authentic_def [abs_def] checkSign_def config_def getNodeIDByIndex_def getMinerByIndex_def)

lemma on_cache_config [simp]: "config (on_cache f s) = config s" "m_reqCache (on_cache f s) = f (m_reqCache s)"
    "authentic C (on_cache f s) = authentic C s" "checkSign C r (on_cache f s) = checkSign C r s"
  by (rule authentic_config checkSign_config | simp add: on_cache_def config_def)+

lemma votes_authentic_frame:
  assumes "m_reqCache s' = m_reqCache s" "config s' = config s"
  shows "votes_authentic C s' = votes_authentic C s"
  using assms(1) by (simp add: votes_authentic_def authentic_config [OF assms(2)] checkSign_config [OF assms(2)])

text \<open>Operations of the cache that only drop votes.\<close>

lemma votes_on_cache:
  assumes "votes_authentic C s"
    and "\<And>P. nested_ok P (m_signCache (m_reqCache s)) \<Longrightarrow> nested_ok P (m_signCache (f (m_reqCache s)))"
    and "\<And>P. nested_ok P (m_commitCache (m_reqCache s)) \<Longrightarrow> nested_ok P (m_commitCache (f (m_reqCache s)))"
    and "\<And>P. nested_ok P (m_recvViewChangeReq (m_reqCache s)) \<Longrightarrow> nested_ok P (m_recvViewChangeReq (f (m_reqCache s)))"
  shows "votes_authentic C (on_cache f s)"
  using assms by (simp add: votes_authentic_def)

lemma votes_drop:
  assumes "votes_authentic C s"
  shows "votes_authentic C (on_cache (addRawPrepare p) s)" "votes_authentic C (on_cache (addPrepareReq p) s)"
    "votes_authentic C (on_cache (addFuturePrepareCache p) s)" "votes_authentic C (on_cache updateCommittedPrepare s)"
    "votes_authentic C (on_cache (delCache b) s)" "votes_authentic C (on_cache clearAllExceptCommitCache s)"
    "votes_authentic C (on_cache resetFuturePrepare s)" "votes_authentic C (on_cache (triggerViewChange v) s)"
    "votes_authentic C (on_cache (removeInvalidViewChange v n b) s)"
  by (rule votes_on_cache [OF assms]; simp add: reqcache_op_defs nested_rules Let_def)+

lemma votes_add:
  assumes "votes_authentic C s" "authentic C s r"
  shows "votes_authentic C (on_cache (addSignReq r) s)" "votes_authentic C (on_cache (addCommitReq r) s)"
  using assms by (simp_all add: votes_authentic_def addSignReq_def addCommitReq_def nested_rules)

lemma votes_addViewChange:
  assumes "votes_authentic C s" "checkSign C r s"
  shows "votes_authentic C (on_cache (addViewChangeReq r) s)"
  using assms by (simp_all add: votes_authentic_def addViewChangeReq_def nested_rules)

text \<open>The invariant of a handler: the configuration is \<open>c\<close> throughout.\<close>

definition auth_inv :: "crypto \<Rightarrow> bytes list \<times> nat \<times> nat \<times> nat \<times> bytes \<times> header \<times> bool \<Rightarrow> 'w pbft \<Rightarrow> bool" where
  "auth_inv C c s \<longleftrightarrow> votes_authentic C s \<and> config s = c"

lemma auth_inv_frame: "m_reqCache s' = m_reqCache s \<Longrightarrow> config s' = config s \<Longrightarrow> auth_inv C c s \<Longrightarrow> auth_inv C c s'"
  using votes_authentic_frame [of s' s C] by (simp add: auth_inv_def)

lemma auth_keeps_frame: "keeps_ballot m \<Longrightarrow> keeps (auth_inv C c) m"
  by (erule keeps_via_frame, erule auth_inv_frame [rotated 2]) (simp_all add: ballot_def)

lemma auth_frame_modify:
  "(\<And>s. ballot (f s) = ballot s) \<Longrightarrow> (\<And>s. config (f s) = config s) \<Longrightarrow> keeps (auth_inv C c) (modifyM f)"
  by (rule keeps_modify, erule auth_inv_frame [rotated 2]) (simp_all add: ballot_def)

named_theorems auth_rules \<open>methods that keep the votes authentic\<close>

lemmas auth_frames [auth_rules] = frame_rules [THEN auth_keeps_frame]

lemma auth_drop [auth_rules]:
  "keeps (auth_inv C c) (modifyM (on_cache (addRawPrepare p)))" "keeps (auth_inv C c) (modifyM (on_cache (addPrepareReq p)))"
  "keeps (auth_inv C c) (modifyM (on_cache (addFuturePrepareCache p)))" "keeps (auth_inv C c) (modifyM (on_cache updateCommittedPrepare))"
  "keeps (auth_inv C c) (modifyM (on_cache clearAllExceptCommitCache))"
  "keeps (auth_inv C c) (modifyM (\<lambda>s. on_cache (delCache (b s)) s))"
  by (rule keeps_modify, simp add: auth_inv_def votes_drop)+

lemma auth_add [auth_rules]:
  assumes "auth_inv C c t" "authentic C t r"
  shows "keeps (auth_inv C c) (modifyM (on_cache (addSignReq r)))" "keeps (auth_inv C c) (modifyM (on_cache (addCommitReq r)))"
proof -
  have auth: "authentic C s r" if "auth_inv C c s" for s
    using assms that authentic_config [of s t C] by (simp add: auth_inv_def)
  show "keeps (auth_inv C c) (modifyM (on_cache (addSignReq r)))" "keeps (auth_inv C c) (modifyM (on_cache (addCommitReq r)))"
    by (rule keeps_modify, frule auth, simp add: auth_inv_def votes_add)+
qed

lemma own_vote_authentic: "authentic (crypt E) t (PBFTMsg (crypt E) (m_secret t) now h v (m_idx t) b)"
  by (simp add: authentic_def PBFTMsg_def sign_msg_def)

lemma auth_broadcastReq [auth_rules]:
  "keeps (auth_inv (crypt E) c) (broadcastSignReq E now req)" "keeps (auth_inv (crypt E) c) (broadcastCommitReq E now req)"
  unfolding broadcastSignReq_def broadcastCommitReq_def
  by (rule keeps_bind_get, intro keeps_rules auth_frames auth_add, assumption, simp add: SignReq_def CommitReq_def own_vote_authentic)+

lemma auth_commitBlock [auth_rules]: "keeps (auth_inv C c) (\<lambda>s. case f (world s) of (r, w) \<Rightarrow> (r, s\<lparr>world := w\<rparr>))"
proof (rule keepsI)
  fix s :: "'a pbft"
  assume "auth_inv C c s"
  then have "auth_inv C c (s\<lparr>world := w\<rparr>)" for w using auth_inv_frame [of "s\<lparr>world := w\<rparr>" s C c] by simp
  then show "auth_inv C c (snd (case f (world s) of (r, w) \<Rightarrow> (r, s\<lparr>world := w\<rparr>)))" by (simp split: prod.splits)
qed

lemma auth_checkAndSave [auth_rules]: "keeps (auth_inv C c) (checkAndSave E)"
  unfolding checkAndSave_def Let_def
  by (intro keeps_rules auth_frames auth_drop auth_commitBlock auth_frame_modify) simp_all

lemma auth_checkAndCommit [auth_rules]: "keeps (auth_inv (crypt E) c) (checkAndCommit E now)"
  unfolding checkAndCommit_def Let_def
  by (intro keeps_rules auth_frames auth_drop auth_broadcastReq auth_checkAndSave auth_frame_modify) simp_all

lemma auth_handlePrepareMsg [auth_rules]: "keeps (auth_inv (crypt E) c) (handlePrepareMsg E now req)"
  unfolding handlePrepareMsg_def isValidPrepare_def
  by (intro keeps_rules auth_frames auth_drop auth_broadcastReq auth_checkAndCommit auth_frame_modify) simp_all

lemma checkReq_sign: "checkReq C req s \<noteq> INVALID \<Longrightarrow> checkSign C req s"
  by (auto simp: checkReq_def Let_def split: if_splits)

lemma isValidVote_run:
  "isValidSignReq C r s =
     (Inr (\<not> isExistSign r (m_reqCache s) \<and> checkReq C r s = VALID),
      if \<not> isExistSign r (m_reqCache s) \<and> checkReq C r s = FUTURE then on_cache (addSignReq r) s else s)"
  "isValidCommitReq C r s =
     (Inr (\<not> isExistCommit r (m_reqCache s) \<and> checkReq C r s = VALID),
      if \<not> isExistCommit r (m_reqCache s) \<and> checkReq C r s = FUTURE then on_cache (addCommitReq r) s else s)"
  by (auto simp: isValidSignReq_def isValidCommitReq_def run_simps split: check_result.splits)

text \<open>A vote that passes the check is authentic in every state of that configuration.\<close>

lemma auth_valid_then:
  fixes k :: "('w, unit) eng"
  assumes "\<And>t :: 'w pbft. auth_inv C c t \<Longrightarrow> authentic C t r \<Longrightarrow> keeps (auth_inv C c) k"
  shows "keeps (auth_inv C c) (bindM (isValidSignReq C r) (\<lambda>ok. seqM (whenM ok k) (returnM x)))"
    and "keeps (auth_inv C c) (bindM (isValidCommitReq C r) (\<lambda>ok. seqM (whenM ok k) (returnM x)))"
proof -
  have branch: "auth_inv C c (snd (seqM (whenM ok k) (returnM x) (if fut then on_cache add s else s)))"
    if "auth_inv C c s" "ok \<or> fut \<Longrightarrow> checkSign C r s" "add = addSignReq r \<or> add = addCommitReq r" for ok fut add and s :: "'w pbft"
  proof -
    have auth: "authentic C s r" if "ok \<or> fut" using \<open>ok \<or> fut \<Longrightarrow> checkSign C r s\<close> that by (simp add: authentic_def)
    have "auth_inv C c (if fut then on_cache add s else s)"
      using that(1,3) auth votes_add by (auto simp: auth_inv_def)
    moreover have "keeps (auth_inv C c) (seqM (whenM ok k) (returnM x))"
      using assms [OF that(1)] auth by (intro keeps_rules) simp
    ultimately show ?thesis by (simp add: keeps_def)
  qed
  show "keeps (auth_inv C c) (bindM (isValidSignReq C r) (\<lambda>ok. seqM (whenM ok k) (returnM x)))"
    "keeps (auth_inv C c) (bindM (isValidCommitReq C r) (\<lambda>ok. seqM (whenM ok k) (returnM x)))"
    by (rule keepsI, simp only: bindM_def isValidVote_run prod.case sum.case, rule branch,
        auto intro: checkReq_sign)+
qed

lemma auth_handleVote [auth_rules]:
  "keeps (auth_inv (crypt E) c) (handleSignMsg E now pkt)" "keeps (auth_inv (crypt E) c) (handleCommitMsg E now pkt)"
  unfolding handleSignMsg_def handleCommitMsg_def
  by (intro keeps_case_prod keeps_if keeps_return auth_valid_then keeps_seq auth_add auth_checkAndCommit auth_checkAndSave; assumption)+

text \<open>View changes.\<close>

lemma catchupView_valid:
  assumes "isValidViewChangeReq E now r i s = (Inr True, s')"
  shows "checkSign (crypt E) r s"
  using assms
  by (auto simp: isValidViewChangeReq_def run_simps seqM_def bindM_def split: if_splits prod.splits sum.splits)

lemma auth_checkAndChangeView: "auth_inv C c s \<Longrightarrow> auth_inv C c (checkAndChangeView E now s)"
proof -
  assume auth: "auth_inv C c s"
  let ?s1 = "on_time (\<lambda>t. t\<lparr>m_lastConsensusTime := now\<rparr>) (s\<lparr>m_leaderFailed := False, m_view := m_toView s\<rparr>)"
  have "auth_inv C c ?s1" using auth by (rule auth_inv_frame [rotated 2]) (simp_all add: config_def on_time_def)
  then have "auth_inv C c (on_cache (triggerViewChange v) ?s1)" for v by (simp add: auth_inv_def votes_drop)
  then have "auth_inv C c (emit e (on_cache (triggerViewChange v) ?s1))" for e v
    by (rule auth_inv_frame [rotated 2]) (simp_all add: emit_def config_def)
  with auth show ?thesis by (simp add: checkAndChangeView_def Let_def)
qed

lemma auth_triggerFast: "auth_inv C c s \<Longrightarrow> auth_inv C c (triggerFastViewChange s)"
  by (erule auth_inv_frame [rotated 2]) (auto simp: triggerFastViewChange_def config_def emit_def on_time_def split: prod.splits)

lemma auth_handleViewChangeMsg: "keeps (auth_inv (crypt E) c) (handleViewChangeMsg E now pkt)"
proof (rule keepsI)
  fix s :: "'a pbft"
  assume auth: "auth_inv (crypt E) c s"
  have frame: "keeps_ballot (isValidViewChangeReq E now r i)" for r i
    unfolding isValidViewChangeReq_def by (intro allI keeps_rules frame_catchupView [rule_format])
  obtain valid r where dec: "decodeToRequests populate_m (pkt_data pkt) pbftmsg_new = (valid, r)" by fastforce
  obtain ok s' where v: "isValidViewChangeReq E now r (node_idx pkt) s = (ok, s')" by fastforce
  have auth': "auth_inv (crypt E) c s'" using keepsD [OF auth_keeps_frame [OF frame] auth v] .
  have "auth_inv (crypt E) c (on_cache (addViewChangeReq r) s')" if "ok = Inr True"
  proof -
    have "checkSign (crypt E) r s" using catchupView_valid v that by blast
    then have "checkSign (crypt E) r s'" using auth auth' checkSign_config [of s' s "crypt E" r] by (simp add: auth_inv_def)
    then show ?thesis using auth' by (simp add: auth_inv_def votes_addViewChange)
  qed
  then show "auth_inv (crypt E) c (snd (handleViewChangeMsg E now pkt s))"
    using auth auth' dec v
    by (cases ok) (auto simp: handleViewChangeMsg_def run_simps bindM_def seqM_def whenM_def modifyM_def
        intro: auth_checkAndChangeView auth_triggerFast)
qed



section \<open>The quorum behind a committed block\<close>

text \<open>What \<open>checkAndSave\<close> does when it hands a block to the chain.\<close>

lemma checkAndSave_commit:
  assumes "checkAndSave E s = (r, s')" "CommitBlock b \<in> set (drop (length (effects s)) (effects s'))"
    and "prep = m_prepareCache (m_reqCache s)"
  shows "minValidNodes s \<le> getSigCacheSize (block_hash prep) (m_reqCache s)"
    and "minValidNodes s \<le> getCommitCacheSize (block_hash prep) (m_reqCache s)"
    and "view prep = m_view s" "m_number (m_highestBlock s) < height prep"
    and "\<exists>b0 ok. block_decode (crypt E) (block_data prep) block_new = Inr b0
      \<and> generateAndSetSigList (minValidNodes s) b0 (m_reqCache s) = Inr (ok, b)"
  using assms
  by (auto simp: checkAndSave_def Let_def method_defs liftEth_def emit_def on_cache_def dropHandledTransactions_def
      split: if_splits sum.splits prod.splits)

lemma commit_certificate:
  fixes s :: "'w pbft"
  assumes "reqcache_ok (m_reqCache s)" "votes_authentic (crypt E) s" "0 < minValidNodes s"
    and "checkAndSave E s = (r, s')" "CommitBlock b \<in> set (drop (length (effects s)) (effects s'))"
    and "prep = m_prepareCache (m_reqCache s)"
  shows "\<exists>b0. block_decode (crypt E) (block_data prep) block_new = Inr b0 \<and> b = setSigList (m_sigList b) b0"
    and "minValidNodes s \<le> length (m_sigList b)" "distinct (map snd (m_sigList b))"
    and "\<And>i sg. (i, sg) \<in> set (m_sigList b) \<Longrightarrow>
         (i < length (m_minerList s) \<and> dev_verify (crypt E) (m_minerList s ! i) sg (block_hash prep))
         \<or> (i = m_idx s \<and> sg = sign (crypt E) (m_secret s) (block_hash prep))"
proof -
  note commit = checkAndSave_commit [OF assms(4-6)]
  have "getCommitCacheSize (block_hash prep) (m_reqCache s) \<noteq> 0" using commit(2) assms(3) by simp
  then obtain m where m: "map_of (m_commitCache (m_reqCache s)) (block_hash prep) = Some m"
    by (auto simp: getCommitCacheSize_def getSizeFromCache_def split: option.splits)
  note votes = commit_votes [OF assms(1) m]
  let ?sigs = "map (\<lambda>(_, r). (idx r, sig r)) m"
  obtain b0 where b0: "block_decode (crypt E) (block_data prep) block_new = Inr b0" "b = setSigList ?sigs b0"
    "minValidNodes s \<le> length m"
    using commit(5) m votes(1) by (auto simp: generateAndSetSigList_def assms(6) split: if_splits)
  have sl: "m_sigList b = ?sigs" by (simp add: b0(2) setSigList_def)
  show "minValidNodes s \<le> length (m_sigList b)" "distinct (map snd (m_sigList b))"
    using b0(3) votes(2) by (simp_all add: sl comp_def prod.case_distrib [of snd])
  show "\<exists>b0. block_decode (crypt E) (block_data prep) block_new = Inr b0 \<and> b = setSigList (m_sigList b) b0"
    using b0(1) by (simp add: b0(2) setSigList_def)
  fix i sg
  assume "(i, sg) \<in> set (m_sigList b)"
  then obtain key q where q: "(key, q) \<in> set m" "idx q = i" "sig q = sg" by (auto simp: sl)
  then have "authentic (crypt E) s q"
    using assms(2) nested_ok_lookup(2) [OF _ m] unfolding votes_authentic_def by blast
  with q votes(3) [OF q(1)]
  show "(i < length (m_minerList s) \<and> dev_verify (crypt E) (m_minerList s ! i) sg (block_hash prep))
         \<or> (i = m_idx s \<and> sg = sign (crypt E) (m_secret s) (block_hash prep))"
    by (auto simp: authentic_def checkSign_def getNodeIDByIndex_def getMinerByIndex_def Let_def split: if_splits)
qed


text \<open>A proposal whose content is a block with the hash that is voted on.\<close>

definition prepare_consistent :: "crypto \<Rightarrow> prepare_req \<Rightarrow> bool" where
  "prepare_consistent C p \<longleftrightarrow>
     (case block_decode C (block_data p) block_new of Inl _ \<Rightarrow> False | Inr b \<Rightarrow> hashOf C (m_blockHeader b) = block_hash p)"

lemma block_wire_hash:
  assumes "block_wf C b" "\<And>x. length (sha3 C x) = 32"
  shows "\<exists>b'. block_encode C b = Inr (enc_list (concat (block_items C b)), b')"
    and "\<exists>b0. block_decode C (enc_list (concat (block_items C b))) block_new = Inr b0
      \<and> hashOf C (m_blockHeader b0) = hashOf C (m_blockHeader b)"
proof -
  let ?h = "m_blockHeader b"
  have enc: "header_encode ?h = Inr (header_bytes ?h)" and memo: "memo_ok C ?h"
    using assms(1) header_encode_items [of ?h] by (simp_all add: block_wf_def header_bytes_def)
  have "memo_ok C (?h\<lparr>m_hash := sha3 C (header_bytes ?h)\<rparr>)"
    using enc by (simp add: memo_ok_def)
  then have "hashOf C (?h\<lparr>m_hash := sha3 C (header_bytes ?h)\<rparr>) = hashOf C ?h"
    using hashOf_memo_ok(2) [OF memo enc] hashOf_memo_ok(2) enc by simp
  then show "\<exists>b0. block_decode C (enc_list (concat (block_items C b))) block_new = Inr b0
      \<and> hashOf C (m_blockHeader b0) = hashOf C (m_blockHeader b)"
    using block_decode_items [OF assms] by simp
qed (rule block_encode_items [OF assms])

text \<open>The proposal a node stores after executing a block is consistent.\<close>

lemma sealed_consistent:
  assumes "block_wf C b" "\<And>x. length (sha3 C x) = 32" "PrepareReq_sealed C key now req b ctx = Inr p"
  shows "prepare_consistent C p"
  using block_wire_hash [OF assms(1,2)] assms(3)
  by (auto simp: PrepareReq_sealed_def prepare_consistent_def sign_msg_def)


text \<open>A chain of one node that has voted for the block of number 7.\<close>

definition solo_block :: block where
  "solo_block = block_new\<lparr>m_blockHeader := header_new\<lparr>m_number := 7, m_sealer := 0, m_sealerList := [hash_of_nat 64 5]\<rparr>\<rparr>"

definition solo_prepare :: prepare_req where
  "solo_prepare = sign_msg toy_crypto [] (prepare_new\<lparr>height := 7, view := 0, idx := 0, p_execContext := Some 0,
     block_data := enc_list (concat (block_items toy_crypto solo_block)), timestamp := 9,
     block_hash := hashOf toy_crypto (m_blockHeader solo_block)\<rparr>)"

definition solo_engine :: "unit pbft" where
  "solo_engine = toy_engine\<lparr>m_minerList := [hash_of_nat 64 5], m_nodeNum := 1, m_f := 0, m_idx := 0,
     m_consensusBlockNumber := 7, m_highestBlock := header_new\<lparr>m_number := 6\<rparr>,
     m_reqCache := addCommitReq (CommitReq toy_crypto [] 9 solo_prepare 0)
       (addSignReq (SignReq toy_crypto [] 9 solo_prepare 0) (req_cache_new\<lparr>m_prepareCache := solo_prepare\<rparr>))\<rparr>"

lemma solo_block_wf: "block_wf toy_crypto solo_block"
proof -
  have wf: "header_wf (m_blockHeader solo_block)"
    by (simp add: solo_block_def header_new_def header_wf_def INT64_MAX_def UINT64_MAX_def u256_def header_items_def
        enc_data_def enc_list_def enc_int_def length_rlp_header rlp_size_ok_def bytesRequired_pos)
  have len: "length (header_bytes (m_blockHeader solo_block)) \<le> 10000"
    by (simp add: solo_block_def header_bytes_def header_new_def header_items_def UINT64_MAX_def
        enc_data_def enc_list_def enc_int_def length_rlp_header bytesRequired_pos)
  have "length (enc_data (sha3 toy_crypto (header_bytes (m_blockHeader solo_block)))) = 33" by (rule length_enc_data_32) simp
  then have "rlp_size_ok (length (concat (block_items toy_crypto solo_block)))"
    using len by (simp add: block_items_def solo_block_def block_new_def rlp_size_ok_def enc_list_def length_rlp_header)
  with wf show ?thesis
    by (simp add: block_wf_def solo_block_def block_new_def memo_ok_def header_new_def INT64_MAX_def)
qed

lemma solo_consistent: "prepare_consistent toy_crypto solo_prepare"
  using block_wire_hash(2) [OF solo_block_wf] by (auto simp: prepare_consistent_def solo_prepare_def sign_msg_def)

lemma solo_ok: "reqcache_ok (m_reqCache solo_engine)" "votes_authentic toy_crypto solo_engine" "minValidNodes solo_engine = 1"
proof -
  have "reqcache_ok (req_cache_new\<lparr>m_prepareCache := solo_prepare\<rparr>)" using reqcache_ok_new by (simp add: reqcache_ok_def)
  moreover have "length (sig (PBFTMsg toy_crypto k now h v i b)) = 65" for k now h v i b
    by (simp add: PBFTMsg_def sign_msg_def toy_crypto_def)
  ultimately show "reqcache_ok (m_reqCache solo_engine)"
    by (simp add: solo_engine_def reqcache_ok_add SignReq_def CommitReq_def)
  have "authentic toy_crypto solo_engine (PBFTMsg toy_crypto [] now h v 0 b)" for now h v b
    using own_vote_authentic [of toy_env solo_engine] by (simp add: toy_env_def solo_engine_def toy_engine_def)
  then show "votes_authentic toy_crypto solo_engine"
    by (simp add: votes_authentic_def)
      (simp add: solo_engine_def addSignReq_def addCommitReq_def req_cache_new_def nested_rules SignReq_def CommitReq_def)
qed (simp add: minValidNodes_def solo_engine_def)

lemma solo_commits:
  "\<exists>b0 x. CommitBlock (setSigList [(0, hash_of_nat 65 7)] b0) \<in>
      set (drop (length (effects solo_engine)) (effects (snd (checkAndSave toy_env solo_engine))))
    \<and> block_decode toy_crypto (block_data solo_prepare) block_new = Inr b0 \<and> m_blockHeader b0 = (m_blockHeader solo_block)\<lparr>m_hash := x\<rparr>
    \<and> m_transactions b0 = []"
proof -
  have env: "crypt toy_env = toy_crypto" "bc_commitBlock toy_env b x w = (Inr OK, w)" for b x w by (simp_all add: toy_env_def)
  let ?c = "m_reqCache solo_engine" and ?v = "PBFTMsg toy_crypto [] 9 7 0 0 (block_hash solo_prepare)"
  have prep: "m_prepareCache ?c = solo_prepare" by (simp add: solo_engine_def addSignReq_def addCommitReq_def)
  have sp: "height solo_prepare = 7" "view solo_prepare = 0" "p_execContext solo_prepare = Some 0"
    "block_data solo_prepare = enc_list (concat (block_items toy_crypto solo_block))"
    by (simp_all add: solo_prepare_def sign_msg_def)
  have v: "sig ?v = hash_of_nat 65 7" "idx ?v = 0" "block_hash ?v = block_hash solo_prepare"
    by (simp_all add: PBFTMsg_def sign_msg_def toy_crypto_def)
  have caches: "map_of (m_signCache ?c) (block_hash solo_prepare) = Some [(toHex (hash_of_nat 65 7), ?v)]"
    "map_of (m_commitCache ?c) (block_hash solo_prepare) = Some [(toHex (hash_of_nat 65 7), ?v)]"
    by (simp_all add: solo_engine_def addSignReq_def addCommitReq_def req_cache_new_def nested_set_def SignReq_def CommitReq_def sp v)
  obtain b0 x where b0: "block_decode toy_crypto (block_data solo_prepare) block_new = Inr b0"
    "m_blockHeader b0 = (m_blockHeader solo_block)\<lparr>m_hash := x\<rparr>" "m_transactions b0 = []"
    using block_decode_items [OF solo_block_wf] by (simp add: sp solo_block_def block_new_def)
  have gen: "generateAndSetSigList 1 b0 ?c = Inr (True, setSigList [(0, hash_of_nat 65 7)] b0)"
    by (simp add: generateAndSetSigList_def prep caches sig_of_key_toHex v)
  have "view solo_prepare = m_view solo_engine" "height solo_prepare > m_number (m_highestBlock solo_engine)"
    by (simp_all add: sp solo_engine_def toy_engine_def)
  then have "CommitBlock (setSigList [(0, hash_of_nat 65 7)] b0) \<in>
      set (drop (length (effects solo_engine)) (effects (snd (checkAndSave toy_env solo_engine))))"
    using solo_ok(3) b0(1) gen
    by (simp add: checkAndSave_def Let_def prep getSigCacheSize_def getCommitCacheSize_def getSizeFromCache_def caches env
        method_defs emit_def on_cache_def dropHandledTransactions_def)
  with b0 show ?thesis by blast
qed



text \<open>
  C25. \<open>checkBlock\<close> counts signatures, not signers: a block whose signature list is one valid signature of one miner, repeated
  \<open>minValidNodes\<close> times, is accepted. A block that is only received, not agreed on by the node itself, is therefore not
  protected by a quorum of distinct miners.
\<close>

theorem checkBlock_one_signer:
  assumes "i < length (m_minerList s)" "dev_verify (crypt E) (m_minerList s ! i) sg (hashOf (crypt E) (m_blockHeader b))"
    and "convert_to_size_t E i = i" "m_sealerList (m_blockHeader b) = m_minerList s"
    and "getMinerByIndex (convert_to_size_t E (m_sealer (m_blockHeader b))) s \<noteq> hash_zero 64"
    and "lexical_cast_uint64 E (bc_getSystemConfigByKey E (world s) ''tx_count_limit'' (m_number (m_blockHeader b))) = Some n"
      "length (m_transactions b) \<le> n"
  shows "checkBlock E (setSigList (replicate (minValidNodes s) (i, sg)) b) s = Inr True"
  using assms by (simp add: checkBlock_def checkBlockSigns_def setSigList_def list_all_iff)

theorem checkBlock_one_signer_witness:
  "checkBlock toy_env (setSigList (replicate 3 (0, hash_of_nat 65 7))
     (block_new\<lparr>m_blockHeader := header_new\<lparr>m_sealer := 1, m_sealerList := m_minerList toy_engine\<rparr>\<rparr>)) toy_engine = Inr True"
proof -
  have C: "crypt toy_env = toy_crypto" by (simp add: toy_env_def)
  have "hash_bool (hash_of_nat 64 5)" by (simp add: hash_bool_def hash_eval)
  then have sig: "dev_verify toy_crypto (hash_of_nat 64 5) (hash_of_nat 65 7) h" for h by (simp add: dev_verify_def toy_crypto_def)
  have "hash_bool (hash_of_nat 64 6)" by (simp add: hash_bool_def hash_eval)
  then have nz: "hash_of_nat 64 6 \<noteq> hash_zero 64" by (auto simp: hash_bool_def hash_zero_def list_ex_iff)
  have "minValidNodes toy_engine = 3" by (simp add: minValidNodes_def toy_engine_def)
  then show ?thesis
    using checkBlock_one_signer [of 0 toy_engine toy_env "hash_of_nat 65 7"
        "block_new\<lparr>m_blockHeader := header_new\<lparr>m_sealer := 1, m_sealerList := m_minerList toy_engine\<rparr>\<rparr>" 1000] sig nz
    by (simp add: C) (simp add: toy_env_def toy_engine_def getMinerByIndex_def block_new_def)
qed

section \<open>Quorums and leaders\<close>

text \<open>The thresholds that \<open>resetConfig\<close> computes.\<close>

lemma resetConfig_thresholds:
  assumes "length (bc_minerList E (world s)) < 2 ^ 16"
  shows "m_nodeNum (resetConfig E s) = length (bc_minerList E (world s))"
    and "m_f (resetConfig E s) = (length (bc_minerList E (world s)) - 1) div 3"
    and "minValidNodes (resetConfig E s) = vote_threshold (length (bc_minerList E (world s)))"
    and "m_minerList (resetConfig E s) = sort (bc_minerList E (world s))"
proof -
  let ?n = "length (bc_minerList E (world s))" and ?r = "resetConfig E s"
  have miners: "m_minerList (updateConsensusNodeList E t) = sort (bc_minerList E (world t))" for t :: "'a pbft"
    by (simp add: updateConsensusNodeList_def updateNodeListInP2P_def emit_def Let_def)
  show m: "m_minerList ?r = sort (bc_minerList E (world s))"
    by (simp add: resetConfig_def Let_def miners split: option.splits)
  show n: "m_nodeNum ?r = ?n" "m_f ?r = (?n - 1) div 3"
    using assms by (simp_all add: resetConfig_def Let_def miners split: option.splits)
  have "int ?n - int ((?n - 1) div 3) = int (?n - (?n - 1) div 3)" by simp
  then show "minValidNodes ?r = vote_threshold ?n"
    using assms by (simp add: minValidNodes_def n vote_threshold_def)
qed

text \<open>
  C18. The thresholds of \<open>resetConfig\<close> make the protocol a Byzantine quorum system: for every number of miners below \<open>2^16\<close>, two sets
  of \<open>minValidNodes\<close> miner indices share more than \<open>m_f\<close> members, hence an honest one; if honest nodes cast
  at most one vote, two values cannot both collect \<open>minValidNodes\<close> votes when at most \<open>m_f\<close> nodes are faulty; and the
  nodes that remain when any \<open>m_f\<close> fail still form a quorum.
\<close>

theorem resetConfig_quorum:
  assumes "bc_minerList E (world s) \<noteq> []" "length (bc_minerList E (world s)) < 2 ^ 16" "s' = resetConfig E s"
    and "F \<subseteq> {..<m_nodeNum s'}" "card F \<le> m_f s'"
  shows "minValidNodes s' \<le> card ({..<m_nodeNum s'} - F)
    \<and> (\<forall>Q R. Q \<subseteq> {..<m_nodeNum s'} \<and> R \<subseteq> {..<m_nodeNum s'} \<and> minValidNodes s' \<le> card Q \<and> minValidNodes s' \<le> card R \<longrightarrow>
         m_f s' < card (Q \<inter> R))
    \<and> (\<forall>voted a b. minValidNodes s' \<le> card {i \<in> {..<m_nodeNum s'}. voted i a} \<and> minValidNodes s' \<le> card {i \<in> {..<m_nodeNum s'}. voted i b}
         \<and> (\<forall>i. i \<notin> F \<and> voted i a \<and> voted i (b :: bytes) \<longrightarrow> a = b) \<longrightarrow> a = b)"
proof -
  obtain n where n: "length (bc_minerList E (world s)) = Suc n" using assms(1) by (cases "bc_minerList E (world s)") auto
  note th = resetConfig_thresholds [OF assms(2), folded assms(3), unfolded n]
  have th': "m_nodeNum s' = Suc n" "m_f s' = n div 3" "minValidNodes s' = vote_threshold (Suc n)" using th by simp_all
  have fin: "finite F" using assms(4) by (rule finite_subset) simp
  have "a = b" if "vote_threshold (Suc n) \<le> card {i \<in> {..<Suc n}. voted i a}" "vote_threshold (Suc n) \<le> card {i \<in> {..<Suc n}. voted i b}"
    "\<forall>i. i \<notin> F \<and> voted i a \<and> voted i b \<longrightarrow> a = b" for voted and a b :: bytes
    by (rule bft.agreement [OF that(1,2) _ fin]) (use assms(5) th' that(3) in auto)
  moreover have "n div 3 < card (Q \<inter> R)"
    if "Q \<subseteq> {..<Suc n} \<and> R \<subseteq> {..<Suc n} \<and> vote_threshold (Suc n) \<le> card Q \<and> vote_threshold (Suc n) \<le> card R" for Q R
    using that bft.overlap [of n Q R] by simp
  moreover have "vote_threshold (Suc n) \<le> card ({..<Suc n} - F)"
    using bft.live [of F n] assms(4,5) th' by simp
  ultimately show ?thesis unfolding th' by blast
qed

lemma toy_resetConfig: "length (bc_minerList toy_env (world toy_engine)) = 4"
  by (simp add: toy_env_def)

theorem resetConfig_quorum_witness:
  "minValidNodes (resetConfig toy_env toy_engine) \<le> card ({..<m_nodeNum (resetConfig toy_env toy_engine)} - {2})
    \<and> m_f (resetConfig toy_env toy_engine) = 1"
proof -
  note th = resetConfig_thresholds [of toy_env toy_engine, unfolded toy_resetConfig]
  have "bc_minerList toy_env (world toy_engine) \<noteq> []" "length (bc_minerList toy_env (world toy_engine)) < 2 ^ 16"
    by (simp_all add: toy_env_def)
  from resetConfig_quorum [OF this refl, of "{2}"] th show ?thesis by simp
qed

text \<open>
  C19. Leaders rotate: while the highest block is a sealed one and the node is configured and believes in its leader, the leader is a
  miner index, consecutive views have different leaders unless there is a single miner, and among any \<open>m_nodeNum\<close> consecutive
  views every miner leads in exactly one. So a sequence of view changes reaches every honest miner.
\<close>

theorem leader_rotation:
  assumes "\<not> m_cfgErr s" "\<not> m_leaderFailed s" "m_sealer (m_highestBlock s) \<noteq> Invalid256" "0 < m_nodeNum s" "m_nodeNum s \<le> 2 ^ 16"
  shows "(\<exists>i. getLeader s = Some i \<and> i < m_nodeNum s)
    \<and> (\<forall>i < m_nodeNum s. \<exists>!k. k < m_nodeNum s \<and> getLeader (s\<lparr>m_view := m_view s + int k\<rparr>) = Some i)"
proof -
  let ?n = "int (m_nodeNum s)" and ?a = "m_view s + m_number (m_highestBlock s)"
  have leader: "getLeader (s\<lparr>m_view := v\<rparr>) = Some (nat ((v + m_number (m_highestBlock s)) mod ?n))" for v
  proof -
    have "nat ((v + m_number (m_highestBlock s)) mod ?n) < 2 ^ 16"
      using pos_mod_bound [of ?n "v + m_number (m_highestBlock s)"] assms(4,5) by linarith
    then show ?thesis using assms(1-3) by (simp add: getLeader_def)
  qed
  have "\<exists>!k. k < m_nodeNum s \<and> nat ((?a + int k) mod ?n) = i" if i: "i < m_nodeNum s" for i
  proof
    let ?k = "nat ((int i - ?a) mod ?n)"
    have k: "int ?k = (int i - ?a) mod ?n" using assms(4) by simp
    have "(?a + int ?k) mod ?n = int i" unfolding k using i by (simp add: mod_add_right_eq)
    moreover have "?k < m_nodeNum s" using pos_mod_bound [of ?n "int i - ?a"] assms(4) by linarith
    ultimately show "?k < m_nodeNum s \<and> nat ((?a + int ?k) mod ?n) = i" by simp
    fix k
    assume "k < m_nodeNum s \<and> nat ((?a + int k) mod ?n) = i"
    then have lt: "k < m_nodeNum s" and "(?a + int k) mod ?n = int i" using assms(4) by auto
    then have "(int i - ?a) mod ?n = ((?a + int k) - ?a) mod ?n" by (metis mod_diff_left_eq)
    then show "k = ?k" using lt by simp
  qed
  moreover have "nat (?a mod ?n) < m_nodeNum s" using pos_mod_bound [of ?n ?a] assms(4) by linarith
  ultimately show ?thesis using leader leader [of "m_view s"] by (simp add: algebra_simps)
qed

theorem leader_rotation_witness:
  "(\<exists>i. getLeader toy_engine = Some i \<and> i < 4)
    \<and> (\<exists>!k. k < 4 \<and> getLeader (toy_engine\<lparr>m_view := m_view toy_engine + int k\<rparr>) = Some 1)"
proof -
  have "\<not> m_cfgErr toy_engine" "\<not> m_leaderFailed toy_engine" "m_sealer (m_highestBlock toy_engine) \<noteq> Invalid256"
    "0 < m_nodeNum toy_engine" "m_nodeNum toy_engine \<le> 2 ^ 16" "m_nodeNum toy_engine = 4"
    by (simp_all add: toy_engine_def Invalid256_def)
  from leader_rotation [OF this(1-5)] this(6) show ?thesis by simp
qed

end
