(* ===== verification/PBFTGossip.thy ===== *)
theory PBFTGossip
  imports PBFTSafety
begin

text \<open>
  Sending and forwarding in the PBFT engine: what \<open>broadcastMsg\<close> puts on the network, that no peer is sent a message twice, and
  what a forwarded packet looks like to the peer that receives it.
\<close>

section \<open>The broadcast loop\<close>

lemma keyExists_mark:
  assumes "t < 4"
  shows "keyExists n t k (snd (insertKey n' t k m)) \<longleftrightarrow> n = n' \<or> keyExists n t k m"
proof -
  have "qs_exist (insertMessage c_known k q) k" for q
    by (simp add: insertMessage_def qs_push_def qs_exist_def)
  then show ?thesis by (simp add: keyExists_queue [OF assms] node_queue_insertKey [OF assms])
qed

text \<open>The peers a broadcast is for: connected miners outside the filter that have not been sent the key.\<close>

definition recipients :: "'w env \<Rightarrow> nat \<Rightarrow> string \<Rightarrow> bytes set \<Rightarrow> 'w pbft \<Rightarrow> bytes set" where
  "recipients E t k flt s =
     {n \<in> set (sessions E (world s)). getIndexByMiner n s \<noteq> None \<and> n \<notin> flt \<and> \<not> broadcastFilter n t k s}"

lemma getIndexByMiner_mem: "getIndexByMiner n s \<noteq> None \<longleftrightarrow> n \<in> set (m_minerList s)"
  by (auto simp: getIndexByMiner_def find_None_iff in_set_conv_nth)

lemma broadcastOne_run:
  assumes "transDataToMessage data t u s = Inr msg"
  shows "broadcastOne t k data flt u n s = (Inr (), s\<lparr>
    effects := effects s @ (if getIndexByMiner n s \<noteq> None \<and> n \<notin> flt \<and> \<not> broadcastFilter n t k s then [Send n msg] else []),
    m_broadCastCache := (if getIndexByMiner n s \<noteq> None \<and> \<not> broadcastFilter n t k s
      then snd (insertKey n t k (m_broadCastCache s)) else m_broadCastCache s)\<rparr>)"
  using assms by (auto simp: broadcastOne_def sendTo_def method_defs emit_def broadcastMark_def broadcastFilter_def)

lemma broadcast_frame:
  "getIndexByMiner m (s\<lparr>effects := e, m_broadCastCache := c\<rparr>) = getIndexByMiner m s"
  "transDataToMessage data t u (s\<lparr>effects := e, m_broadCastCache := c\<rparr>) = transDataToMessage data t u s"
  "broadcastFilter m t k (s\<lparr>effects := e, m_broadCastCache := c\<rparr>) = keyExists m t k c"
  by (simp_all add: getIndexByMiner_def transDataToMessage_def broadcastFilter_def)

lemma broadcast_loop:
  assumes "t < 4" "transDataToMessage data t u s = Inr msg"
  shows "\<exists>ns cache. forM ss (broadcastOne t k data flt u) s =
      (Inr (), s\<lparr>effects := effects s @ map (\<lambda>n. Send n msg) ns, m_broadCastCache := cache\<rparr>)
    \<and> distinct ns \<and> set ns = {n \<in> set ss. getIndexByMiner n s \<noteq> None \<and> n \<notin> flt \<and> \<not> broadcastFilter n t k s}
    \<and> (\<forall>n. keyExists n t k cache \<longleftrightarrow> broadcastFilter n t k s \<or> (n \<in> set ss \<and> getIndexByMiner n s \<noteq> None))"
  using assms(2)
proof (induction ss arbitrary: s)
  case Nil
  show ?case by (intro exI [of _ "[]"] exI [of _ "m_broadCastCache s"]) (simp add: method_defs broadcastFilter_def)
next
  case (Cons n ss)
  define new where "new = (if getIndexByMiner n s \<noteq> None \<and> n \<notin> flt \<and> \<not> broadcastFilter n t k s then [n] else [])"
  define c where "c = (if getIndexByMiner n s \<noteq> None \<and> \<not> broadcastFilter n t k s
      then snd (insertKey n t k (m_broadCastCache s)) else m_broadCastCache s)"
  let ?s1 = "s\<lparr>effects := effects s @ map (\<lambda>n. Send n msg) new, m_broadCastCache := c\<rparr>"
  have one: "broadcastOne t k data flt u n s = (Inr (), ?s1)"
    unfolding broadcastOne_run [OF Cons.prems] new_def c_def by simp
  have c: "keyExists m t k c \<longleftrightarrow> broadcastFilter m t k s \<or> (m = n \<and> getIndexByMiner n s \<noteq> None)" for m
    by (auto simp: c_def keyExists_mark [OF assms(1)] broadcastFilter_def)
  have "transDataToMessage data t u ?s1 = Inr msg" using Cons.prems by (simp only: broadcast_frame)
  from Cons.IH [OF this] obtain ns cache where
    run: "forM ss (broadcastOne t k data flt u) ?s1 = (Inr (), ?s1\<lparr>effects := effects ?s1 @ map (\<lambda>n. Send n msg) ns, m_broadCastCache := cache\<rparr>)"
    and ns: "distinct ns" "set ns = {n \<in> set ss. getIndexByMiner n s \<noteq> None \<and> n \<notin> flt \<and> \<not> keyExists n t k c}"
    and cache: "\<forall>m. keyExists m t k cache \<longleftrightarrow> keyExists m t k c \<or> (m \<in> set ss \<and> getIndexByMiner m s \<noteq> None)"
    unfolding broadcast_frame by blast
  show ?case
  proof (intro exI conjI)
    show "forM (n # ss) (broadcastOne t k data flt u) s =
        (Inr (), s\<lparr>effects := effects s @ map (\<lambda>n. Send n msg) (new @ ns), m_broadCastCache := cache\<rparr>)"
      using run by (simp add: bindM_def one)
    show "distinct (new @ ns)" "set (new @ ns) = {m \<in> set (n # ss). getIndexByMiner m s \<noteq> None \<and> m \<notin> flt \<and> \<not> broadcastFilter m t k s}"
      using ns by (auto simp: new_def c)
    show "\<forall>m. keyExists m t k cache \<longleftrightarrow> broadcastFilter m t k s \<or> (m \<in> set (n # ss) \<and> getIndexByMiner m s \<noteq> None)"
      using cache by (auto simp: c)
  qed
qed

lemma broadcastMsg_run:
  assumes "t < 4" "transDataToMessage data t u s = Inr msg"
  shows "\<exists>ns cache. broadcastMsg E t k data flt u s =
      (Inr True, s\<lparr>m_connectedNode := length (sessions E (world s)) mod 2 ^ 16,
         effects := effects s @ map (\<lambda>n. Send n msg) ns, m_broadCastCache := cache\<rparr>)
    \<and> distinct ns \<and> set ns = recipients E t k flt s
    \<and> (\<forall>n. keyExists n t k cache \<longleftrightarrow> broadcastFilter n t k s \<or> (n \<in> set (sessions E (world s)) \<and> getIndexByMiner n s \<noteq> None))"
proof -
  let ?s1 = "s\<lparr>m_connectedNode := length (sessions E (world s)) mod 2 ^ 16\<rparr>"
  have frame: "getIndexByMiner m ?s1 = getIndexByMiner m s" "broadcastFilter m t k ?s1 = broadcastFilter m t k s" for m
    by (simp_all add: getIndexByMiner_def broadcastFilter_def)
  have "transDataToMessage data t u ?s1 = transDataToMessage data t u s" by (simp add: transDataToMessage_def)
  then have "transDataToMessage data t u ?s1 = Inr msg" using assms(2) by simp
  from broadcast_loop [OF assms(1) this, of "sessions E (world s)" k flt] obtain ns cache where
    run: "forM (sessions E (world s)) (broadcastOne t k data flt u) ?s1 =
      (Inr (), ?s1\<lparr>effects := effects ?s1 @ map (\<lambda>n. Send n msg) ns, m_broadCastCache := cache\<rparr>)"
    and rest: "distinct ns" "set ns = recipients E t k flt s"
      "\<forall>n. keyExists n t k cache \<longleftrightarrow> broadcastFilter n t k s \<or> (n \<in> set (sessions E (world s)) \<and> getIndexByMiner n s \<noteq> None)"
    unfolding frame recipients_def by blast
  from run have "broadcastMsg E t k data flt u s =
      (Inr True, ?s1\<lparr>effects := effects ?s1 @ map (\<lambda>n. Send n msg) ns, m_broadCastCache := cache\<rparr>)"
    by (simp add: broadcastMsg_def run_simps seqM_def)
  with rest show ?thesis by (intro exI [of _ ns] exI [of _ cache]) simp
qed

text \<open>
  C20. A broadcast reaches every eligible peer exactly once: for a valid packet type and encodable data it succeeds, emits one
  \<open>Send\<close> of the packet to each connected miner that is not filtered and has not been sent the key, and nothing else; and
  broadcasting under the same key again, to the same sessions, emits nothing.
\<close>

theorem broadcast_exactly_once:
  assumes "t < 4" "transDataToMessage data t u s = Inr msg"
  shows "\<exists>ns s'. broadcastMsg E t k data flt u s = (Inr True, s') \<and> effects s' = effects s @ map (\<lambda>n. Send n msg) ns
    \<and> distinct ns \<and> set ns = recipients E t k flt s
    \<and> (\<exists>s''. broadcastMsg E t k data flt' u s' = (Inr True, s'') \<and> effects s'' = effects s')"
proof -
  from broadcastMsg_run [OF assms, of E k flt] obtain ns cache where
    run: "broadcastMsg E t k data flt u s = (Inr True, s\<lparr>m_connectedNode := length (sessions E (world s)) mod 2 ^ 16,
         effects := effects s @ map (\<lambda>n. Send n msg) ns, m_broadCastCache := cache\<rparr>)"
    and ns: "distinct ns" "set ns = recipients E t k flt s"
    and cache: "\<forall>n. keyExists n t k cache \<longleftrightarrow> broadcastFilter n t k s \<or> (n \<in> set (sessions E (world s)) \<and> getIndexByMiner n s \<noteq> None)"
    by blast
  let ?s' = "s\<lparr>m_connectedNode := length (sessions E (world s)) mod 2 ^ 16,
         effects := effects s @ map (\<lambda>n. Send n msg) ns, m_broadCastCache := cache\<rparr>"
  have "transDataToMessage data t u ?s' = transDataToMessage data t u s" by (simp add: transDataToMessage_def)
  then have "transDataToMessage data t u ?s' = Inr msg" using assms(2) by simp
  moreover have "recipients E t k flt' ?s' = {}"
    using cache by (auto simp: recipients_def broadcastFilter_def getIndexByMiner_def)
  ultimately have "\<exists>s''. broadcastMsg E t k data flt' u ?s' = (Inr True, s'') \<and> effects s'' = effects ?s'"
    using broadcastMsg_run [OF assms(1), of data u ?s' msg E k flt'] by auto
  with run ns show ?thesis by (intro exI [of _ ns] exI [of _ ?s']) simp
qed

section \<open>Forwarding\<close>

lemma transData_decodes:
  assumes "t < 256" "0 < u" "length data < 2 ^ 60"
  shows "\<exists>msg. transDataToMessage data t u s = Inr msg
    \<and> (\<forall>q. packet_decode msg q = Inr (q\<lparr>packet_id := t, ttl := u mod 2 ^ 8, pkt_data := data\<rparr>))"
proof -
  let ?p = "(PBFTMsgPacket 0)\<lparr>pkt_data := data, packet_id := t, ttl := u mod 2 ^ 8\<rparr>"
  have enc: "transDataToMessage data t u s = packet_encode ?p" using assms(1,2) by (simp add: transDataToMessage_def)
  have rt: "\<exists>out. packet_encode ?p = Inr out \<and> packet_decode out q = Inr (q\<lparr>packet_id := t, ttl := u mod 2 ^ 8, pkt_data := data\<rparr>)" for q
    using packet_roundtrip_items [of ?p q] assms(1,3) by simp
  then obtain out where out: "packet_encode ?p = Inr out" by blast
  with rt show ?thesis unfolding enc by auto
qed

text \<open>
  C21. Forwarding decrements the time to live, modulo a byte: a packet of ttl 1 goes no further; any other packet with a key and a
  recent height is sent once to each eligible peer other than the sender and the miner that issued the message, and the
  receiver decodes the same type and data with the ttl lowered by one. A packet that arrives with ttl 0 is forwarded
  with ttl 255, so it is not the end of its way.
\<close>

theorem forward_ttl:
  assumes "packet_id pkt < 4" "ttl pkt < 256" "length (pkt_data pkt) < 2 ^ 60" "key \<noteq> []"
    and "m_number (m_highestBlock s) - h < 10"
  shows "\<exists>ns msg s'. forwardMsg E pkt key h i s = (Inr (), s') \<and> effects s' = effects s @ map (\<lambda>n. Send n msg) ns \<and> distinct ns
    \<and> (if ttl pkt = 1 then ns = []
       else set ns = recipients E (packet_id pkt) key
              (insert (node_id pkt) (if getMinerByIndex i s \<noteq> hash_zero 64 then {getMinerByIndex i s} else {})) s
            \<and> (\<forall>q. packet_decode msg q =
                 Inr (q\<lparr>packet_id := packet_id pkt, ttl := (if ttl pkt = 0 then 255 else ttl pkt - 1), pkt_data := pkt_data pkt\<rparr>)))"
proof (cases "ttl pkt = 1")
  case True
  then show ?thesis by (intro exI [of _ "[]"]) (simp add: forwardMsg_def run_simps)
next
  case False
  let ?u = "nat ((int (ttl pkt) - 1) mod 2 ^ 32)"
  let ?flt = "insert (node_id pkt) (if getMinerByIndex i s \<noteq> hash_zero 64 then {getMinerByIndex i s} else {})"
  have u: "0 < ?u \<and> ?u mod 2 ^ 8 = (if ttl pkt = 0 then 255 else ttl pkt - 1)"
  proof (cases "ttl pkt = 0")
    case False
    then have "(int (ttl pkt) - 1) mod 2 ^ 32 = int (ttl pkt - 1)" using assms(2) by (simp add: of_nat_diff)
    then show ?thesis using False \<open>ttl pkt \<noteq> 1\<close> assms(2) by simp
  qed simp
  obtain msg where msg: "transDataToMessage (pkt_data pkt) (packet_id pkt) ?u s = Inr msg"
    "\<forall>q. packet_decode msg q = Inr (q\<lparr>packet_id := packet_id pkt, ttl := ?u mod 2 ^ 8, pkt_data := pkt_data pkt\<rparr>)"
    using transData_decodes [of "packet_id pkt" ?u "pkt_data pkt" s] assms(1,3) u by auto
  have guard: "key \<noteq> [] \<and> (h > m_number (m_highestBlock s) \<or> m_number (m_highestBlock s) - h < 10)" using assms(4,5) by simp
  from broadcastMsg_run [OF assms(1) msg(1), of E key ?flt] obtain ns s' where
    run: "broadcastMsg E (packet_id pkt) key (pkt_data pkt) ?flt ?u s = (Inr True, s')"
    and rest: "effects s' = effects s @ map (\<lambda>n. Send n msg) ns" "distinct ns" "set ns = recipients E (packet_id pkt) key ?flt s"
    by fastforce
  from run have "forwardMsg E pkt key h i s = (Inr (), s')"
    using False guard by (simp add: forwardMsg_def run_simps Let_def bindM_def [of "broadcastMsg _ _ _ _ _ _"])
  with rest msg(2) u False show ?thesis by (intro exI [of _ ns] exI [of _ msg] exI [of _ s']) simp
qed

text \<open>A sign request forwarded by the node of the example; the only eligible peer is the second miner.\<close>

lemma toy_recipients:
  "recipients toy_env 1 ''ab'' {hash_of_nat 64 5} toy_engine = {hash_of_nat 64 6}"
proof -
  have "hash_of_nat 64 5 \<noteq> hash_of_nat 64 6" "hash_of_nat 64 9 \<notin> {hash_of_nat 64 5, hash_of_nat 64 6, hash_of_nat 64 7, hash_of_nat 64 8}"
    by (simp_all add: hash_eval)
  then show ?thesis
    unfolding recipients_def getIndexByMiner_mem by (auto simp: toy_env_def broadcastFilter_def keyExists_def toy_engine_def)
qed

theorem broadcast_exactly_once_witness:
  "\<exists>msg ns s'. broadcastMsg toy_env 1 ''ab'' [1, 2] {hash_of_nat 64 5} 2 toy_engine = (Inr True, s')
    \<and> effects s' = effects toy_engine @ map (\<lambda>n. Send n msg) ns \<and> distinct ns \<and> set ns = {hash_of_nat 64 6}
    \<and> (\<exists>s''. broadcastMsg toy_env 1 ''ab'' [1, 2] {} 2 s' = (Inr True, s'') \<and> effects s'' = effects s')"
proof -
  obtain msg where "transDataToMessage [1, 2] 1 2 toy_engine = Inr msg"
    using transData_decodes [of 1 2 "[1, 2]" toy_engine] by auto
  from broadcast_exactly_once [OF _ this, of toy_env "''ab''" "{hash_of_nat 64 5}" "{}"] toy_recipients show ?thesis by auto
qed

theorem forward_ttl_witness:
  "\<exists>ns msg s'. forwardMsg toy_env ((PBFTMsgPacket 0)\<lparr>packet_id := 1, node_id := hash_of_nat 64 5, ttl := 0\<rparr>) ''ab'' 2 0 toy_engine = (Inr (), s')
    \<and> effects s' = effects toy_engine @ map (\<lambda>n. Send n msg) ns \<and> set ns = {hash_of_nat 64 6}
    \<and> packet_decode msg (PBFTMsgPacket 0) = Inr ((PBFTMsgPacket 0)\<lparr>packet_id := 1, ttl := 255, pkt_data := []\<rparr>)"
proof -
  let ?p = "(PBFTMsgPacket 0)\<lparr>packet_id := 1, node_id := hash_of_nat 64 5, ttl := 0\<rparr>"
  have "getMinerByIndex 0 toy_engine = hash_of_nat 64 5" by (simp add: getMinerByIndex_def toy_engine_def)
  then have flt: "insert (node_id ?p) (if getMinerByIndex 0 toy_engine \<noteq> hash_zero 64 then {getMinerByIndex 0 toy_engine} else {}) = {hash_of_nat 64 5}"
    by simp
  have "packet_id ?p < 4" "ttl ?p < 256" "length (pkt_data ?p) < 2 ^ 60" "''ab'' \<noteq> []" "m_number (m_highestBlock toy_engine) - 2 < 10"
    by (simp_all add: PBFTMsgPacket_def toy_engine_def)
  note fwd = forward_ttl [OF this, of toy_env 0]
  have p: "packet_id ?p = 1" "ttl ?p = 0" "pkt_data ?p = []" by (simp_all add: PBFTMsgPacket_def)
  show ?thesis using fwd unfolding flt unfolding p toy_recipients by (simp only: zero_neq_one if_False if_True simp_thms) blast
qed

end
