(* ===== verification/MemoryTable.thy ===== *)
theory MemoryTable
  imports TrieHash "HOL-Library.Char_ord"
begin

text \<open>
  Rows, conditions and the cached table of the storage layer: \<open>libstorage/Table.h\<close>, \<open>Table.cpp\<close>, \<open>MemoryTable.h\<close> and
  \<open>MemoryTable.cpp\<close>. A \<open>std::map\<close> is an association list sorted by its keys. An \<open>Entry\<close> is a value: the sources
  hand every \<open>insert\<close> an object of its own, and an assignment through a pointer that \<open>select\<close>
  returned is the operation \<open>mt_poke\<close>. The state storage behind a table is the parameter \<open>R\<close>; like \<open>LevelDBStorage\<close> it returns
  rows or throws, never a null pointer.
\<close>

section \<open>Constants\<close>

definition STATUS :: string where "STATUS = ''_status_''"
definition SYS_TABLES :: string where "SYS_TABLES = ''_sys_tables_''"
definition SYS_MINERS :: string where "SYS_MINERS = ''_sys_miners_''"
definition SYS_CURRENT_STATE :: string where "SYS_CURRENT_STATE = ''_sys_current_state_''"
definition SYS_KEY_CURRENT_NUMBER :: string where "SYS_KEY_CURRENT_NUMBER = ''current_number''"
definition SYS_KEY_TOTAL_TRANSACTION_COUNT :: string where
  "SYS_KEY_TOTAL_TRANSACTION_COUNT = ''total_current_transaction_count''"
definition SYS_VALUE :: string where "SYS_VALUE = ''value''"
definition SYS_TX_HASH_2_BLOCK :: string where "SYS_TX_HASH_2_BLOCK = ''_sys_tx_hash_2_block_''"
definition SYS_NUMBER_2_HASH :: string where "SYS_NUMBER_2_HASH = ''_sys_number_2_hash_''"
definition SYS_HASH_2_BLOCK :: string where "SYS_HASH_2_BLOCK = ''_sys_hash_2_block_''"
definition SYS_CNS :: string where "SYS_CNS = ''_sys_cns_''"
definition SYS_CONFIG :: string where "SYS_CONFIG = ''_sys_config_''"
definition SYS_ACCESS_TABLE :: string where "SYS_ACCESS_TABLE = ''_sys_table_access_''"
definition USER_TABLE_PREFIX :: string where "USER_TABLE_PREFIX = ''_user_''"

lemmas storage_names = STATUS_def SYS_TABLES_def SYS_MINERS_def SYS_CURRENT_STATE_def SYS_KEY_CURRENT_NUMBER_def
  SYS_KEY_TOTAL_TRANSACTION_COUNT_def SYS_VALUE_def SYS_TX_HASH_2_BLOCK_def SYS_NUMBER_2_HASH_def SYS_HASH_2_BLOCK_def
  SYS_CNS_def SYS_CONFIG_def SYS_ACCESS_TABLE_def

section \<open>What the layer takes from Boost and from the crypto library\<close>

text \<open>\<open>boost::lexical_cast\<close> from and to strings, \<open>boost::split\<close> at commas and \<open>dev::sha256\<close>.\<close>

record boost =
  lex_uint32 :: "string \<Rightarrow> nat option"
  lex_int :: "string \<Rightarrow> int option"
  lex_int64 :: "string \<Rightarrow> int option"
  lex_show :: "int \<Rightarrow> string"
  split_comma :: "string \<Rightarrow> string list"
  sha256 :: "bytes \<Rightarrow> bytes"

datatype storage_error =
    BadCast | EntriesNoExists nat | InvalidField string | StoiInvalid | StoiOutOfRange
  | RemoteError string | EraseOutOfRange | BadHexString hex_error | NullPointer

definition cast :: "'a option \<Rightarrow> storage_error + 'a" where
  "cast x = (case x of None \<Rightarrow> Inl BadCast | Some v \<Rightarrow> Inr v)"

lemma cast_simps [simp, result_simps]: "cast None = Inl BadCast" "cast (Some v) = Inr v"
  by (simp_all add: cast_def)

section \<open>Rows\<close>

record entry =
  m_fields :: "(string \<times> string) list"
  e_dirty :: bool

definition Entry :: entry where
  "Entry = \<lparr>m_fields = [(STATUS, ''0'')], e_dirty = False\<rparr>"

definition getField :: "string \<Rightarrow> entry \<Rightarrow> string" where
  "getField key e = (case map_of (m_fields e) key of Some v \<Rightarrow> v | None \<Rightarrow> [])"

definition setField :: "string \<Rightarrow> string \<Rightarrow> entry \<Rightarrow> entry" where
  "setField key v e = e\<lparr>m_fields := smap_set key v (m_fields e), e_dirty := True\<rparr>"

definition getStatus :: "boost \<Rightarrow> entry \<Rightarrow> storage_error + nat" where
  "getStatus B e = (case map_of (m_fields e) STATUS of None \<Rightarrow> Inr 0 | Some v \<Rightarrow> cast (lex_uint32 B v))"

definition setStatus :: "boost \<Rightarrow> int \<Rightarrow> entry \<Rightarrow> entry" where
  "setStatus B status e = e\<lparr>m_fields := smap_set STATUS (lex_show B status) (m_fields e), e_dirty := True\<rparr>"

record entries =
  m_entries :: "entry list"
  es_dirty :: bool

definition Entries :: entries where
  "Entries = \<lparr>m_entries = [], es_dirty = False\<rparr>"

definition entries_get :: "nat \<Rightarrow> entries \<Rightarrow> storage_error + entry" where
  "entries_get i es = (if length (m_entries es) \<le> i then Inl (EntriesNoExists i) else Inr (m_entries es ! i))"

definition addEntry :: "entry \<Rightarrow> entries \<Rightarrow> entries" where
  "addEntry e es = es\<lparr>m_entries := m_entries es @ [e], es_dirty := True\<rparr>"

text \<open>\<open>vector::erase\<close> needs an iterator to an element; otherwise its behaviour is undefined.\<close>

definition removeEntry :: "nat \<Rightarrow> entries \<Rightarrow> storage_error + entries" where
  "removeEntry i es =
     (if i < length (m_entries es) then Inr (es\<lparr>m_entries := take i (m_entries es) @ drop (Suc i) (m_entries es)\<rparr>)
      else Inl EraseOutOfRange)"

section \<open>Conditions\<close>

datatype cond_op = Op_eq | Op_ne | Op_gt | Op_ge | Op_lt | Op_le

record condition =
  m_conditions :: "(string \<times> (cond_op \<times> string)) list"
  m_offset :: nat
  m_count :: nat

definition Condition :: condition where
  "Condition = \<lparr>m_conditions = [], m_offset = 0, m_count = 0\<rparr>"

text \<open>The six operations \<open>EQ\<close> to \<open>LE\<close>; a second condition on a key is ignored.\<close>

definition add_condition :: "cond_op \<Rightarrow> string \<Rightarrow> string \<Rightarrow> condition \<Rightarrow> condition" where
  "add_condition p key v c = c\<lparr>m_conditions := smap_insert key (p, v) (m_conditions c)\<rparr>"

definition condition_limit :: "nat \<Rightarrow> nat \<Rightarrow> condition \<Rightarrow> condition" where
  "condition_limit offset count c = c\<lparr>m_offset := offset, m_count := count\<rparr>"

definition compare_op :: "cond_op \<Rightarrow> int \<Rightarrow> int \<Rightarrow> bool" where
  "compare_op p l r = (case p of Op_gt \<Rightarrow> l > r | Op_ge \<Rightarrow> l \<ge> r | Op_lt \<Rightarrow> l < r | Op_le \<Rightarrow> l \<le> r | _ \<Rightarrow> True)"

definition check_condition :: "boost \<Rightarrow> entry \<Rightarrow> string \<times> (cond_op \<times> string) \<Rightarrow> storage_error + bool" where
  "check_condition B e cond =
     (case cond of (key, p, rhs) \<Rightarrow>
        bindE (getStatus B e) (\<lambda>status.
          if status = 1 then Inr False
          else let lhs = getField key e in
            case p of Op_eq \<Rightarrow> Inr (lhs = rhs) | Op_ne \<Rightarrow> Inr (lhs \<noteq> rhs)
            | _ \<Rightarrow>
                bindE (cast (lex_int B (if lhs = [] then ''0'' else lhs))) (\<lambda>l.
                bindE (cast (lex_int B (if rhs = [] then ''0'' else rhs))) (\<lambda>r. Inr (compare_op p l r)))))"

fun check_conditions :: "boost \<Rightarrow> entry \<Rightarrow> (string \<times> (cond_op \<times> string)) list \<Rightarrow> storage_error + bool" where
  "check_conditions B e [] = Inr True"
| "check_conditions B e (c # cs) = bindE (check_condition B e c) (\<lambda>ok. if ok then check_conditions B e cs else Inr False)"

definition processCondition :: "boost \<Rightarrow> entry \<Rightarrow> condition \<Rightarrow> bool" where
  "processCondition B e c = (case check_conditions B e (m_conditions c) of Inl _ \<Rightarrow> False | Inr b \<Rightarrow> b)"

definition processEntries :: "boost \<Rightarrow> entries \<Rightarrow> condition \<Rightarrow> nat list" where
  "processEntries B es c =
     (if m_conditions c = [] then [0..<length (m_entries es)]
      else filter (\<lambda>i. processCondition B (m_entries es ! i) c) [0..<length (m_entries es)])"

section \<open>The cached table\<close>

record table_info =
  ti_name :: string
  ti_key :: string
  ti_fields :: "string list"
  authorizedAddress :: "bytes list"

record memory_table =
  m_tableInfo :: table_info
  m_cache :: "(string \<times> entries) list"
  mt_blockHash :: bytes
  mt_blockNum :: int

type_synonym remote = "(bytes \<Rightarrow> int \<Rightarrow> string \<Rightarrow> string \<Rightarrow> storage_error + entries) option"

datatype change_kind = Insert | Update | Remove | Select

record change_record =
  r_index :: nat
  r_key :: string
  r_oldValue :: string

record change =
  c_table :: string
  c_kind :: change_kind
  c_key :: string
  c_value :: "change_record list"

definition checkFiled :: "entry \<Rightarrow> memory_table \<Rightarrow> storage_error + unit" where
  "checkFiled e t =
     (case find (\<lambda>(k, _). k \<notin> set (ti_fields (m_tableInfo t))) (m_fields e) of
        None \<Rightarrow> Inr () | Some (k, _) \<Rightarrow> Inl (InvalidField k))"

definition checkAuthority :: "bytes \<Rightarrow> memory_table \<Rightarrow> bool" where
  "checkAuthority origin t \<longleftrightarrow>
     authorizedAddress (m_tableInfo t) = [] \<or> origin \<in> set (authorizedAddress (m_tableInfo t))"

text \<open>The rows of a key: from the cache, or from the state storage into the cache.\<close>

definition load :: "remote \<Rightarrow> string \<Rightarrow> memory_table \<Rightarrow> (storage_error + entries) \<times> memory_table" where
  "load R key t =
     (case map_of (m_cache t) key of
        Some es \<Rightarrow> (Inr es, t)
      | None \<Rightarrow>
          (case R of
             None \<Rightarrow> (Inr Entries, t)
           | Some r \<Rightarrow>
               (case r (mt_blockHash t) (mt_blockNum t) (ti_name (m_tableInfo t)) key of
                  Inl e \<Rightarrow> (Inl e, t)
                | Inr es \<Rightarrow> (Inr es, t\<lparr>m_cache := smap_insert key es (m_cache t)\<rparr>))))"

text \<open>A change of the rows that the cache holds for a key.\<close>

definition write_back :: "string \<Rightarrow> entries \<Rightarrow> memory_table \<Rightarrow> memory_table" where
  "write_back key es t = (if map_of (m_cache t) key = None then t else t\<lparr>m_cache := smap_set key es (m_cache t)\<rparr>)"

definition mt_select :: "boost \<Rightarrow> remote \<Rightarrow> string \<Rightarrow> condition \<Rightarrow> memory_table \<Rightarrow> entry list \<times> memory_table" where
  "mt_select B R key c t =
     (case load R key t of
        (Inl _, t1) \<Rightarrow> ([], t1)
      | (Inr es, t1) \<Rightarrow> (map (\<lambda>i. m_entries es ! i) (processEntries B es c), t1))"

definition setFields :: "(string \<times> string) list \<Rightarrow> entry \<Rightarrow> entry" where
  "setFields kvs e = foldl (\<lambda>e (k, v). setField k v e) e kvs"

definition update_rows :: "(entry \<Rightarrow> entry) \<Rightarrow> nat list \<Rightarrow> entry list \<Rightarrow> entry list" where
  "update_rows f idx es = foldl (\<lambda>es i. es[i := f (es ! i)]) es idx"

definition mt_update :: "boost \<Rightarrow> remote \<Rightarrow> string \<Rightarrow> entry \<Rightarrow> condition \<Rightarrow> bytes \<Rightarrow> memory_table \<Rightarrow> int \<times> change list \<times> memory_table" where
  "mt_update B R key e c origin t =
     (if \<not> checkAuthority origin t then (-1, [], t)
      else case load R key t of
        (Inl _, t1) \<Rightarrow> (0, [], t1)
      | (Inr es, t1) \<Rightarrow>
          (case checkFiled e t1 of
             Inl _ \<Rightarrow> (0, [], t1)
           | Inr _ \<Rightarrow>
               (let indexes = processEntries B es c;
                    records = concat (map (\<lambda>i. map (\<lambda>(k, _).
                      \<lparr>r_index = i, r_key = k, r_oldValue = getField k (m_entries es ! i)\<rparr>) (m_fields e)) indexes)
                in (int (length indexes),
                    [\<lparr>c_table = ti_name (m_tableInfo t1), c_kind = Update, c_key = key, c_value = records\<rparr>],
                    write_back key (es\<lparr>m_entries := update_rows (setFields (m_fields e)) indexes (m_entries es), es_dirty := True\<rparr>) t1))))"

text \<open>An exception is caught and \<open>insert\<close> still returns 1.\<close>

definition mt_insert :: "remote \<Rightarrow> string \<Rightarrow> entry \<Rightarrow> bytes \<Rightarrow> memory_table \<Rightarrow> int \<times> change list \<times> memory_table" where
  "mt_insert R key e origin t =
     (if \<not> checkAuthority origin t then (-1, [], t)
      else case load R key t of
        (Inl _, t1) \<Rightarrow> (1, [], t1)
      | (Inr es, t1) \<Rightarrow>
          (case checkFiled e t1 of
             Inl _ \<Rightarrow> (1, [], t1)
           | Inr _ \<Rightarrow>
               (1, [\<lparr>c_table = ti_name (m_tableInfo t1), c_kind = Insert, c_key = key,
                     c_value = [\<lparr>r_index = length (m_entries es) + 1, r_key = [], r_oldValue = []\<rparr>]\<rparr>],
                t1\<lparr>m_cache := smap_set key (addEntry e es) (m_cache t1)\<rparr>)))"

definition mt_remove :: "boost \<Rightarrow> remote \<Rightarrow> string \<Rightarrow> condition \<Rightarrow> bytes \<Rightarrow> memory_table \<Rightarrow> (storage_error + int) \<times> change list \<times> memory_table" where
  "mt_remove B R key c origin t =
     (if \<not> checkAuthority origin t then (Inr (-1), [], t)
      else case load R key t of
        (Inl e, t1) \<Rightarrow> (Inl e, [], t1)
      | (Inr es, t1) \<Rightarrow>
          (let indexes = processEntries B es c
           in (Inr (int (length indexes)),
               [\<lparr>c_table = ti_name (m_tableInfo t1), c_kind = Remove, c_key = key,
                 c_value = map (\<lambda>i. \<lparr>r_index = i, r_key = [], r_oldValue = []\<rparr>) indexes\<rparr>],
               write_back key (es\<lparr>m_entries := update_rows (setStatus B 1) indexes (m_entries es), es_dirty := True\<rparr>) t1)))"

text \<open>An assignment to a field of a cached row, through the pointer that \<open>select\<close> returned for it.\<close>

definition mt_poke :: "string \<Rightarrow> nat \<Rightarrow> string \<Rightarrow> string \<Rightarrow> memory_table \<Rightarrow> memory_table" where
  "mt_poke key i k v t =
     (case map_of (m_cache t) key of None \<Rightarrow> t
      | Some es \<Rightarrow> write_back key (es\<lparr>m_entries := update_rows (setField k v) [i] (m_entries es)\<rparr>) t)"

definition asBytes :: "string \<Rightarrow> bytes" where
  "asBytes s = map of_char s"

definition isHashField :: "string \<Rightarrow> bool" where
  "isHashField key \<longleftrightarrow> key \<noteq> [] \<and> ((hd key \<noteq> CHR ''_'' \<and> last key \<noteq> CHR ''_'') \<or> key = STATUS)"

definition mt_hash_data :: "memory_table \<Rightarrow> bytes" where
  "mt_hash_data t =
     concat (map (\<lambda>(key, es). if \<not> es_dirty es then [] else
       asBytes key @ concat (map (\<lambda>e. if \<not> e_dirty e then [] else
         concat (map (\<lambda>(f, v). if isHashField f then asBytes f @ asBytes v else []) (m_fields e))) (m_entries es)))
       (m_cache t))"

definition mt_hash :: "boost \<Rightarrow> memory_table \<Rightarrow> bytes" where
  "mt_hash B t = (if mt_hash_data t = [] then replicate 32 0 else sha256 B (mt_hash_data t))"

definition mt_clear :: "memory_table \<Rightarrow> memory_table" where
  "mt_clear t = t\<lparr>m_cache := []\<rparr>"

section \<open>Fields of a row\<close>

definition entry_ok :: "entry \<Rightarrow> bool" where
  "entry_ok e \<longleftrightarrow> sorted_wrt (<) (map fst (m_fields e))"

lemma entry_ok_distinct: "entry_ok e \<Longrightarrow> distinct (map fst (m_fields e))"
  by (simp add: entry_ok_def strict_sorted_iff)

lemma entry_ok_ops [simp]: "entry_ok Entry" "entry_ok e \<Longrightarrow> entry_ok (setField k v e)" "entry_ok e \<Longrightarrow> entry_ok (setStatus B n e)"
  by (simp_all add: entry_ok_def Entry_def setField_def setStatus_def sorted_smap_set)

lemma getField_setField [simp]: "getField k (setField k' v e) = (if k = k' then v else getField k e)"
  by (simp add: getField_def setField_def)

lemma setFields_simps [simp]: "setFields [] e = e" "setFields ((k, v) # kvs) e = setFields kvs (setField k v e)"
  by (simp_all add: setFields_def)

lemma fields_setFields:
  "distinct (map fst kvs) \<Longrightarrow> map_of (m_fields (setFields kvs e)) = map_of (m_fields e) ++ map_of kvs"
proof (induction kvs arbitrary: e)
  case (Cons kv kvs)
  obtain k v where kv: "kv = (k, v)" by (cases kv)
  have "map_of kvs k = None" using Cons.prems by (simp add: kv map_of_eq_None_iff)
  then show ?case using Cons by (auto simp: kv setField_def map_add_def fun_eq_iff split: option.splits)
qed simp

lemma getField_setFields:
  "distinct (map fst kvs) \<Longrightarrow> getField k (setFields kvs e) = (case map_of kvs k of Some v \<Rightarrow> v | None \<Rightarrow> getField k e)"
  by (simp add: getField_def fields_setFields map_add_def split: option.splits)

section \<open>Rows of a key\<close>

lemma update_rows_distinct:
  "distinct idx \<Longrightarrow> set idx \<subseteq> {..<length es} \<Longrightarrow>
    update_rows f idx es = map (\<lambda>i. if i \<in> set idx then f (es ! i) else es ! i) [0..<length es]"
proof (induction idx rule: rev_induct)
  case Nil
  then show ?case by (simp add: update_rows_def map_nth)
next
  case (snoc i idx)
  then have i: "i < length es" "i \<notin> set idx" by auto
  have "update_rows f (idx @ [i]) es = (update_rows f idx es)[i := f (update_rows f idx es ! i)]" by (simp add: update_rows_def)
  also have "\<dots> = map (\<lambda>j. if j \<in> set (idx @ [i]) then f (es ! j) else es ! j) [0..<length es]"
    using snoc i by (intro nth_equalityI) (auto simp: nth_list_update)
  finally show ?case .
qed

lemma processEntries_sub: "distinct (processEntries B es c)" "set (processEntries B es c) \<subseteq> {..<length (m_entries es)}"
  by (auto simp: processEntries_def)

lemma update_rows_selected:
  "update_rows f (processEntries B es c) (m_entries es) =
     map (\<lambda>e. if m_conditions c = [] \<or> processCondition B e c then f e else e) (m_entries es)"
  unfolding update_rows_distinct [OF processEntries_sub]
  by (rule nth_equalityI) (auto simp: processEntries_def)

lemma filter_indexes: "map (\<lambda>i. xs ! i) (filter (\<lambda>i. P (xs ! i)) [0..<length xs]) = filter P xs"
proof -
  have "filter P (map (\<lambda>i. xs ! i) [0..<length xs]) = map (\<lambda>i. xs ! i) (filter (P \<circ> (\<lambda>i. xs ! i)) [0..<length xs])"
    by (rule filter_map)
  then show ?thesis by (simp add: map_nth comp_def)
qed

lemma select_indexes:
  "map (\<lambda>i. m_entries es ! i) (processEntries B es c) = filter (\<lambda>e. m_conditions c = [] \<or> processCondition B e c) (m_entries es)"
  using filter_indexes [of "m_entries es" "\<lambda>e. processCondition B e c"] by (simp add: processEntries_def map_nth)

text \<open>What a table holds for a key, in the cache or behind it.\<close>

definition mt_rows :: "remote \<Rightarrow> memory_table \<Rightarrow> string \<Rightarrow> entry list" where
  "mt_rows R t key = (case fst (load R key t) of Inl _ \<Rightarrow> [] | Inr es \<Rightarrow> m_entries es)"

definition mt_ready :: "remote \<Rightarrow> memory_table \<Rightarrow> string \<Rightarrow> bool" where
  "mt_ready R t key = (case fst (load R key t) of Inl _ \<Rightarrow> False | Inr _ \<Rightarrow> True)"

lemma load_same: "fst (load R k (snd (load R key t))) = fst (load R k t)"
  "m_tableInfo (snd (load R key t)) = m_tableInfo t"
  by (auto simp: load_def smap_insert_def split: option.splits sum.splits)

lemma load_set:
  "fst (load R k (t\<lparr>m_cache := smap_set key es (m_cache t)\<rparr>)) = (if k = key then Inr es else fst (load R k t))"
  by (auto simp: load_def split: option.splits sum.splits)

lemma load_cached:
  "load R key t = (Inr es, t1) \<Longrightarrow> map_of (m_cache t1) key = Some es \<or> (es = Entries \<and> R = None \<and> t1 = t)"
  by (auto simp: load_def smap_insert_def split: option.splits sum.splits)

lemma load_write_back:
  assumes "load R key t = (Inr es, t1)" "es = Entries \<longrightarrow> m_entries es' = []"
  shows "mt_rows R (write_back key es' t1) k = (if k = key then m_entries es' else mt_rows R t k)"
    and "mt_ready R (write_back key es' t1) k = mt_ready R t k"
proof -
  have old: "fst (load R k t1) = fst (load R k t)" using load_same(1) [of R k key t] assms(1) by simp
  have key: "fst (load R key t) = Inr es" using assms(1) by simp
  from load_cached [OF assms(1)] show "mt_rows R (write_back key es' t1) k = (if k = key then m_entries es' else mt_rows R t k)"
  proof
    assume "map_of (m_cache t1) key = Some es"
    then show ?thesis using old by (simp add: write_back_def mt_rows_def load_set)
  next
    assume none: "es = Entries \<and> R = None \<and> t1 = t"
    show ?thesis
    proof (cases "map_of (m_cache t) key")
      case None
      then show ?thesis using none assms(2) key by (auto simp: write_back_def mt_rows_def Entries_def)
    next
      case (Some x)
      then show ?thesis using none by (simp add: write_back_def mt_rows_def load_set)
    qed
  qed
  show "mt_ready R (write_back key es' t1) k = mt_ready R t k"
    using old key by (auto simp: write_back_def mt_ready_def load_set)
qed

definition mt_accepts :: "bytes \<Rightarrow> memory_table \<Rightarrow> entry \<Rightarrow> bool" where
  "mt_accepts origin t e \<longleftrightarrow> checkAuthority origin t \<and> checkFiled e t = Inr ()"

lemma accepts_info: "m_tableInfo t' = m_tableInfo t \<Longrightarrow> mt_accepts origin t' = mt_accepts origin t"
  by (simp add: mt_accepts_def checkAuthority_def checkFiled_def fun_eq_iff)

lemma write_back_info [simp]: "m_tableInfo (write_back key es t) = m_tableInfo t"
  by (simp add: write_back_def)

lemma select_rows:
  "fst (mt_select B R key c t) = filter (\<lambda>e. m_conditions c = [] \<or> processCondition B e c) (mt_rows R t key)"
  "mt_rows R (snd (mt_select B R key c t)) k = mt_rows R t k"
  "mt_ready R (snd (mt_select B R key c t)) k = mt_ready R t k"
  "m_tableInfo (snd (mt_select B R key c t)) = m_tableInfo t"
proof -
  have "snd (mt_select B R key c t) = snd (load R key t)" by (auto simp: mt_select_def split: prod.splits sum.splits)
  then show "mt_rows R (snd (mt_select B R key c t)) k = mt_rows R t k"
    "mt_ready R (snd (mt_select B R key c t)) k = mt_ready R t k" "m_tableInfo (snd (mt_select B R key c t)) = m_tableInfo t"
    by (simp_all add: mt_rows_def mt_ready_def load_same)
  show "fst (mt_select B R key c t) = filter (\<lambda>e. m_conditions c = [] \<or> processCondition B e c) (mt_rows R t key)"
    by (auto simp: mt_select_def mt_rows_def select_indexes split: prod.splits sum.splits)
qed

lemma checkFiled_load: "checkFiled e (snd (load R key t)) = checkFiled e t"
  by (simp add: checkFiled_def load_same)

lemma insert_rows:
  assumes "mt_ready R t key" "mt_accepts origin t e" "mt_insert R key e origin t = (r, log, t')"
  shows "r = 1" "mt_rows R t' k = (if k = key then mt_rows R t k @ [e] else mt_rows R t k)"
    "mt_ready R t' k = mt_ready R t k" "m_tableInfo t' = m_tableInfo t"
proof -
  obtain es where es: "fst (load R key t) = Inr es" using assms(1) by (auto simp: mt_ready_def split: sum.splits)
  obtain t1 where t1: "load R key t = (Inr es, t1)" using es by (cases "load R key t") auto
  then have "snd (load R key t) = t1" by simp
  then have t1': "checkFiled e t1 = Inr ()" "m_tableInfo t1 = m_tableInfo t" "fst (load R k t1) = fst (load R k t)"
    using assms(2) checkFiled_load [of e R key t] load_same(1) [of R k key t] load_same(2) [of R key t] by (simp_all add: mt_accepts_def)
  have "r = 1 \<and> t' = t1\<lparr>m_cache := smap_set key (addEntry e es) (m_cache t1)\<rparr>"
    using assms(2,3) t1 t1' by (simp add: mt_insert_def mt_accepts_def)
  then show "r = 1" "mt_rows R t' k = (if k = key then mt_rows R t k @ [e] else mt_rows R t k)"
    "mt_ready R t' k = mt_ready R t k" "m_tableInfo t' = m_tableInfo t"
    using t1' es by (simp_all add: mt_rows_def mt_ready_def load_set addEntry_def)
qed

lemma update_rows_spec:
  assumes "mt_ready R t key" "mt_accepts origin t e" "mt_update B R key e c origin t = (r, log, t')"
  shows "mt_rows R t' k = (if k = key
      then map (\<lambda>x. if m_conditions c = [] \<or> processCondition B x c then setFields (m_fields e) x else x) (mt_rows R t k)
      else mt_rows R t k)"
    "mt_ready R t' k = mt_ready R t k" "m_tableInfo t' = m_tableInfo t"
proof -
  obtain es where es: "fst (load R key t) = Inr es" using assms(1) by (auto simp: mt_ready_def split: sum.splits)
  obtain t1 where t1: "load R key t = (Inr es, t1)" using es by (cases "load R key t") auto
  then have "snd (load R key t) = t1" by simp
  then have t1': "checkFiled e t1 = Inr ()" "m_tableInfo t1 = m_tableInfo t"
    using assms(2) checkFiled_load [of e R key t] load_same(1) [of R k key t] load_same(2) [of R key t] by (simp_all add: mt_accepts_def)
  let ?es' = "es\<lparr>m_entries := update_rows (setFields (m_fields e)) (processEntries B es c) (m_entries es), es_dirty := True\<rparr>"
  have t': "t' = write_back key ?es' t1"
    using assms(2,3) t1 t1' by (simp add: mt_update_def mt_accepts_def Let_def)
  have "es = Entries \<longrightarrow> m_entries ?es' = []" by (simp add: update_rows_selected) (simp add: Entries_def)
  note wb = load_write_back [OF t1 this]
  show "mt_rows R t' k = (if k = key
      then map (\<lambda>x. if m_conditions c = [] \<or> processCondition B x c then setFields (m_fields e) x else x) (mt_rows R t k)
      else mt_rows R t k)"
    "mt_ready R t' k = mt_ready R t k" "m_tableInfo t' = m_tableInfo t"
    using es t1' by (simp_all add: t' wb) (simp add: update_rows_selected mt_rows_def)
qed

lemma remove_rows:
  assumes "mt_ready R t key" "checkAuthority origin t" "mt_remove B R key c origin t = (r, log, t')"
  shows "mt_rows R t' k = (if k = key
      then map (\<lambda>x. if m_conditions c = [] \<or> processCondition B x c then setStatus B 1 x else x) (mt_rows R t k)
      else mt_rows R t k)"
    "mt_ready R t' k = mt_ready R t k" "m_tableInfo t' = m_tableInfo t"
proof -
  obtain es where es: "fst (load R key t) = Inr es" using assms(1) by (auto simp: mt_ready_def split: sum.splits)
  obtain t1 where t1: "load R key t = (Inr es, t1)" using es by (cases "load R key t") auto
  then have "snd (load R key t) = t1" by simp
  then have info: "m_tableInfo t1 = m_tableInfo t" using load_same(1) [of R k key t] load_same(2) [of R key t] by simp
  let ?es' = "es\<lparr>m_entries := update_rows (setStatus B 1) (processEntries B es c) (m_entries es), es_dirty := True\<rparr>"
  have t': "t' = write_back key ?es' t1" using assms(2,3) t1 by (simp add: mt_remove_def Let_def)
  have "es = Entries \<longrightarrow> m_entries ?es' = []" by (simp add: update_rows_selected) (simp add: Entries_def)
  note wb = load_write_back [OF t1 this]
  show "mt_rows R t' k = (if k = key
      then map (\<lambda>x. if m_conditions c = [] \<or> processCondition B x c then setStatus B 1 x else x) (mt_rows R t k)
      else mt_rows R t k)"
    "mt_ready R t' k = mt_ready R t k" "m_tableInfo t' = m_tableInfo t"
    using es info by (simp_all add: t' wb) (simp add: update_rows_selected mt_rows_def)
qed

section \<open>The interface of a table\<close>

text \<open>
  What the writers of system tables rely on: reading gives the rows of a key, an insert appends a row, an update assigns
  fields in all rows of a key, and other keys are not affected.
\<close>

locale row_table =
  fixes sel :: "string \<Rightarrow> 't \<Rightarrow> entry list \<times> 't"
    and ins :: "string \<Rightarrow> entry \<Rightarrow> 't \<Rightarrow> 't"
    and upd :: "string \<Rightarrow> entry \<Rightarrow> 't \<Rightarrow> 't"
    and rows :: "'t \<Rightarrow> string \<Rightarrow> entry list"
    and ready :: "'t \<Rightarrow> string \<Rightarrow> bool"
    and accepts :: "'t \<Rightarrow> entry \<Rightarrow> bool"
  assumes sel_rows: "fst (sel key t) = rows t key" "rows (snd (sel key t)) k = rows t k"
      "ready (snd (sel key t)) k = ready t k" "accepts (snd (sel key t)) = accepts t"
    and ins_rows: "ready t key \<Longrightarrow> accepts t e \<Longrightarrow> rows (ins key e t) k = (if k = key then rows t k @ [e] else rows t k)"
    and upd_rows: "ready t key \<Longrightarrow> accepts t e \<Longrightarrow>
      rows (upd key e t) k = (if k = key then map (setFields (m_fields e)) (rows t k) else rows t k)"
begin

text \<open>Overwrite or create: the first row of the key then has the new fields, and other keys keep their rows.\<close>

lemma put_first:
  assumes "ready t key" "accepts t e" "entry_ok e" "map_of (m_fields e) f = Some v"
    and "t' = (if fst (sel key t) \<noteq> [] then upd key e (snd (sel key t)) else ins key e (snd (sel key t)))"
  shows "rows t' key \<noteq> []" "getField f (hd (rows t' key)) = v" "k \<noteq> key \<Longrightarrow> rows t' k = rows t k"
    "length (rows t key) \<le> length (rows t' key)"
proof -
  have field: "getField f (setFields (m_fields e) x) = v" for x
    using assms(3,4) by (simp add: getField_setFields entry_ok_distinct)
  have e: "getField f e = v" using assms(4) by (simp add: getField_def)
  have r: "rows t' k = (if k = key then (if rows t key \<noteq> [] then map (setFields (m_fields e)) (rows t key) else [e]) else rows t k)" for k
    using assms(1,2) by (auto simp: assms(5) sel_rows ins_rows upd_rows)
  show "rows t' key \<noteq> []" "getField f (hd (rows t' key)) = v" "k \<noteq> key \<Longrightarrow> rows t' k = rows t k"
    "length (rows t key) \<le> length (rows t' key)"
    using field e by (auto simp: r hd_map)
qed

end

interpretation mtab: row_table "\<lambda>key t. mt_select B R key Condition t" "\<lambda>key e t. snd (snd (mt_insert R key e origin t))"
  "\<lambda>key e t. snd (snd (mt_update B R key e Condition origin t))" "mt_rows R" "mt_ready R" "mt_accepts origin"
  for B R origin
proof
  fix key t k e
  show "fst (mt_select B R key Condition t) = mt_rows R t key" by (simp add: select_rows Condition_def)
  show "mt_rows R (snd (mt_select B R key Condition t)) k = mt_rows R t k"
    "mt_ready R (snd (mt_select B R key Condition t)) k = mt_ready R t k" by (simp_all add: select_rows)
  show "mt_accepts origin (snd (mt_select B R key Condition t)) = mt_accepts origin t" by (rule accepts_info) (simp add: select_rows)
  assume ok: "mt_ready R t key" "mt_accepts origin t e"
  show "mt_rows R (snd (snd (mt_insert R key e origin t))) k = (if k = key then mt_rows R t k @ [e] else mt_rows R t k)"
    using insert_rows(2) [OF ok] by (metis prod.collapse)
  show "mt_rows R (snd (snd (mt_update B R key e Condition origin t))) k =
      (if k = key then map (setFields (m_fields e)) (mt_rows R t k) else mt_rows R t k)"
    using update_rows_spec(1) [OF ok, of B Condition "fst (mt_update B R key e Condition origin t)"
        "fst (snd (mt_update B R key e Condition origin t))" "snd (snd (mt_update B R key e Condition origin t))" k]
    by (simp add: Condition_def)
qed

section \<open>Live rows\<close>

text \<open>The rows that are not marked as deleted.\<close>

definition live :: "boost \<Rightarrow> entry list \<Rightarrow> entry list" where
  "live B es = filter (\<lambda>e. getStatus B e \<noteq> Inr 1) es"

lemma processCondition_live: "m_conditions c \<noteq> [] \<Longrightarrow> processCondition B e c \<Longrightarrow> getStatus B e \<noteq> Inr 1"
  by (cases "m_conditions c") (auto simp: processCondition_def check_condition_def bindE_def split: sum.splits)

lemma getStatus_setStatus: "getStatus B (setStatus B n e) = cast (lex_uint32 B (lex_show B n))"
  by (simp add: getStatus_def setStatus_def)

lemma getStatus_setFields:
  "entry_ok e \<Longrightarrow> map_of (m_fields e) STATUS = Some v \<Longrightarrow> getStatus B (setFields (m_fields e) x) = cast (lex_uint32 B v)"
  by (simp add: getStatus_def fields_setFields entry_ok_distinct map_add_def)

lemma live_filter_live: "m_conditions c \<noteq> [] \<Longrightarrow>
    filter (\<lambda>e. m_conditions c = [] \<or> processCondition B e c) es = filter (\<lambda>e. processCondition B e c) (live B es)"
  by (auto simp: live_def intro!: filter_cong dest: processCondition_live)

lemma live_map:
  assumes "m_conditions c \<noteq> []" "\<And>x. getStatus B (f x) \<noteq> Inr 1"
  shows "live B (map (\<lambda>x. if m_conditions c = [] \<or> processCondition B x c then f x else x) es) =
    map (\<lambda>x. if processCondition B x c then f x else x) (live B es)"
  using assms processCondition_live [OF assms(1)] by (induction es) (auto simp: live_def)

lemma live_delete:
  assumes "m_conditions c \<noteq> []" "\<And>x. getStatus B (f x) = Inr 1"
  shows "live B (map (\<lambda>x. if m_conditions c = [] \<or> processCondition B x c then f x else x) es) =
    filter (\<lambda>x. \<not> processCondition B x c) (live B es)"
  using assms processCondition_live [OF assms(1)] by (induction es) (auto simp: live_def)


text \<open>Numbers written in unary, for examples.\<close>

definition unary_show :: "int \<Rightarrow> string" where
  "unary_show n = (if n = 0 then ''0'' else if n < 0 then CHR ''-'' # replicate (nat (- n)) CHR ''1'' else replicate (nat n) CHR ''1'')"

definition unary_read :: "string \<Rightarrow> int option" where
  "unary_read s =
     (if s = ''0'' then Some 0
      else case s of [] \<Rightarrow> None
        | c # r \<Rightarrow> if list_all (\<lambda>x. x = CHR ''1'') s then Some (int (length s))
                  else if c = CHR ''-'' \<and> list_all (\<lambda>x. x = CHR ''1'') r then Some (- int (length r)) else None)"

definition toy_boost :: boost where
  "toy_boost = \<lparr>lex_uint32 = (\<lambda>s. map_option nat (unary_read s)), lex_int = unary_read, lex_int64 = unary_read,
     lex_show = unary_show, split_comma = (\<lambda>s. [s]), sha256 = (\<lambda>b. replicate 32 7)\<rparr>"

lemma unary_read_show: "unary_read (unary_show n) = Some n"
proof -
  have "replicate k (CHR ''1'') \<noteq> ''0''" for k by (cases k) auto
  then show ?thesis
    by (cases "nat n"; cases "n < 0") (auto simp: unary_show_def unary_read_def list_all_iff)
qed

lemma toy_boost_status: "lex_uint32 toy_boost ''0'' = Some 0" "lex_uint32 toy_boost (lex_show toy_boost 1) = Some 1"
  "lex_int64 toy_boost (lex_show toy_boost n) = Some n" "lex_int toy_boost (lex_show toy_boost n) = Some n"
  by (simp_all add: toy_boost_def unary_read_show) (simp add: unary_read_def)

definition toy_table :: memory_table where
  "toy_table = \<lparr>m_tableInfo = \<lparr>ti_name = ''t'', ti_key = ''id'', ti_fields = [''v'', STATUS], authorizedAddress = []\<rparr>,
     m_cache = [(''a'', \<lparr>m_entries = [setField ''v'' ''x'' Entry, setField ''v'' ''y'' Entry], es_dirty = False\<rparr>)],
     mt_blockHash = replicate 32 0, mt_blockNum = 0\<rparr>"


end
