(* ===== verification/TableFactory.thy ===== *)
theory TableFactory
  imports MemoryTable FixedHash
begin

text \<open>
  The tables of a block execution and their change log, \<open>libstorage/MemoryTableFactory.h\<close> and \<open>.cpp\<close>, and the state storage on
  LevelDB, \<open>libstorage/Storage.h\<close> and \<open>LevelDBStorage.cpp\<close>. A table is reached by its name in \<open>m_name2Table\<close>; what a
  change recorder appends to the log is returned by the operations of the table. LevelDB and the JSON library
  are parameters.
\<close>

section \<open>The state storage\<close>

record table_data =
  td_tableName :: string
  td_data :: "(string \<times> entries) list"

record 'd storage =
  st_select :: "'d \<Rightarrow> bytes \<Rightarrow> int \<Rightarrow> string \<Rightarrow> string \<Rightarrow> storage_error + entries"
  st_commit :: "bytes \<Rightarrow> int \<Rightarrow> table_data list \<Rightarrow> bytes \<Rightarrow> 'd \<Rightarrow> (storage_error + nat) \<times> 'd"

section \<open>The factory\<close>

record table_factory =
  f_blockHash :: bytes
  f_blockNum :: int
  m_name2Table :: "(string \<times> memory_table) list"
  m_changeLog :: "change list"
  f_hash :: bytes
  createTableCode :: int

definition MemoryTableFactory :: table_factory where
  "MemoryTableFactory = \<lparr>f_blockHash = hash_zero 32, f_blockNum = 0, m_name2Table = [], m_changeLog = [],
     f_hash = hash_zero 32, createTableCode = 0\<rparr>"

definition m_sysTables :: "string list" where
  "m_sysTables = [SYS_MINERS, SYS_TABLES, SYS_ACCESS_TABLE, SYS_CURRENT_STATE, SYS_NUMBER_2_HASH, SYS_TX_HASH_2_BLOCK,
     SYS_HASH_2_BLOCK, SYS_CNS, SYS_CONFIG]"

definition sys_info :: "string \<Rightarrow> string \<Rightarrow> string list \<Rightarrow> table_info" where
  "sys_info name key fs = \<lparr>ti_name = name, ti_key = key, ti_fields = fs, authorizedAddress = []\<rparr>"

definition getSysTableInfo :: "string \<Rightarrow> table_info" where
  "getSysTableInfo name =
     (if name = SYS_MINERS then sys_info name ''name'' [''type'', ''node_id'', ''enable_num'']
      else if name = SYS_TABLES then sys_info name ''table_name'' [''key_field'', ''value_field'']
      else if name = SYS_ACCESS_TABLE then sys_info name ''table_name'' [''address'', ''enable_num'']
      else if name = SYS_CURRENT_STATE then sys_info name ''key'' [''value'']
      else if name = SYS_NUMBER_2_HASH then sys_info name ''hash'' [''value'']
      else if name = SYS_TX_HASH_2_BLOCK then sys_info name ''hash'' [''value'', ''index'']
      else if name = SYS_HASH_2_BLOCK then sys_info name ''key'' [''value'']
      else if name = SYS_CNS then sys_info name ''name'' [''version'', ''address'', ''abi'']
      else if name = SYS_CONFIG then sys_info name ''key'' [''value'', ''enable_num'']
      else sys_info name [] [])"

text \<open>\<open>std::stoi\<close>: leading white space, a sign, and the longest run of digits; 32 bits.\<close>

definition is_digit :: "char \<Rightarrow> bool" where
  "is_digit c \<longleftrightarrow> 48 \<le> (of_char c :: nat) \<and> (of_char c :: nat) \<le> 57"

definition is_space :: "char \<Rightarrow> bool" where
  "is_space c \<longleftrightarrow> (of_char c :: nat) = 32 \<or> (9 \<le> (of_char c :: nat) \<and> (of_char c :: nat) \<le> 13)"

definition stoi :: "string \<Rightarrow> storage_error + int" where
  "stoi s =
     (let r = dropWhile is_space s;
          (neg, ds) = (case r of CHR ''-'' # q \<Rightarrow> (True, q) | CHR ''+'' # q \<Rightarrow> (False, q) | _ \<Rightarrow> (False, r));
          digits = takeWhile is_digit ds;
          n = foldl (\<lambda>n c. 10 * n + (int (of_char c) - 48)) 0 digits;
          v = (if neg then - n else n)
      in if digits = [] then Inl StoiInvalid
         else if v < - (2 ^ 31) \<or> 2 ^ 31 \<le> v then Inl StoiOutOfRange else Inr v)"

definition as_int32 :: "int \<Rightarrow> int" where
  "as_int32 n = (n + 2 ^ 31) mod 2 ^ 32 - 2 ^ 31"

definition f_setBlockHash :: "bytes \<Rightarrow> table_factory \<Rightarrow> table_factory" where
  "f_setBlockHash h f = f\<lparr>f_blockHash := h\<rparr>"

definition f_setBlockNum :: "int \<Rightarrow> table_factory \<Rightarrow> table_factory" where
  "f_setBlockNum n f = f\<lparr>f_blockNum := as_int32 n\<rparr>"

text \<open>The constructor of a hash from a hex string.\<close>

definition hash_of_string :: "nat \<Rightarrow> string \<Rightarrow> storage_error + bytes" where
  "hash_of_string N s = (case fromHex s True of Inl e \<Rightarrow> Inl (BadHexString e) | Inr b \<Rightarrow> Inr (hash_of_bytes N b))"

text \<open>The addresses of the rows that are enabled at a block number.\<close>

fun authorized_loop :: "int \<Rightarrow> entry list \<Rightarrow> bytes list \<Rightarrow> storage_error + bytes list" where
  "authorized_loop num [] acc = Inr acc"
| "authorized_loop num (e # es) acc =
     bindE (stoi (getField ''enable_num'' e)) (\<lambda>n.
       if n \<le> num then bindE (hash_of_string 20 (getField ''address'' e)) (\<lambda>a. authorized_loop num es (acc @ [a]))
       else authorized_loop num es acc)"

definition table_info_of :: "boost \<Rightarrow> string \<Rightarrow> entry \<Rightarrow> table_info" where
  "table_info_of B name e =
     \<lparr>ti_name = name, ti_key = getField ''key_field'' e, ti_fields = split_comma B (getField ''value_field'' e), authorizedAddress = []\<rparr>"

definition add_std_fields :: "table_info \<Rightarrow> table_info" where
  "add_std_fields i = i\<lparr>ti_fields := ti_fields i @ [STATUS, ti_key i, ''_hash_'', ''_num_'']\<rparr>"

definition new_table :: "table_info \<Rightarrow> table_factory \<Rightarrow> memory_table" where
  "new_table i f = \<lparr>m_tableInfo = i, m_cache = [], mt_blockHash = f_blockHash f, mt_blockNum = f_blockNum f\<rparr>"

definition register_table :: "string \<Rightarrow> memory_table \<Rightarrow> table_factory \<Rightarrow> table_factory" where
  "register_table name t f = f\<lparr>m_name2Table := smap_insert name t (m_name2Table f)\<rparr>"

text \<open>Calls of a table of the factory. The table's recorder appends to the change log.\<close>

definition f_select :: "boost \<Rightarrow> remote \<Rightarrow> string \<Rightarrow> string \<Rightarrow> condition \<Rightarrow> table_factory \<Rightarrow> entry list \<times> table_factory" where
  "f_select B R name key c f =
     (case map_of (m_name2Table f) name of None \<Rightarrow> ([], f)
      | Some t \<Rightarrow> (case mt_select B R key c t of (es, t') \<Rightarrow> (es, f\<lparr>m_name2Table := smap_set name t' (m_name2Table f)\<rparr>)))"

definition f_log :: "string \<Rightarrow> change list \<Rightarrow> memory_table \<Rightarrow> table_factory \<Rightarrow> table_factory" where
  "f_log name log t f = f\<lparr>m_name2Table := smap_set name t (m_name2Table f), m_changeLog := m_changeLog f @ log\<rparr>"

definition f_insert :: "remote \<Rightarrow> string \<Rightarrow> string \<Rightarrow> entry \<Rightarrow> bytes \<Rightarrow> table_factory \<Rightarrow> int \<times> table_factory" where
  "f_insert R name key e origin f =
     (case map_of (m_name2Table f) name of None \<Rightarrow> (0, f)
      | Some t \<Rightarrow> (case mt_insert R key e origin t of (r, log, t') \<Rightarrow> (r, f_log name log t' f)))"

definition f_update :: "boost \<Rightarrow> remote \<Rightarrow> string \<Rightarrow> string \<Rightarrow> entry \<Rightarrow> condition \<Rightarrow> bytes \<Rightarrow> table_factory \<Rightarrow> int \<times> table_factory" where
  "f_update B R name key e c origin f =
     (case map_of (m_name2Table f) name of None \<Rightarrow> (0, f)
      | Some t \<Rightarrow> (case mt_update B R key e c origin t of (r, log, t') \<Rightarrow> (r, f_log name log t' f)))"

definition f_remove :: "boost \<Rightarrow> remote \<Rightarrow> string \<Rightarrow> string \<Rightarrow> condition \<Rightarrow> bytes \<Rightarrow> table_factory \<Rightarrow> (storage_error + int) \<times> table_factory" where
  "f_remove B R name key c origin f =
     (case map_of (m_name2Table f) name of None \<Rightarrow> (Inr 0, f)
      | Some t \<Rightarrow> (case mt_remove B R key c origin t of (r, log, t') \<Rightarrow> (r, f_log name log t' f)))"

definition f_poke :: "string \<Rightarrow> string \<Rightarrow> nat \<Rightarrow> string \<Rightarrow> string \<Rightarrow> table_factory \<Rightarrow> table_factory" where
  "f_poke name key i k v f =
     (case map_of (m_name2Table f) name of None \<Rightarrow> f
      | Some t \<Rightarrow> f\<lparr>m_name2Table := smap_set name (mt_poke key i k v t) (m_name2Table f)\<rparr>)"

lemma access_is_sys: "SYS_TABLES \<in> set m_sysTables" "SYS_ACCESS_TABLE \<in> set m_sysTables" "SYS_ACCESS_TABLE \<noteq> SYS_TABLES"
  by (simp_all add: m_sysTables_def storage_names)

text \<open>
  \<open>openTable\<close>; false stands for the null pointer. A user table is described by a row of \<open>_sys_tables_\<close>, and the authorised
  addresses come from \<open>_sys_table_access_\<close>, which has its own as rows under its own name.
\<close>

function openTable :: "boost \<Rightarrow> remote \<Rightarrow> string \<Rightarrow> bool \<Rightarrow> table_factory \<Rightarrow> (storage_error + bool) \<times> table_factory" where
  "openTable B R name authorityFlag f =
     (if map_of (m_name2Table f) name \<noteq> None then (Inr True, f)
      else case (if name \<in> set m_sysTables then (Inr (Some (getSysTableInfo name)), f)
                 else case openTable B R SYS_TABLES True f of
                        (Inl e, f1) \<Rightarrow> (Inl e, f1)
                      | (Inr _, f1) \<Rightarrow>
                          (case f_select B R SYS_TABLES name Condition f1 of
                             ([], f2) \<Rightarrow> (Inr None, f2)
                           | (e # _, f2) \<Rightarrow> (Inr (Some (table_info_of B name e)), f2))) of
          (Inl e, f1) \<Rightarrow> (Inl e, f1)
        | (Inr None, f1) \<Rightarrow> (Inr False, f1)
        | (Inr (Some info0), f1) \<Rightarrow>
            (let info = add_std_fields info0; t = new_table info f1 in
             if \<not> authorityFlag then (Inr True, register_table name t f1)
             else if name \<noteq> SYS_ACCESS_TABLE then
               (case openTable B R SYS_ACCESS_TABLE True f1 of
                  (Inl e, f2) \<Rightarrow> (Inl e, f2)
                | (Inr _, f2) \<Rightarrow>
                    (case f_select B R SYS_ACCESS_TABLE (ti_name info) Condition f2 of (es, f3) \<Rightarrow>
                       (case authorized_loop (f_blockNum f3) es [] of
                          Inl e \<Rightarrow> (Inl e, f3)
                        | Inr addrs \<Rightarrow> (Inr True, register_table name (t\<lparr>m_tableInfo := info\<lparr>authorizedAddress := addrs\<rparr>\<rparr>) f3))))
             else
               (case mt_select B R (ti_name info) Condition t of (es, t1) \<Rightarrow>
                  (case authorized_loop (f_blockNum f1) es [] of
                     Inl e \<Rightarrow> (Inl e, f1)
                   | Inr addrs \<Rightarrow> (Inr True, register_table name (t1\<lparr>m_tableInfo := info\<lparr>authorizedAddress := addrs\<rparr>\<rparr>) f1)))))"
  by auto
termination
  by (relation "measure (\<lambda>(B, R, name, fl, f). if name = SYS_ACCESS_TABLE then 0 else if name \<in> set m_sysTables then 1 else 2)")
    (auto simp: access_is_sys)

declare openTable.simps [simp del]

definition createTable ::
  "boost \<Rightarrow> remote \<Rightarrow> string \<Rightarrow> string \<Rightarrow> string \<Rightarrow> bool \<Rightarrow> bytes \<Rightarrow> table_factory \<Rightarrow> (storage_error + bool) \<times> table_factory" where
  "createTable B R name keyField valueField authorityFlag origin f =
     (case openTable B R SYS_TABLES authorityFlag f of
        (Inl e, f1) \<Rightarrow> (Inl e, f1)
      | (Inr _, f1) \<Rightarrow>
          (case f_select B R SYS_TABLES name Condition f1 of (es, f2) \<Rightarrow>
             if es \<noteq> [] then (Inr False, f2)
             else
               let e = setField ''value_field'' valueField (setField ''key_field'' keyField (setField ''table_name'' name Entry));
                   (code, f3) = f_insert R SYS_TABLES name e origin f2;
                   f4 = f3\<lparr>createTableCode := code\<rparr>
               in if code = -1 then (Inr False, f4) else openTable B R name True f4))"

definition f_hash_data :: "boost \<Rightarrow> table_factory \<Rightarrow> bytes" where
  "f_hash_data B f = concat (map (\<lambda>(_, t). if mt_hash B t = hash_zero 32 then [] else mt_hash B t) (m_name2Table f))"

definition factory_hash :: "boost \<Rightarrow> table_factory \<Rightarrow> bytes \<times> table_factory" where
  "factory_hash B f =
     (if f_hash_data B f = [] then (hash_zero 32, f)
      else (sha256 B (f_hash_data B f), f\<lparr>f_hash := sha256 B (f_hash_data B f)\<rparr>))"

definition savepoint :: "table_factory \<Rightarrow> nat" where
  "savepoint f = length (m_changeLog f)"

section \<open>Rolling back\<close>

fun undo_records :: "(change_record \<Rightarrow> entry \<Rightarrow> entry) \<Rightarrow> change_record list \<Rightarrow> entries \<Rightarrow> storage_error + entries" where
  "undo_records g [] es = Inr es"
| "undo_records g (r # rs) es =
     bindE (entries_get (r_index r) es) (\<lambda>e. undo_records g rs (es\<lparr>m_entries := (m_entries es)[r_index r := g r e]\<rparr>))"

text \<open>The rows a change refers to are those of its table and key; the map operator would add a null pointer for a missing key.\<close>

definition undo_rows :: "boost \<Rightarrow> change \<Rightarrow> entries \<Rightarrow> storage_error + entries" where
  "undo_rows B ch es =
     (case c_kind ch of
        Insert \<Rightarrow> (case c_value ch of [] \<Rightarrow> Inl NullPointer | r # _ \<Rightarrow> removeEntry (r_index r) es)
      | Update \<Rightarrow> undo_records (\<lambda>r. setField (r_key r) (r_oldValue r)) (c_value ch) es
      | Remove \<Rightarrow> undo_records (\<lambda>_. setStatus B 0) (c_value ch) es
      | Select \<Rightarrow> Inr es)"

definition undo_table :: "boost \<Rightarrow> change \<Rightarrow> memory_table \<Rightarrow> storage_error + memory_table" where
  "undo_table B ch t =
     (case map_of (m_cache t) (c_key ch) of
        None \<Rightarrow> Inl NullPointer
      | Some es \<Rightarrow>
          bindE (undo_rows B ch es) (\<lambda>es'.
            Inr (if c_kind ch = Insert \<and> m_entries es' = [] then t\<lparr>m_cache := amap_del (c_key ch) (m_cache t)\<rparr>
                 else t\<lparr>m_cache := smap_set (c_key ch) es' (m_cache t)\<rparr>)))"

definition undo_change :: "boost \<Rightarrow> change \<Rightarrow> table_factory \<Rightarrow> storage_error + table_factory" where
  "undo_change B ch f =
     (if c_kind ch = Select then Inr f
      else case map_of (m_name2Table f) (c_table ch) of
             None \<Rightarrow> Inl NullPointer
           | Some t \<Rightarrow> bindE (undo_table B ch t) (\<lambda>t'. Inr (f\<lparr>m_name2Table := smap_set (c_table ch) t' (m_name2Table f)\<rparr>)))"

fun undo_changes :: "boost \<Rightarrow> change list \<Rightarrow> table_factory \<Rightarrow> storage_error + table_factory" where
  "undo_changes B [] f = Inr f"
| "undo_changes B (ch # chs) f = bindE (undo_change B ch f) (undo_changes B chs)"

definition rollback :: "boost \<Rightarrow> nat \<Rightarrow> table_factory \<Rightarrow> storage_error + table_factory" where
  "rollback B sp f =
     bindE (undo_changes B (rev (drop sp (m_changeLog f))) f) (\<lambda>f'. Inr (f'\<lparr>m_changeLog := take sp (m_changeLog f)\<rparr>))"

section \<open>Committing\<close>

definition dirty_tables :: "table_factory \<Rightarrow> table_data list" where
  "dirty_tables f =
     map (\<lambda>(name, t). \<lparr>td_tableName = name, td_data = m_cache t\<rparr>)
       (filter (\<lambda>(_, t). m_cache t \<noteq> [] \<and> list_ex (\<lambda>(_, es). es_dirty es) (m_cache t)) (m_name2Table f))"

definition commitDB :: "boost \<Rightarrow> 'd storage \<Rightarrow> bytes \<Rightarrow> int \<Rightarrow> table_factory \<Rightarrow> 'd \<Rightarrow> (storage_error + unit) \<times> table_factory \<times> 'd" where
  "commitDB B S blockHash blockNumber f d =
     (let datas = dirty_tables f;
          f1 = (if datas \<noteq> [] \<and> f_hash f = hash_zero 32 then snd (factory_hash B f) else f);
          (r, d1) = (if datas \<noteq> [] then st_commit S blockHash blockNumber datas blockHash d else (Inr 0, d))
      in case r of Inl e \<Rightarrow> (Inl e, f1, d1) | Inr _ \<Rightarrow> (Inr (), f1\<lparr>m_name2Table := [], m_changeLog := []\<rparr>, d1))"

section \<open>LevelDB\<close>

datatype ldb_status = LdbOk | LdbNotFound | LdbError string

datatype json_scalar = JString string | JInt int

text \<open>
  The calls of LevelDB, and of the JSON library on documents \<open>{"values": [{...}, ...]}\<close> whose objects are sorted by key;
  \<open>json_int\<close> is \<open>asString\<close> of an integer.
\<close>

record 'd leveldb =
  ldb_get :: "'d \<Rightarrow> string \<Rightarrow> ldb_status \<times> string"
  ldb_write :: "(string \<times> string) list \<Rightarrow> 'd \<Rightarrow> ldb_status \<times> 'd"
  json_print :: "(string \<times> json_scalar) list list \<Rightarrow> string"
  json_parse :: "string \<Rightarrow> (string \<times> json_scalar) list list option"
  json_int :: "int \<Rightarrow> string"

definition entryKey :: "string \<Rightarrow> string \<Rightarrow> string" where
  "entryKey table key = table @ ''_'' @ key"

definition json_asString :: "'d leveldb \<Rightarrow> json_scalar \<Rightarrow> string" where
  "json_asString L v = (case v of JString s \<Rightarrow> s | JInt n \<Rightarrow> json_int L n)"

definition entry_of_json :: "'d leveldb \<Rightarrow> (string \<times> json_scalar) list \<Rightarrow> entry" where
  "entry_of_json L obj = foldl (\<lambda>e (k, v). setField k (json_asString L v) e) Entry obj"

fun read_values :: "boost \<Rightarrow> 'd leveldb \<Rightarrow> (string \<times> json_scalar) list list \<Rightarrow> entries \<Rightarrow> storage_error + entries" where
  "read_values B L [] es = Inr es"
| "read_values B L (obj # objs) es =
     bindE (getStatus B (entry_of_json L obj)) (\<lambda>st.
       read_values B L objs (if st = 0 then addEntry ((entry_of_json L obj)\<lparr>e_dirty := False\<rparr>) es else es))"

definition leveldb_select :: "boost \<Rightarrow> 'd leveldb \<Rightarrow> 'd \<Rightarrow> bytes \<Rightarrow> int \<Rightarrow> string \<Rightarrow> string \<Rightarrow> storage_error + entries" where
  "leveldb_select B L d hash num table key =
     (case ldb_get L d (entryKey table key) of
        (LdbError e, _) \<Rightarrow> Inl (RemoteError e)
      | (LdbNotFound, _) \<Rightarrow> Inr Entries
      | (LdbOk, v) \<Rightarrow> (case json_parse L v of None \<Rightarrow> Inl (RemoteError ''json'') | Some objs \<Rightarrow> read_values B L objs Entries))"

definition json_of_entry :: "bytes \<Rightarrow> int \<Rightarrow> entry \<Rightarrow> (string \<times> json_scalar) list" where
  "json_of_entry hash num e =
     smap_set ''_num_'' (JInt num) (smap_set ''_hash_'' (JString (toHex hash))
       (foldl (\<lambda>obj (k, v). smap_set k (JString v) obj) [] (m_fields e)))"

definition batch_of :: "'d leveldb \<Rightarrow> bytes \<Rightarrow> int \<Rightarrow> table_data list \<Rightarrow> (string \<times> string) list" where
  "batch_of L hash num datas =
     concat (map (\<lambda>td. map (\<lambda>(key, es). (entryKey (td_tableName td) key, json_print L (map (json_of_entry hash num) (m_entries es))))
       (filter (\<lambda>(_, es). m_entries es \<noteq> []) (td_data td))) datas)"

definition leveldb_commit :: "'d leveldb \<Rightarrow> bytes \<Rightarrow> int \<Rightarrow> table_data list \<Rightarrow> bytes \<Rightarrow> 'd \<Rightarrow> (storage_error + nat) \<times> 'd" where
  "leveldb_commit L hash num datas blockHash d =
     (case ldb_write L (batch_of L hash num datas) d of
        (LdbOk, d1) \<Rightarrow> (Inr (length (batch_of L hash num datas)), d1)
      | (LdbNotFound, d1) \<Rightarrow> (Inl (RemoteError []), d1)
      | (LdbError e, d1) \<Rightarrow> (Inl (RemoteError e), d1))"

definition LevelDBStorage :: "boost \<Rightarrow> 'd leveldb \<Rightarrow> 'd storage" where
  "LevelDBStorage B L = \<lparr>st_select = leveldb_select B L, st_commit = leveldb_commit L\<rparr>"

section \<open>What LevelDB gives back\<close>

text \<open>
  The documented behaviour of the two libraries: a successful write is visible to reads, the last of several writes to a key
  counts, and a printed document of objects with sorted keys is parsed back.
\<close>

definition leveldb_ok :: "'d leveldb \<Rightarrow> bool" where
  "leveldb_ok L \<longleftrightarrow>
     (\<forall>b d d' k. ldb_write L b d = (LdbOk, d') \<longrightarrow>
        ldb_get L d' k = (case map_of (rev b) k of Some v \<Rightarrow> (LdbOk, v) | None \<Rightarrow> ldb_get L d k))
     \<and> (\<forall>objs. objs \<noteq> [] \<longrightarrow> list_all (\<lambda>obj. sorted_wrt (<) (map fst obj)) objs \<longrightarrow> json_parse L (json_print L objs) = Some objs)"

lemma sorted_json_of_entry: "sorted_wrt (<) (map fst (json_of_entry h n e))"
proof -
  have "sorted_wrt (<) (map fst obj) \<Longrightarrow> sorted_wrt (<) (map fst (foldl (\<lambda>obj (k, v). smap_set k (JString v) obj) obj kvs))" for obj kvs
    by (induction kvs arbitrary: obj) (auto simp: sorted_smap_set)
  from this [of "[]" "m_fields e"] show ?thesis unfolding json_of_entry_def by (intro sorted_smap_set) simp
qed

text \<open>A row as it is read back from the storage.\<close>

definition stored_entry :: "'d leveldb \<Rightarrow> bytes \<Rightarrow> int \<Rightarrow> entry \<Rightarrow> entry" where
  "stored_entry L h n e = (entry_of_json L (json_of_entry h n e))\<lparr>e_dirty := False\<rparr>"

lemma map_of_json:
  "distinct (map fst kvs) \<Longrightarrow>
   map_of (foldl (\<lambda>obj (k, v). smap_set k (JString v) obj) obj kvs) = map_of obj ++ (map_option JString \<circ> map_of kvs)"
proof (induction kvs arbitrary: obj)
  case (Cons kv kvs)
  obtain k v where kv: "kv = (k, v)" by (cases kv)
  have "map_of kvs k = None" using Cons.prems by (simp add: kv map_of_eq_None_iff)
  then show ?case using Cons by (auto simp: kv map_add_def fun_eq_iff split: option.splits)
qed (simp add: fun_eq_iff map_add_def)

lemma map_of_entry_of_json:
  "distinct (map fst obj) \<Longrightarrow> map_of (m_fields (entry_of_json L obj)) = map_of (m_fields Entry) ++ (map_option (json_asString L) \<circ> map_of obj)"
proof -
  have "distinct (map fst obj) \<Longrightarrow> map_of (m_fields (foldl (\<lambda>e (k, v). setField k (json_asString L v) e) e obj)) =
      map_of (m_fields e) ++ (map_option (json_asString L) \<circ> map_of obj)" for e
  proof (induction obj arbitrary: e)
    case (Cons kv kvs)
    obtain k v where kv: "kv = (k, v)" by (cases kv)
    have "map_of kvs k = None" using Cons.prems by (simp add: kv map_of_eq_None_iff)
    then show ?case using Cons by (auto simp: kv setField_def map_add_def fun_eq_iff split: option.splits)
  qed (simp add: fun_eq_iff map_add_def)
  then show "distinct (map fst obj) \<Longrightarrow> ?thesis" by (simp add: entry_of_json_def)
qed

lemma fields_stored_entry:
  assumes "entry_ok e"
  shows "map_of (m_fields (stored_entry L h n e)) =
    (map_of (m_fields Entry) ++ map_of (m_fields e))(''_hash_'' \<mapsto> toHex h, ''_num_'' \<mapsto> json_int L n)"
proof -
  have "distinct (map fst (json_of_entry h n e))" using sorted_json_of_entry [of h n e] by (simp add: strict_sorted_iff)
  from map_of_entry_of_json [OF this, of L] show ?thesis
    by (auto simp: stored_entry_def json_of_entry_def map_of_json [OF entry_ok_distinct [OF assms]] fun_eq_iff map_add_def
        json_asString_def option.map_comp comp_def split: option.splits)
qed

lemma getField_stored_entry:
  "entry_ok e \<Longrightarrow> k \<notin> {''_hash_'', ''_num_'', STATUS} \<Longrightarrow> getField k (stored_entry L h n e) = getField k e"
  by (simp add: getField_def fields_stored_entry Entry_def map_add_def split: option.splits)

lemma getStatus_stored_entry:
  "entry_ok e \<Longrightarrow> map_of (m_fields e) STATUS = Some v \<Longrightarrow> getStatus B (stored_entry L h n e) = cast (lex_uint32 B v)"
  by (simp add: getStatus_def fields_stored_entry map_add_def STATUS_def)

text \<open>What a batch holds for a storage key.\<close>

definition committed :: "table_data list \<Rightarrow> (string \<times> entries) list" where
  "committed datas = concat (map (\<lambda>td. map (\<lambda>(key, es). (entryKey (td_tableName td) key, es))
     (filter (\<lambda>(_, es). m_entries es \<noteq> []) (td_data td))) datas)"

lemma batch_committed:
  "batch_of L h n datas = map (\<lambda>(k, es). (k, json_print L (map (json_of_entry h n) (m_entries es)))) (committed datas)"
  by (auto simp: batch_of_def committed_def map_concat comp_def intro!: arg_cong [of _ _ concat])

lemma map_of_rev_map_snd: "map_of (rev (map (\<lambda>(k, v). (k, f v)) xs)) k = map_option f (map_of (rev xs) k)"
  by (simp add: rev_map map_of_map)

text \<open>The rows with status 0.\<close>

definition stored_entries :: "boost \<Rightarrow> 'd leveldb \<Rightarrow> bytes \<Rightarrow> int \<Rightarrow> entry list \<Rightarrow> entries" where
  "stored_entries B L h n es =
     (let rs = filter (\<lambda>e. getStatus B e = Inr 0) (map (stored_entry L h n) es) in \<lparr>m_entries = rs, es_dirty = (rs \<noteq> [])\<rparr>)"

lemma read_values_stored:
  assumes "list_all (\<lambda>e. \<exists>st. getStatus B (stored_entry L h n e) = Inr st) es"
  shows "read_values B L (map (json_of_entry h n) es) Entries = Inr (stored_entries B L h n es)"
proof -
  have "read_values B L (map (json_of_entry h n) es) acc =
      Inr \<lparr>m_entries = m_entries acc @ m_entries (stored_entries B L h n es), es_dirty = es_dirty acc \<or> es_dirty (stored_entries B L h n es)\<rparr>"
    for acc using assms
  proof (induction es arbitrary: acc)
    case (Cons e es)
    have st: "getStatus B (entry_of_json L (json_of_entry h n e)) = getStatus B (stored_entry L h n e)"
      by (simp add: stored_entry_def getStatus_def)
    obtain v where v: "getStatus B (stored_entry L h n e) = Inr v" using Cons.prems by auto
    show ?case using Cons by (cases "v = 0") (auto simp: st v stored_entries_def Let_def addEntry_def stored_entry_def [symmetric])
  qed (simp add: stored_entries_def)
  from this [of Entries] show ?thesis by (simp add: Entries_def stored_entries_def Let_def)
qed

lemma leveldb_select_after:
  assumes "leveldb_ok L" "leveldb_commit L h n datas bh d = (Inr cnt, d')"
    and "\<And>es. map_of (rev (committed datas)) (entryKey table key) = Some es \<Longrightarrow>
           list_all (\<lambda>e. \<exists>st. getStatus B (stored_entry L h n e) = Inr st) (m_entries es)"
  shows "leveldb_select B L d' h' n' table key =
    (case map_of (rev (committed datas)) (entryKey table key) of
       Some es \<Rightarrow> Inr (stored_entries B L h n (m_entries es)) | None \<Rightarrow> leveldb_select B L d h' n' table key)"
proof -
  let ?k = "entryKey table key"
  have w: "ldb_write L (batch_of L h n datas) d = (LdbOk, d')"
    using assms(2) by (auto simp: leveldb_commit_def split: prod.splits ldb_status.splits)
  have get: "ldb_get L d' ?k = (case map_of (rev (committed datas)) ?k of
      Some es \<Rightarrow> (LdbOk, json_print L (map (json_of_entry h n) (m_entries es))) | None \<Rightarrow> ldb_get L d ?k)"
    using assms(1) w unfolding leveldb_ok_def batch_committed
    by (simp add: map_of_rev_map_snd split: option.splits)
  show ?thesis
  proof (cases "map_of (rev (committed datas)) ?k")
    case (Some es)
    then have mem: "(?k, es) \<in> set (committed datas)" using map_of_SomeD by fastforce
    then have "m_entries es \<noteq> []" by (auto simp: committed_def)
    then have "json_parse L (json_print L (map (json_of_entry h n) (m_entries es))) = Some (map (json_of_entry h n) (m_entries es))"
      using assms(1) by (simp add: leveldb_ok_def list_all_iff sorted_json_of_entry)
    then show ?thesis using Some get read_values_stored [OF assms(3) [OF Some]] by (simp add: leveldb_select_def)
  qed (simp add: get leveldb_select_def)
qed

text \<open>
  C37. What is committed is read back: after a successful commit of a batch of tables, selecting a table and key
  returns the rows the batch holds under that storage key, each with its fields unchanged, the hash and number of the
  block in \<open>_hash_\<close> and \<open>_num_\<close>, not dirty, and without the rows whose status is not 0; a key that is not in the
  batch reads as before. The rows written under the key are required to have a readable status.
\<close>

theorem leveldb_commit_select:
  assumes "leveldb_ok L" "st_commit (LevelDBStorage B L) h n datas bh d = (Inr cnt, d')"
    and "\<And>es e. (entryKey table key, es) \<in> set (committed datas) \<Longrightarrow> e \<in> set (m_entries es) \<Longrightarrow>
           entry_ok e \<and> (\<exists>v st. map_of (m_fields e) STATUS = Some v \<and> lex_uint32 B v = Some st)"
  shows "case map_of (rev (committed datas)) (entryKey table key) of
      None \<Rightarrow> st_select (LevelDBStorage B L) d' h' n' table key = st_select (LevelDBStorage B L) d h' n' table key
    | Some es \<Rightarrow> \<exists>rs. st_select (LevelDBStorage B L) d' h' n' table key = Inr rs
        \<and> map (\<lambda>r. (map_of (m_fields r), e_dirty r)) (m_entries rs) =
          map (\<lambda>e. ((map_of (m_fields e))(''_hash_'' \<mapsto> toHex h, ''_num_'' \<mapsto> json_int L n), False))
            (filter (\<lambda>e. getStatus B e = Inr 0) (m_entries es))"
proof -
  have st: "getStatus B (stored_entry L h n e) = getStatus B e \<and> (\<exists>st. getStatus B e = Inr st)
      \<and> map_of (m_fields (stored_entry L h n e)) = (map_of (m_fields e))(''_hash_'' \<mapsto> toHex h, ''_num_'' \<mapsto> json_int L n)"
    if mem: "(entryKey table key, es) \<in> set (committed datas)" "e \<in> set (m_entries es)" for es e
  proof -
    obtain v st where v: "entry_ok e" "map_of (m_fields e) STATUS = Some v" "lex_uint32 B v = Some st" using assms(3) [OF mem] by blast
    then have "map_of (m_fields Entry) ++ map_of (m_fields e) = map_of (m_fields e)"
      by (auto simp: Entry_def map_add_def fun_eq_iff split: option.splits)
    with v show ?thesis by (simp add: fields_stored_entry getStatus_def STATUS_def)
  qed
  have commit: "leveldb_commit L h n datas bh d = (Inr cnt, d')" using assms(2) by (simp add: LevelDBStorage_def)
  have "list_all (\<lambda>e. \<exists>st. getStatus B (stored_entry L h n e) = Inr st) (m_entries es)"
    if "map_of (rev (committed datas)) (entryKey table key) = Some es" for es
    using st [of es] map_of_SomeD [OF that] by (auto simp: list_all_iff)
  note sel = leveldb_select_after [where B = B and h' = h' and n' = n' and table = table and key = key, OF assms(1) commit this]
  show ?thesis
  proof (cases "map_of (rev (committed datas)) (entryKey table key)")
    case None
    then show ?thesis using sel by (simp add: LevelDBStorage_def)
  next
    case (Some es)
    then have mem: "(entryKey table key, es) \<in> set (committed datas)" using map_of_SomeD by fastforce
    have "filter (\<lambda>e. getStatus B e = Inr 0) (map (stored_entry L h n) (m_entries es)) =
        map (stored_entry L h n) (filter (\<lambda>e. getStatus B e = Inr 0) (m_entries es))"
      using st [OF mem] by (simp add: filter_map comp_def cong: filter_cong)
    moreover have "e_dirty (stored_entry L h n e) = False" for e by (simp add: stored_entry_def)
    ultimately show ?thesis
      using Some sel st [OF mem] by (auto simp: LevelDBStorage_def stored_entries_def Let_def comp_def)
  qed
qed

text \<open>
  C40. Table and key are joined with an underscore, so different pairs can share a storage key: rows committed for table \<open>t\<close>
  and key \<open>a_b\<close> are returned by a select on table \<open>t_a\<close> and key \<open>b\<close>, although nothing was ever written to that table.
\<close>

theorem leveldb_key_clash:
  assumes "leveldb_ok L" "entry_ok e" "map_of (m_fields e) STATUS = Some ''0''" "lex_uint32 B ''0'' = Some 0"
    and "leveldb_commit L h n [\<lparr>td_tableName = t, td_data = [(a @ ''_'' @ b, \<lparr>m_entries = [e], es_dirty = True\<rparr>)]\<rparr>] bh d = (Inr cnt, d')"
  shows "leveldb_select B L d' h' n' (t @ ''_'' @ a) b = Inr \<lparr>m_entries = [stored_entry L h n e], es_dirty = True\<rparr>"
proof -
  have st: "getStatus B (stored_entry L h n e) = Inr 0" using assms(2-4) by (simp add: getStatus_stored_entry)
  have "leveldb_select B L d' h' n' (t @ ''_'' @ a) b =
      (case map_of (rev (committed [\<lparr>td_tableName = t, td_data = [(a @ ''_'' @ b, \<lparr>m_entries = [e], es_dirty = True\<rparr>)]\<rparr>])) (entryKey (t @ ''_'' @ a) b) of
         Some es \<Rightarrow> Inr (stored_entries B L h n (m_entries es)) | None \<Rightarrow> leveldb_select B L d h' n' (t @ ''_'' @ a) b)"
    by (rule leveldb_select_after [OF assms(1,5)]) (auto simp: committed_def st split: if_splits)
  then show ?thesis by (simp add: committed_def entryKey_def stored_entries_def st)
qed

section \<open>What a rollback gives back\<close>

lemma undo_records_append: "undo_records g (xs @ ys) es = bindE (undo_records g xs es) (undo_records g ys)"
  by (induction g xs es rule: undo_records.induct) (auto split: sum.splits simp: bindE_def)

definition old_fields :: "(string \<Rightarrow> string) \<Rightarrow> (string \<times> string) list \<Rightarrow> (string \<times> string) list" where
  "old_fields v kvs = map (\<lambda>(k, _). (k, v k)) kvs"

abbreviation undo_field :: "change_record \<Rightarrow> entry \<Rightarrow> entry" where
  "undo_field r \<equiv> setField (r_key r) (r_oldValue r)"

lemma undo_row:
  "i < length (m_entries es) \<Longrightarrow>
   undo_records undo_field (map (\<lambda>(k, _). \<lparr>r_index = i, r_key = k, r_oldValue = v k\<rparr>) kvs) es =
     Inr (es\<lparr>m_entries := (m_entries es)[i := setFields (old_fields v kvs) (m_entries es ! i)]\<rparr>)"
  by (induction kvs arbitrary: es) (auto simp: old_fields_def entries_get_def bindE_def)

lemma undo_all_rows:
  "set idx \<subseteq> {..<length (m_entries es)} \<Longrightarrow>
   undo_records undo_field (concat (map (\<lambda>i. map (\<lambda>(k, _). \<lparr>r_index = i, r_key = k, r_oldValue = v i k\<rparr>) kvs) idx)) es =
     Inr (es\<lparr>m_entries := foldl (\<lambda>xs i. xs[i := setFields (old_fields (v i) kvs) (xs ! i)]) (m_entries es) idx\<rparr>)"
  by (induction idx arbitrary: es) (simp_all add: undo_records_append undo_row bindE_def)

lemma getField_old_fields:
  "getField k (setFields (old_fields v kvs) e) = (if k \<in> fst ` set kvs then v k else getField k e)"
  by (induction kvs arbitrary: e) (auto simp: old_fields_def rev_image_eqI)

text \<open>Rows with the same value for every field name.\<close>

definition same_fields :: "entry list \<Rightarrow> entry list \<Rightarrow> bool" where
  "same_fields xs ys \<longleftrightarrow> list_all2 (\<lambda>x y. \<forall>k. getField k x = getField k y) xs ys"

lemma rows_restored:
  assumes "length xs = length orig"
    and "\<And>j k. j < length orig \<Longrightarrow> j \<notin> set idx \<or> k \<notin> fst ` set kvs \<Longrightarrow> getField k (xs ! j) = getField k (orig ! j)"
  shows "same_fields (foldl (\<lambda>xs i. xs[i := setFields (old_fields (\<lambda>k. getField k (orig ! i)) kvs) (xs ! i)]) xs idx) orig"
  using assms
proof (induction idx arbitrary: xs)
  case Nil
  then show ?case by (auto simp: same_fields_def list_all2_conv_all_nth)
next
  case (Cons i idx)
  let ?xs = "xs[i := setFields (old_fields (\<lambda>k. getField k (orig ! i)) kvs) (xs ! i)]"
  have "getField k (?xs ! j) = getField k (orig ! j)" if "j < length orig" "j \<notin> set idx \<or> k \<notin> fst ` set kvs" for j k
    using that Cons.prems by (cases "i = j") (auto simp: getField_old_fields)
  then show ?case using Cons.IH [of ?xs] Cons.prems(1) by simp
qed

text \<open>The log is cut back to the savepoint.\<close>

lemma rollback_one:
  assumes "m_changeLog f' = m_changeLog f @ [ch]"
  shows "rollback B (savepoint f) f' = bindE (undo_change B ch f') (\<lambda>f''. Inr (f''\<lparr>m_changeLog := m_changeLog f\<rparr>))"
  using assms by (auto simp: rollback_def savepoint_def bindE_def split: sum.splits)

lemma getField_setFields_other: "k \<notin> fst ` set kvs \<Longrightarrow> getField k (setFields kvs e) = getField k e"
  by (induction kvs arbitrary: e) auto

lemma update_undone:
  assumes "load (Some r) key t = (Inr es, t1)" "mt_accepts origin t e" "mt_update B (Some r) key e c origin t = (n, log, t')"
  shows "\<exists>ch es1 es2. log = [ch] \<and> c_table ch = ti_name (m_tableInfo t) \<and> c_key ch = key \<and> c_kind ch = Update
    \<and> t' = t1\<lparr>m_cache := smap_set key es1 (m_cache t1)\<rparr> \<and> undo_rows B ch es1 = Inr es2 \<and> same_fields (m_entries es2) (m_entries es)"
proof -
  have t1: "snd (load (Some r) key t) = t1" using assms(1) by simp
  have info: "m_tableInfo t1 = m_tableInfo t" "checkFiled e t1 = Inr ()"
    using assms(2) checkFiled_load [of e "Some r" key t] load_same(2) [of "Some r" key t] by (simp_all add: t1 mt_accepts_def)
  have cached: "map_of (m_cache t1) key = Some es" using load_cached [OF assms(1)] by simp
  let ?idx = "processEntries B es c"
  let ?es1 = "es\<lparr>m_entries := update_rows (setFields (m_fields e)) ?idx (m_entries es), es_dirty := True\<rparr>"
  let ?ch = "\<lparr>c_table = ti_name (m_tableInfo t1), c_kind = Update, c_key = key, c_value = concat (map (\<lambda>i. map (\<lambda>(k, _).
      \<lparr>r_index = i, r_key = k, r_oldValue = getField k (m_entries es ! i)\<rparr>) (m_fields e)) ?idx)\<rparr>"
  let ?es2 = "?es1\<lparr>m_entries := foldl (\<lambda>xs i. xs[i := setFields (old_fields (\<lambda>k. getField k (m_entries es ! i)) (m_fields e)) (xs ! i)])
      (m_entries ?es1) ?idx\<rparr>"
  have run: "log = [?ch]" "t' = t1\<lparr>m_cache := smap_set key ?es1 (m_cache t1)\<rparr>"
    using assms info cached by (auto simp: mt_update_def mt_accepts_def write_back_def Let_def)
  have len: "length (m_entries ?es1) = length (m_entries es)" by (simp add: update_rows_distinct [OF processEntries_sub])
  have "undo_rows B ?ch ?es1 = Inr ?es2"
    using undo_all_rows [of ?idx ?es1 "\<lambda>i k. getField k (m_entries es ! i)" "m_fields e"] processEntries_sub(2) [of B es c]
    by (simp add: undo_rows_def update_rows_distinct [OF processEntries_sub])
  moreover have "same_fields (m_entries ?es2) (m_entries es)"
    using len by (auto intro!: rows_restored simp: update_rows_distinct [OF processEntries_sub] getField_setFields_other)
  ultimately show ?thesis using run info(1) by fastforce
qed

text \<open>
  C38. Rolling back an update: from the savepoint taken before an update of a table of the factory, the rollback succeeds, cuts
  the change log back, leaves all other tables as they were, and in every row of every key each field reads as it did
  before the update (a field the row did not have is present and empty).
\<close>

theorem rollback_update_restores:
  assumes "map_of (m_name2Table f) name = Some t" "ti_name (m_tableInfo t) = name"
    and "mt_ready (Some r) t key" "mt_accepts origin t e" "f_update B (Some r) name key e c origin f = (n, f')"
  shows "\<exists>f'' t''. rollback B (savepoint f) f' = Inr f'' \<and> m_changeLog f'' = m_changeLog f
    \<and> map_of (m_name2Table f'') = (map_of (m_name2Table f))(name \<mapsto> t'') \<and> m_tableInfo t'' = m_tableInfo t
    \<and> (\<forall>k. same_fields (mt_rows (Some r) t'' k) (mt_rows (Some r) t k))"
proof -
  obtain es where "fst (load (Some r) key t) = Inr es" using assms(3) by (auto simp: mt_ready_def split: sum.splits)
  then obtain t1 where ld: "load (Some r) key t = (Inr es, t1)" by (cases "load (Some r) key t") auto
  obtain log t' where up: "mt_update B (Some r) key e c origin t = (n, log, t')" "f' = f_log name log t' f"
    using assms(1,5) by (auto simp: f_update_def split: prod.splits)
  obtain ch es1 es2 where ch: "log = [ch]" "c_table ch = name" "c_key ch = key" "c_kind ch = Update"
      "t' = t1\<lparr>m_cache := smap_set key es1 (m_cache t1)\<rparr>" "undo_rows B ch es1 = Inr es2" "same_fields (m_entries es2) (m_entries es)"
    using update_undone [OF ld assms(4) up(1)] assms(2) by blast
  have t1: "fst (load (Some r) k t1) = fst (load (Some r) k t)" "m_tableInfo t1 = m_tableInfo t" for k
    using load_same(1) [of "Some r" k key t] load_same(2) [of "Some r" key t] ld by simp_all
  let ?t2 = "t'\<lparr>m_cache := smap_set key es2 (m_cache t')\<rparr>"
  have undo: "undo_table B ch t' = Inr ?t2" using ch by (simp add: undo_table_def bindE_def)
  have rows: "same_fields (mt_rows (Some r) ?t2 k) (mt_rows (Some r) t k)" for k
    unfolding mt_rows_def load_set using ch(7) ld by (simp add: ch(5) load_set t1 same_fields_def list_all2_refl split: sum.splits)
  have "rollback B (savepoint f) f' =
      Inr (f'\<lparr>m_name2Table := smap_set name ?t2 (m_name2Table f'), m_changeLog := m_changeLog f\<rparr>)"
    using undo ch by (subst rollback_one [of _ f ch]) (auto simp: up(2) f_log_def undo_change_def bindE_def)
  then show ?thesis using rows t1 ch(5) by (intro exI [of _ "f'\<lparr>m_name2Table := smap_set name ?t2 (m_name2Table f'), m_changeLog := m_changeLog f\<rparr>"]
        exI [of _ ?t2]) (auto simp: up(2) f_log_def)
qed

text \<open>
  C39. Rolling back an insert has no defined result: the recorded index is one past the inserted row, so the rollback erases past
  the end of the rows.
\<close>

theorem rollback_insert_undefined:
  assumes "map_of (m_name2Table f) name = Some t" "ti_name (m_tableInfo t) = name"
    and "mt_ready R t key" "mt_accepts origin t e" "f_insert R name key e origin f = (n, f')"
  shows "rollback B (savepoint f) f' = Inl EraseOutOfRange"
proof -
  obtain es where "fst (load R key t) = Inr es" using assms(3) by (auto simp: mt_ready_def split: sum.splits)
  then obtain t1 where ld: "load R key t = (Inr es, t1)" by (cases "load R key t") auto
  have t1: "m_tableInfo t1 = m_tableInfo t" "checkFiled e t1 = Inr ()"
    using assms(4) load_same(2) [of R key t] checkFiled_load [of e R key t] ld by (simp_all add: mt_accepts_def)
  let ?ch = "\<lparr>c_table = name, c_kind = Insert, c_key = key, c_value = [\<lparr>r_index = length (m_entries es) + 1, r_key = [], r_oldValue = []\<rparr>]\<rparr>"
  have f': "f' = f_log name [?ch] (t1\<lparr>m_cache := smap_set key (addEntry e es) (m_cache t1)\<rparr>) f"
    using assms ld t1 by (auto simp: f_insert_def mt_insert_def mt_accepts_def)
  show ?thesis
    by (subst rollback_one [of _ f ?ch])
      (simp_all add: f' f_log_def undo_change_def undo_table_def undo_rows_def removeEntry_def addEntry_def bindE_def)
qed

section \<open>Examples\<close>

text \<open>A list as LevelDB, and a length-prefixed text format as the JSON library.\<close>

definition enc_len :: "nat \<Rightarrow> string" where
  "enc_len n = replicate n CHR ''1'' @ ''0''"

definition dec_len :: "string \<Rightarrow> nat \<times> string" where
  "dec_len s = (length (takeWhile (\<lambda>c. c = CHR ''1'') s), drop 1 (dropWhile (\<lambda>c. c = CHR ''1'') s))"

definition enc_str :: "string \<Rightarrow> string" where
  "enc_str s = enc_len (length s) @ s"

definition dec_str :: "string \<Rightarrow> string \<times> string" where
  "dec_str s = (case dec_len s of (n, r) \<Rightarrow> (take n r, drop n r))"

definition enc_member :: "string \<times> json_scalar \<Rightarrow> string" where
  "enc_member kv = enc_str (fst kv) @ (case snd kv of JString v \<Rightarrow> ''s'' @ enc_str v | JInt n \<Rightarrow> ''i'' @ enc_str (unary_show n))"

definition dec_member :: "string \<Rightarrow> (string \<times> json_scalar) \<times> string" where
  "dec_member s = (case dec_str s of (k, r) \<Rightarrow> (case dec_str (tl r) of (v, q) \<Rightarrow>
     ((k, if hd r = CHR ''s'' then JString v else JInt (the (unary_read v))), q)))"

definition enc_many :: "('a \<Rightarrow> string) \<Rightarrow> 'a list \<Rightarrow> string" where
  "enc_many enc xs = enc_len (length xs) @ concat (map enc xs)"

fun dec_times :: "(string \<Rightarrow> 'a \<times> string) \<Rightarrow> nat \<Rightarrow> string \<Rightarrow> 'a list \<times> string" where
  "dec_times dec 0 s = ([], s)"
| "dec_times dec (Suc n) s = (case dec s of (x, r) \<Rightarrow> (case dec_times dec n r of (xs, q) \<Rightarrow> (x # xs, q)))"

definition dec_many :: "(string \<Rightarrow> 'a \<times> string) \<Rightarrow> string \<Rightarrow> 'a list \<times> string" where
  "dec_many dec s = (case dec_len s of (n, r) \<Rightarrow> dec_times dec n r)"

definition toy_leveldb :: "(string \<times> string) list leveldb" where
  "toy_leveldb = \<lparr>ldb_get = (\<lambda>d k. case map_of d k of None \<Rightarrow> (LdbNotFound, []) | Some v \<Rightarrow> (LdbOk, v)),
     ldb_write = (\<lambda>b d. (LdbOk, rev b @ d)), json_print = enc_many (enc_many enc_member),
     json_parse = (\<lambda>s. Some (fst (dec_many (dec_many dec_member) s))), json_int = unary_show\<rparr>"

lemma dec_len_enc: "dec_len (enc_len n @ r) = (n, r)"
  by (induction n) (auto simp: dec_len_def enc_len_def)

lemma dec_str_enc: "dec_str (enc_str s @ r) = (s, r)"
  by (simp add: dec_str_def enc_str_def dec_len_enc)

lemma dec_member_enc: "dec_member (enc_member kv @ r) = (kv, r)"
  by (cases kv; cases "snd kv") (simp_all add: dec_member_def enc_member_def dec_str_enc unary_read_show)

lemma dec_many_enc: "(\<And>x r. dec (enc x @ r) = (x, r)) \<Longrightarrow> dec_many dec (enc_many enc xs @ r) = (xs, r)"
proof -
  assume "\<And>x r. dec (enc x @ r) = (x, r)"
  then have "dec_times dec (length xs) (concat (map enc xs) @ r) = (xs, r)" by (induction xs) simp_all
  then show ?thesis by (simp add: dec_many_def enc_many_def dec_len_enc)
qed

lemma toy_leveldb_ok: "leveldb_ok toy_leveldb"
proof -
  have "dec_many (dec_many dec_member) (enc_many (enc_many enc_member) objs @ []) = (objs, [])" for objs
    by (intro dec_many_enc dec_member_enc)
  then show ?thesis by (auto simp: leveldb_ok_def toy_leveldb_def map_add_def split: option.splits)
qed

definition toy_row :: "string \<Rightarrow> entry" where
  "toy_row v = setField ''v'' v Entry"

lemma toy_row_ok: "entry_ok (toy_row v)" "map_of (m_fields (toy_row v)) STATUS = Some ''0''"
  "getStatus toy_boost (toy_row v) = Inr 0" "getField ''v'' (toy_row v) = v"
  using toy_boost_status(1) by (simp_all add: toy_row_def getStatus_def) (simp_all add: setField_def Entry_def STATUS_def)

theorem leveldb_commit_select_witness:
  "\<exists>rs. leveldb_select toy_boost toy_leveldb
      (snd (leveldb_commit toy_leveldb [] 1 [\<lparr>td_tableName = ''t'', td_data = [(''a'', \<lparr>m_entries = [toy_row ''x''], es_dirty = True\<rparr>)]\<rparr>] [] []))
      [] 1 ''t'' ''a'' = Inr rs \<and> map (getField ''v'') (m_entries rs) = [''x''] \<and> map (getField ''_num_'') (m_entries rs) = [''1'']"
proof -
  let ?datas = "[\<lparr>td_tableName = ''t'', td_data = [(''a'', \<lparr>m_entries = [toy_row ''x''], es_dirty = True\<rparr>)]\<rparr>]"
  let ?d = "snd (leveldb_commit toy_leveldb [] 1 ?datas [] [])"
  have commit: "st_commit (LevelDBStorage toy_boost toy_leveldb) [] 1 ?datas [] [] = (Inr 1, ?d)"
    by (simp add: LevelDBStorage_def leveldb_commit_def toy_leveldb_def batch_of_def)
  have com: "committed ?datas = [(entryKey ''t'' ''a'', \<lparr>m_entries = [toy_row ''x''], es_dirty = True\<rparr>)]" by (simp add: committed_def)
  have "case map_of (rev (committed ?datas)) (entryKey ''t'' ''a'') of
      None \<Rightarrow> st_select (LevelDBStorage toy_boost toy_leveldb) ?d [] 1 ''t'' ''a'' = st_select (LevelDBStorage toy_boost toy_leveldb) [] [] 1 ''t'' ''a''
    | Some es \<Rightarrow> \<exists>rs. st_select (LevelDBStorage toy_boost toy_leveldb) ?d [] 1 ''t'' ''a'' = Inr rs
        \<and> map (\<lambda>r. (map_of (m_fields r), e_dirty r)) (m_entries rs) =
          map (\<lambda>e. ((map_of (m_fields e))(''_hash_'' \<mapsto> toHex [], ''_num_'' \<mapsto> json_int toy_leveldb 1), False))
            (filter (\<lambda>e. getStatus toy_boost e = Inr 0) (m_entries es))"
    by (rule leveldb_commit_select [OF toy_leveldb_ok commit]) (auto simp: com toy_row_ok toy_boost_status)
  then obtain rs where rs: "leveldb_select toy_boost toy_leveldb ?d [] 1 ''t'' ''a'' = Inr rs"
      "map (\<lambda>r. (map_of (m_fields r), e_dirty r)) (m_entries rs) =
        [((map_of (m_fields (toy_row ''x'')))(''_hash_'' \<mapsto> toHex [], ''_num_'' \<mapsto> ''1''), False)]"
    by (auto simp: com toy_row_ok LevelDBStorage_def toy_leveldb_def unary_show_def)
  then obtain r where r: "m_entries rs = [r]"
      "map_of (m_fields r) = (map_of (m_fields (toy_row ''x'')))(''_hash_'' \<mapsto> toHex [], ''_num_'' \<mapsto> ''1'')" by auto
  then have "getField ''v'' r = ''x'' \<and> getField ''_num_'' r = ''1''"
    using toy_row_ok(4) [of "''x''"] by (simp add: getField_def)
  then show ?thesis using rs(1) r(1) by auto
qed

theorem leveldb_key_clash_witness:
  "leveldb_select toy_boost toy_leveldb
      (snd (leveldb_commit toy_leveldb [] 1 [\<lparr>td_tableName = ''t'', td_data = [(''a_b'', \<lparr>m_entries = [toy_row ''x''], es_dirty = True\<rparr>)]\<rparr>] [] []))
      [] 1 ''t_a'' ''b'' = Inr \<lparr>m_entries = [stored_entry toy_leveldb [] 1 (toy_row ''x'')], es_dirty = True\<rparr>"
proof -
  have commit: "leveldb_commit toy_leveldb [] 1 [\<lparr>td_tableName = ''t'', td_data = [(''a'' @ ''_'' @ ''b'', \<lparr>m_entries = [toy_row ''x''], es_dirty = True\<rparr>)]\<rparr>] [] [] =
      (Inr 1, snd (leveldb_commit toy_leveldb [] 1 [\<lparr>td_tableName = ''t'', td_data = [(''a'' @ ''_'' @ ''b'', \<lparr>m_entries = [toy_row ''x''], es_dirty = True\<rparr>)]\<rparr>] [] []))"
    by (simp add: leveldb_commit_def toy_leveldb_def batch_of_def)
  from leveldb_key_clash [OF toy_leveldb_ok toy_row_ok(1,2) toy_boost_status(1) commit, of "[]" 1] show ?thesis by simp
qed

definition toy_factory :: table_factory where
  "toy_factory = MemoryTableFactory\<lparr>m_name2Table := [(''t'', toy_table)]\<rparr>"

lemma toy_table_ready: "mt_ready R toy_table ''a''" "mt_accepts [] toy_table (toy_row v)" "ti_name (m_tableInfo toy_table) = ''t''"
  "map_of (m_name2Table toy_factory) ''t'' = Some toy_table"
  "mt_rows R toy_table ''a'' = [toy_row ''x'', toy_row ''y'']"
  by (simp_all add: mt_ready_def mt_rows_def load_def toy_table_def toy_row_def mt_accepts_def checkAuthority_def checkFiled_def
      setField_def Entry_def STATUS_def toy_factory_def)

definition no_rows :: "bytes \<Rightarrow> int \<Rightarrow> string \<Rightarrow> string \<Rightarrow> storage_error + entries" where
  "no_rows h n table key = Inr Entries"

theorem rollback_update_restores_witness:
  "\<exists>f'' t''. rollback toy_boost (savepoint toy_factory) (snd (f_update toy_boost (Some no_rows) ''t'' ''a'' (toy_row ''z'') Condition [] toy_factory)) = Inr f''
    \<and> map_of (m_name2Table f'') ''t'' = Some t'' \<and> map (getField ''v'') (mt_rows (Some no_rows) t'' ''a'') = [''x'', ''y'']"
proof -
  obtain n f' where up: "f_update toy_boost (Some no_rows) ''t'' ''a'' (toy_row ''z'') Condition [] toy_factory = (n, f')" by (cases "f_update toy_boost (Some no_rows) ''t'' ''a'' (toy_row ''z'') Condition [] toy_factory")
  obtain f'' t'' where r: "rollback toy_boost (savepoint toy_factory) f' = Inr f''" "map_of (m_name2Table f'') ''t'' = Some t''"
      "same_fields (mt_rows (Some no_rows) t'' ''a'') (mt_rows (Some no_rows) toy_table ''a'')"
    using rollback_update_restores [OF toy_table_ready(4,3,1,2) up] by auto
  then have "map (getField ''v'') (mt_rows (Some no_rows) t'' ''a'') = [''x'', ''y'']"
    by (auto simp: toy_table_ready same_fields_def list_all2_Cons2 toy_row_ok)
  with r up show ?thesis by simp
qed

theorem rollback_insert_undefined_witness:
  "rollback toy_boost (savepoint toy_factory) (snd (f_insert (Some no_rows) ''t'' ''a'' (toy_row ''z'') [] toy_factory)) = Inl EraseOutOfRange"
proof -
  obtain n f' where ins: "f_insert (Some no_rows) ''t'' ''a'' (toy_row ''z'') [] toy_factory = (n, f')" by (cases "f_insert (Some no_rows) ''t'' ''a'' (toy_row ''z'') [] toy_factory")
  from rollback_insert_undefined [OF toy_table_ready(4,3,1,2) ins] show ?thesis by (simp add: ins)
qed

end
