(* ===== verification/TableClient.thy ===== *)
theory TableClient
  imports TableFactory Effects Transaction "HOL-Library.Sublist"
begin

text \<open>
  How the rest of the node uses tables: calls on a table of a \<open>MemoryTableFactory\<close> as methods that may throw, the
  well-formedness of a factory and its preservation by every operation, what the system tables hold after a write, and what
  a commit makes visible to later readers.
\<close>

section \<open>Calls\<close>

datatype client_error =
    StorageError storage_error | EthError eth_error | HexError hex_error | OpenSysTableFailed string
  | NullDereference | EmptyDeque | AssertAbort | NotEnoughCash | InvalidAccountStartNonceInState | IncorrectAccountStartNonceInState

definition liftS :: "storage_error + 'a \<Rightarrow> client_error + 'a" where
  "liftS r = (case r of Inl e \<Rightarrow> Inl (StorageError e) | Inr x \<Rightarrow> Inr x)"

definition liftT :: "eth_error + 'a \<Rightarrow> client_error + 'a" where
  "liftT r = (case r of Inl e \<Rightarrow> Inl (EthError e) | Inr x \<Rightarrow> Inr x)"

lemma liftS_simps [simp, result_simps]: "liftS (Inr x) = Inr x" "liftS (Inl e) = Inl (StorageError e)"
  by (simp_all add: liftS_def)

lemma liftT_simps [simp, result_simps]: "liftT (Inr x) = Inr x" "liftT (Inl e) = Inl (EthError e)"
  by (simp_all add: liftT_def)

type_synonym 'a fop = "(table_factory, client_error, 'a) action"

definition t_open :: "boost \<Rightarrow> remote \<Rightarrow> string \<Rightarrow> bool \<Rightarrow> bool fop" where
  "t_open B R name authorityFlag f = (case openTable B R name authorityFlag f of (r, f1) \<Rightarrow> (liftS r, f1))"

definition t_create :: "boost \<Rightarrow> remote \<Rightarrow> string \<Rightarrow> string \<Rightarrow> string \<Rightarrow> bool \<Rightarrow> bytes \<Rightarrow> bool fop" where
  "t_create B R name keyField valueField authorityFlag origin f =
     (case createTable B R name keyField valueField authorityFlag origin f of (r, f1) \<Rightarrow> (liftS r, f1))"

definition t_select :: "boost \<Rightarrow> remote \<Rightarrow> string \<Rightarrow> string \<Rightarrow> entry list fop" where
  "t_select B R name key = updateM (f_select B R name key Condition)"

definition t_insert :: "remote \<Rightarrow> string \<Rightarrow> string \<Rightarrow> entry \<Rightarrow> int fop" where
  "t_insert R name key e = updateM (f_insert R name key e (hash_zero 20))"

definition t_update :: "boost \<Rightarrow> remote \<Rightarrow> string \<Rightarrow> string \<Rightarrow> entry \<Rightarrow> int fop" where
  "t_update B R name key e = updateM (f_update B R name key e Condition (hash_zero 20))"

section \<open>Well-formed factories\<close>

text \<open>
  The maps are sorted without duplicates, a table is registered under the name in its description, every row is sorted, and every
  change in the log refers to a registered table.
\<close>

definition rows_ok :: "entries \<Rightarrow> bool" where
  "rows_ok es \<longleftrightarrow> list_all entry_ok (m_entries es)"

definition table_ok :: "string \<Rightarrow> memory_table \<Rightarrow> bool" where
  "table_ok name t \<longleftrightarrow> ti_name (m_tableInfo t) = name \<and> sorted_wrt (<) (map fst (m_cache t)) \<and> list_all (\<lambda>(_, es). rows_ok es) (m_cache t)"

definition factory_ok :: "table_factory \<Rightarrow> bool" where
  "factory_ok f \<longleftrightarrow> sorted_wrt (<) (map fst (m_name2Table f)) \<and> list_all (\<lambda>(name, t). table_ok name t) (m_name2Table f)
     \<and> list_all (\<lambda>ch. c_table ch \<in> fst ` set (m_name2Table f)) (m_changeLog f)"

definition remote_ok :: "remote \<Rightarrow> bool" where
  "remote_ok R \<longleftrightarrow> (\<forall>r h n name key es. R = Some r \<longrightarrow> r h n name key = Inr es \<longrightarrow> rows_ok es)"

lemma smap_set_all: "list_all P m \<Longrightarrow> P (k, v) \<Longrightarrow> list_all P (smap_set k v m)"
  by (induction k v m rule: smap_set.induct) auto

lemma smap_insert_all: "list_all P m \<Longrightarrow> P (k, v) \<Longrightarrow> list_all P (smap_insert k v m)"
  by (simp add: smap_insert_def smap_set_all)

lemma sorted_smap_insert: "sorted_wrt (<) (map fst m) \<Longrightarrow> sorted_wrt (<) (map fst (smap_insert k v m))"
  by (simp add: smap_insert_def sorted_smap_set)

lemma keys_smap_insert: "fst ` set (smap_insert k v m) = insert k (fst ` set m)"
  by (auto simp: smap_insert_def dest: map_of_SomeD intro: rev_image_eqI)

lemma list_all_map_of: "list_all P m \<Longrightarrow> map_of m k = Some v \<Longrightarrow> P (k, v)"
  by (auto simp: list_all_iff dest: map_of_SomeD)

lemma factory_ok_table: "factory_ok f \<Longrightarrow> map_of (m_name2Table f) name = Some t \<Longrightarrow> table_ok name t"
  unfolding factory_ok_def by (auto dest: list_all_map_of)

lemma factory_ok_set:
  assumes "factory_ok f" "table_ok name t" "list_all (\<lambda>ch. c_table ch \<in> insert name (fst ` set (m_name2Table f))) log"
  shows "factory_ok (f\<lparr>m_name2Table := smap_set name t (m_name2Table f), m_changeLog := m_changeLog f @ log\<rparr>)"
proof -
  have "list_all (\<lambda>ch. c_table ch \<in> fst ` set (smap_set name t (m_name2Table f))) (m_changeLog f @ log)"
    using assms by (auto simp: factory_ok_def list_all_iff)
  then show ?thesis using assms by (simp add: factory_ok_def sorted_smap_set smap_set_all)
qed

lemma factory_ok_register: "factory_ok f \<Longrightarrow> table_ok name t \<Longrightarrow> factory_ok (register_table name t f)"
  by (simp add: factory_ok_def register_table_def sorted_smap_insert smap_insert_all keys_smap_insert) (auto simp: list_all_iff)

subsection \<open>Tables\<close>

lemma table_ok_load: "remote_ok R \<Longrightarrow> table_ok name t \<Longrightarrow> load R key t = (r, t1) \<Longrightarrow> table_ok name t1 \<and> (\<forall>es. r = Inr es \<longrightarrow> rows_ok es)"
  by (auto simp: load_def table_ok_def remote_ok_def sorted_smap_insert smap_insert_all Entries_def rows_ok_def
      dest: list_all_map_of split: option.splits sum.splits)

lemma rows_ok_update: "rows_ok es \<Longrightarrow> (\<And>e. entry_ok e \<Longrightarrow> entry_ok (g e)) \<Longrightarrow> set idx \<subseteq> {..<length (m_entries es)} \<Longrightarrow>
    list_all entry_ok (update_rows g idx (m_entries es))"
proof -
  assume "rows_ok es" "\<And>e. entry_ok e \<Longrightarrow> entry_ok (g e)"
  then have "list_all entry_ok xs \<Longrightarrow> set idx \<subseteq> {..<length xs} \<Longrightarrow> list_all entry_ok (update_rows g idx xs)" for xs
  proof (induction idx arbitrary: xs)
    case (Cons i idx)
    then have "list_all entry_ok (xs[i := g (xs ! i)])" by (auto simp: list_all_length nth_list_update)
    then show ?case using Cons by (simp add: update_rows_def)
  qed (simp add: update_rows_def)
  then show "set idx \<subseteq> {..<length (m_entries es)} \<Longrightarrow> list_all entry_ok (update_rows g idx (m_entries es))"
    using \<open>rows_ok es\<close> by (simp add: rows_ok_def)
qed

lemma entry_ok_setFields: "entry_ok e \<Longrightarrow> entry_ok (setFields kvs e)"
  by (induction kvs arbitrary: e) auto

lemma table_ok_set: "table_ok name t \<Longrightarrow> rows_ok es \<Longrightarrow> table_ok name (t\<lparr>m_cache := smap_set key es (m_cache t)\<rparr>)"
  by (simp add: table_ok_def sorted_smap_set smap_set_all)

lemma table_ok_write_back: "table_ok name t \<Longrightarrow> rows_ok es \<Longrightarrow> table_ok name (write_back key es t)"
  by (simp add: write_back_def table_ok_set)

lemma table_ok_name: "table_ok name t \<Longrightarrow> ti_name (m_tableInfo t) = name"
  by (simp add: table_ok_def)

lemma select_ok:
  assumes "remote_ok R" "table_ok name t" "mt_select B R key c t = (es, t1)"
  shows "table_ok name t1 \<and> list_all entry_ok es"
proof -
  obtain r t2 where ld: "load R key t = (r, t2)" by (cases "load R key t")
  note ok = table_ok_load [OF assms(1,2) ld]
  then show ?thesis using assms(3) ld
    by (cases r) (auto simp: mt_select_def select_indexes rows_ok_def list_all_iff)
qed

lemma insert_ok:
  assumes "remote_ok R" "table_ok name t" "entry_ok e" "mt_insert R key e origin t = (n, log, t1)"
  shows "table_ok name t1 \<and> list_all (\<lambda>ch. c_table ch = name) log"
proof (cases "checkAuthority origin t")
  case True
  obtain r t2 where ld: "load R key t = (r, t2)" by (cases "load R key t")
  note ok = table_ok_load [OF assms(1,2) ld]
  show ?thesis
  proof (cases r)
    case (Inr es)
    have "rows_ok (addEntry e es)" using ok Inr assms(3) by (simp add: rows_ok_def addEntry_def)
    then show ?thesis using assms(4) ok True ld Inr
      by (auto simp: mt_insert_def table_ok_set table_ok_name split: sum.splits)
  qed (use assms(4) ok True ld in \<open>auto simp: mt_insert_def\<close>)
qed (use assms in \<open>auto simp: mt_insert_def\<close>)

lemma update_ok:
  assumes "remote_ok R" "table_ok name t" "mt_update B R key e c origin t = (n, log, t1)"
  shows "table_ok name t1 \<and> list_all (\<lambda>ch. c_table ch = name) log"
proof (cases "checkAuthority origin t")
  case True
  obtain r t2 where ld: "load R key t = (r, t2)" by (cases "load R key t")
  note ok = table_ok_load [OF assms(1,2) ld]
  show ?thesis
  proof (cases r)
    case (Inr es)
    have "rows_ok (es\<lparr>m_entries := update_rows (setFields (m_fields e)) (processEntries B es c) (m_entries es), es_dirty := True\<rparr>)"
      using ok Inr rows_ok_update [of es "setFields (m_fields e)" "processEntries B es c"] processEntries_sub(2) [of B es c]
      by (simp add: rows_ok_def entry_ok_setFields)
    then show ?thesis using assms(3) ok True ld Inr
      by (auto simp: mt_update_def Let_def table_ok_write_back table_ok_name split: sum.splits)
  qed (use assms(3) ok True ld in \<open>auto simp: mt_update_def\<close>)
qed (use assms in \<open>auto simp: mt_update_def\<close>)

lemma remove_ok:
  assumes "remote_ok R" "table_ok name t" "mt_remove B R key c origin t = (n, log, t1)"
  shows "table_ok name t1 \<and> list_all (\<lambda>ch. c_table ch = name) log"
proof (cases "checkAuthority origin t")
  case True
  obtain r t2 where ld: "load R key t = (r, t2)" by (cases "load R key t")
  note ok = table_ok_load [OF assms(1,2) ld]
  show ?thesis
  proof (cases r)
    case (Inr es)
    have "rows_ok (es\<lparr>m_entries := update_rows (setStatus B 1) (processEntries B es c) (m_entries es), es_dirty := True\<rparr>)"
      using ok Inr rows_ok_update [of es "setStatus B 1" "processEntries B es c"] processEntries_sub(2) [of B es c]
      by (simp add: rows_ok_def)
    then show ?thesis using assms(3) ok True ld Inr
      by (auto simp: mt_remove_def Let_def table_ok_write_back table_ok_name)
  qed (use assms(3) ok True ld in \<open>auto simp: mt_remove_def\<close>)
qed (use assms in \<open>auto simp: mt_remove_def\<close>)

subsection \<open>The factory\<close>

lemma factory_ok_select:
  assumes "remote_ok R" "factory_ok f" "f_select B R name key c f = (es, f1)"
  shows "factory_ok f1 \<and> list_all entry_ok es"
proof (cases "map_of (m_name2Table f) name")
  case (Some t)
  obtain t1 where sel: "mt_select B R key c t = (es, t1)" using assms(3) Some by (auto simp: f_select_def split: prod.splits)
  from select_ok [OF assms(1) factory_ok_table [OF assms(2) Some] sel] show ?thesis
    using assms(3) Some sel factory_ok_set [OF assms(2), of name t1 "[]"] by (auto simp: f_select_def)
qed (use assms in \<open>auto simp: f_select_def\<close>)

lemma factory_ok_log:
  assumes "factory_ok f" "table_ok name t \<and> list_all (\<lambda>ch. c_table ch = name) log"
  shows "factory_ok (f_log name log t f)"
  unfolding f_log_def using assms by (intro factory_ok_set) (auto simp: list_all_iff)

lemma factory_ok_insert:
  assumes "remote_ok R" "factory_ok f" "entry_ok e"
  shows "factory_ok (snd (f_insert R name key e origin f))"
  using assms insert_ok [OF assms(1) factory_ok_table [OF assms(2)] assms(3)]
  by (auto simp: f_insert_def intro!: factory_ok_log split: option.splits prod.splits)

lemma factory_ok_update:
  assumes "remote_ok R" "factory_ok f"
  shows "factory_ok (snd (f_update B R name key e c origin f))"
  using assms update_ok [OF assms(1) factory_ok_table [OF assms(2)]]
  by (auto simp: f_update_def intro!: factory_ok_log split: option.splits prod.splits)

lemma factory_ok_remove:
  assumes "remote_ok R" "factory_ok f"
  shows "factory_ok (snd (f_remove B R name key c origin f))"
  using assms remove_ok [OF assms(1) factory_ok_table [OF assms(2)]]
  by (auto simp: f_remove_def intro!: factory_ok_log split: option.splits prod.splits)

lemma factory_ok_poke:
  assumes "factory_ok f"
  shows "factory_ok (f_poke name key i k v f)"
proof (cases "map_of (m_name2Table f) name")
  case (Some t)
  have t: "table_ok name t" by (rule factory_ok_table [OF assms Some])
  have "table_ok name (mt_poke key i k v t)"
  proof (cases "map_of (m_cache t) key")
    case (Some es)
    then have "rows_ok es" using t by (auto simp: table_ok_def dest: list_all_map_of)
    then have "list_all entry_ok (update_rows (setField k v) [i] (m_entries es))"
      by (cases "i < length (m_entries es)") (auto simp: update_rows_def rows_ok_def list_all_length nth_list_update)
    then show ?thesis using Some t by (simp add: mt_poke_def table_ok_write_back rows_ok_def)
  qed (simp add: mt_poke_def t)
  then show ?thesis using Some assms factory_ok_set [OF assms, of name _ "[]"] by (simp add: f_poke_def)
qed (simp add: f_poke_def assms)

lemma new_table_ok: "ti_name info = name \<Longrightarrow> table_ok name (new_table info f)"
  by (simp add: table_ok_def new_table_def)

lemma table_info_names: "ti_name (getSysTableInfo name) = name" "ti_name (table_info_of B name e) = name" "ti_name (add_std_fields i) = ti_name i"
  by (simp_all add: getSysTableInfo_def sys_info_def table_info_of_def add_std_fields_def)

lemma table_ok_authorized: "table_ok name t \<Longrightarrow> ti_name i = name \<Longrightarrow> table_ok name (t\<lparr>m_tableInfo := i\<rparr>)"
  by (simp add: table_ok_def)

text \<open>The two halves of \<open>openTable\<close>: the description of the table, and the table with its authorised addresses.\<close>

definition open_info :: "boost \<Rightarrow> remote \<Rightarrow> string \<Rightarrow> table_factory \<Rightarrow> (storage_error + table_info option) \<times> table_factory" where
  "open_info B R name f =
     (if name \<in> set m_sysTables then (Inr (Some (getSysTableInfo name)), f)
      else case openTable B R SYS_TABLES True f of
             (Inl e, f1) \<Rightarrow> (Inl e, f1)
           | (Inr _, f1) \<Rightarrow> (case f_select B R SYS_TABLES name Condition f1 of
                ([], f2) \<Rightarrow> (Inr None, f2) | (e # _, f2) \<Rightarrow> (Inr (Some (table_info_of B name e)), f2)))"

definition open_register :: "boost \<Rightarrow> remote \<Rightarrow> string \<Rightarrow> bool \<Rightarrow> table_info \<Rightarrow> table_factory \<Rightarrow> (storage_error + bool) \<times> table_factory" where
  "open_register B R name authorityFlag info f =
     (if \<not> authorityFlag then (Inr True, register_table name (new_table info f) f)
      else if name \<noteq> SYS_ACCESS_TABLE then
        (case openTable B R SYS_ACCESS_TABLE True f of
           (Inl e, f2) \<Rightarrow> (Inl e, f2)
         | (Inr _, f2) \<Rightarrow> (case f_select B R SYS_ACCESS_TABLE (ti_name info) Condition f2 of (es, f3) \<Rightarrow>
             (case authorized_loop (f_blockNum f3) es [] of
                Inl e \<Rightarrow> (Inl e, f3)
              | Inr addrs \<Rightarrow> (Inr True, register_table name ((new_table info f)\<lparr>m_tableInfo := info\<lparr>authorizedAddress := addrs\<rparr>\<rparr>) f3))))
      else (case mt_select B R (ti_name info) Condition (new_table info f) of (es, t1) \<Rightarrow>
             (case authorized_loop (f_blockNum f) es [] of
                Inl e \<Rightarrow> (Inl e, f)
              | Inr addrs \<Rightarrow> (Inr True, register_table name (t1\<lparr>m_tableInfo := info\<lparr>authorizedAddress := addrs\<rparr>\<rparr>) f))))"

lemma openTable_split:
  "openTable B R name authorityFlag f =
     (if map_of (m_name2Table f) name \<noteq> None then (Inr True, f)
      else case open_info B R name f of (Inl e, f1) \<Rightarrow> (Inl e, f1) | (Inr None, f1) \<Rightarrow> (Inr False, f1)
        | (Inr (Some info), f1) \<Rightarrow> open_register B R name authorityFlag (add_std_fields info) f1)"
  by (subst openTable.simps) (simp only: open_info_def open_register_def Let_def)

lemma open_register_ok:
  assumes "remote_ok R" "factory_ok f" "ti_name info = name"
    and "name \<noteq> SYS_ACCESS_TABLE \<Longrightarrow> factory_ok (snd (openTable B R SYS_ACCESS_TABLE True f))"
  shows "factory_ok (snd (open_register B R name authorityFlag info f))"
proof -
  have new: "table_ok name (new_table info f)" using assms(3) by (rule new_table_ok)
  have auth: "table_ok name (t\<lparr>m_tableInfo := info\<lparr>authorizedAddress := addrs\<rparr>\<rparr>)" if "table_ok name t" for t addrs
    using that assms(3) by (simp add: table_ok_authorized)
  show ?thesis
  proof (cases "name = SYS_ACCESS_TABLE")
    case True
    have "table_ok name t1" if "mt_select B R (ti_name info) Condition (new_table info f) = (es, t1)" for es t1
      using select_ok [OF assms(1) new that] ..
    then show ?thesis using True assms(2) new auth
      by (auto simp: open_register_def intro!: factory_ok_register split: prod.splits sum.splits)
  next
    case False
    have "factory_ok f3" if "openTable B R SYS_ACCESS_TABLE True f = (r, f2)" "f_select B R SYS_ACCESS_TABLE (ti_name info) Condition f2 = (es, f3)"
      for r f2 es f3
      using assms(4) [OF False] that factory_ok_select [OF assms(1) _ that(2)] by simp
    then show ?thesis using False assms(2,4) new auth
      by (auto simp: open_register_def intro!: factory_ok_register split: prod.splits sum.splits)
  qed
qed

lemma open_info_ok:
  assumes "remote_ok R" "factory_ok f" "open_info B R name f = (r, f1)"
    and "name \<notin> set m_sysTables \<Longrightarrow> factory_ok (snd (openTable B R SYS_TABLES True f))"
  shows "factory_ok f1 \<and> (\<forall>info. r = Inr (Some info) \<longrightarrow> ti_name info = name)"
proof (cases "name \<in> set m_sysTables")
  case False
  obtain r2 f2 where o: "openTable B R SYS_TABLES True f = (r2, f2)" by (cases "openTable B R SYS_TABLES True f")
  then have "factory_ok f2" using assms(4) [OF False] by simp
  moreover obtain es f3 where s: "f_select B R SYS_TABLES name Condition f2 = (es, f3)" by (cases "f_select B R SYS_TABLES name Condition f2")
  ultimately have "factory_ok f2 \<and> factory_ok f3" using factory_ok_select [OF assms(1) _ s] by blast
  then show ?thesis using assms(3) False o s
    by (auto simp: open_info_def table_info_names split: sum.splits list.splits)
qed (use assms in \<open>auto simp: open_info_def table_info_names\<close>)

lemma open_step:
  assumes "remote_ok R" "factory_ok f"
    and "name \<notin> set m_sysTables \<Longrightarrow> factory_ok (snd (openTable B R SYS_TABLES True f))"
    and "\<And>f1. factory_ok f1 \<Longrightarrow> name \<noteq> SYS_ACCESS_TABLE \<Longrightarrow> factory_ok (snd (openTable B R SYS_ACCESS_TABLE True f1))"
  shows "factory_ok (snd (openTable B R name authorityFlag f))"
proof -
  obtain r f1 where i: "open_info B R name f = (r, f1)" by (cases "open_info B R name f")
  have "factory_ok f1 \<and> (\<forall>info. r = Inr (Some info) \<longrightarrow> ti_name info = name)" by (rule open_info_ok [OF assms(1,2) i assms(3)])
  then have f1: "factory_ok f1" and info: "\<And>info. r = Inr (Some info) \<Longrightarrow> ti_name info = name" by blast+
  have "factory_ok (snd (open_register B R name authorityFlag (add_std_fields info) f1))" if "r = Inr (Some info)" for info
    by (rule open_register_ok [OF assms(1) f1 _ assms(4) [OF f1]]) (use info [OF that] in \<open>simp_all add: table_info_names\<close>)
  with f1 show ?thesis
    unfolding openTable_split [of B R name] using i assms(2) by (cases r) (auto split: option.splits)
qed

lemma factory_ok_open: "remote_ok R \<Longrightarrow> factory_ok f \<Longrightarrow> factory_ok (snd (openTable B R name authorityFlag f))"
proof -
  assume R: "remote_ok R" and f: "factory_ok f"
  have access: "factory_ok (snd (openTable B R SYS_ACCESS_TABLE True f))" if "factory_ok f" for f
    by (rule open_step [OF R that]) (simp_all add: access_is_sys)
  have tables: "factory_ok (snd (openTable B R SYS_TABLES True f))"
    by (rule open_step [OF R f _ access]) (simp_all add: access_is_sys)
  show ?thesis by (rule open_step [OF R f tables access])
qed

lemma factory_ok_create:
  assumes "remote_ok R" "factory_ok f"
  shows "factory_ok (snd (createTable B R name keyField valueField authorityFlag origin f))"
proof -
  obtain r f1 where o: "openTable B R SYS_TABLES authorityFlag f = (r, f1)" by (cases "openTable B R SYS_TABLES authorityFlag f")
  have f1: "factory_ok f1" using factory_ok_open [OF assms, of B SYS_TABLES authorityFlag] o by simp
  obtain es f2 where s: "f_select B R SYS_TABLES name Condition f1 = (es, f2)" by (cases "f_select B R SYS_TABLES name Condition f1")
  have f2: "factory_ok f2" using factory_ok_select [OF assms(1) f1 s] ..
  let ?e = "setField ''value_field'' valueField (setField ''key_field'' keyField (setField ''table_name'' name Entry))"
  obtain code f3 where i: "f_insert R SYS_TABLES name ?e origin f2 = (code, f3)" by (cases "f_insert R SYS_TABLES name ?e origin f2")
  have "factory_ok f3" using factory_ok_insert [OF assms(1) f2, of ?e SYS_TABLES name origin] i by simp
  then have "factory_ok (f3\<lparr>createTableCode := code\<rparr>)" by (simp add: factory_ok_def)
  then show ?thesis using o s i f1 f2 factory_ok_open [OF assms(1)]
    by (auto simp: createTable_def Let_def split: sum.splits)
qed

lemma undo_records_ok:
  "undo_records g rs es = Inr es' \<Longrightarrow> rows_ok es \<Longrightarrow> (\<And>r e. entry_ok e \<Longrightarrow> entry_ok (g r e)) \<Longrightarrow> rows_ok es'"
  by (induction g rs es rule: undo_records.induct)
    (auto simp: result_simps entries_get_def rows_ok_def list_all_length nth_list_update split: if_splits)

lemma undo_rows_ok: "undo_rows B ch es = Inr es' \<Longrightarrow> rows_ok es \<Longrightarrow> rows_ok es'"
proof -
  assume run: "undo_rows B ch es = Inr es'" and ok: "rows_ok es"
  have "rows_ok es'" if "removeEntry i es = Inr es'" for i
    using that ok by (auto simp: removeEntry_def rows_ok_def list_all_iff split: if_splits dest!: set_take_subset [THEN subsetD] set_drop_subset [THEN subsetD])
  then show ?thesis using run ok undo_records_ok [OF _ ok]
    by (cases "c_kind ch") (auto simp: undo_rows_def split: list.splits)
qed

lemma sorted_amap_del: "sorted_wrt (<) (map fst m) \<Longrightarrow> sorted_wrt (<) (map fst (amap_del k m))"
  by (induction m) (auto simp: amap_del_def)

lemma undo_change_ok:
  assumes "factory_ok f" "undo_change B ch f = Inr f'"
  shows "factory_ok f'"
proof (cases "c_kind ch = Select")
  case False
  then obtain t t' where t: "map_of (m_name2Table f) (c_table ch) = Some t" "undo_table B ch t = Inr t'"
      "f' = f\<lparr>m_name2Table := smap_set (c_table ch) t' (m_name2Table f)\<rparr>"
    using assms(2) by (auto simp: undo_change_def result_simps split: option.splits)
  have ok: "table_ok (c_table ch) t" by (rule factory_ok_table [OF assms(1) t(1)])
  obtain es es' where es: "map_of (m_cache t) (c_key ch) = Some es" "undo_rows B ch es = Inr es'"
      "t' = (if c_kind ch = Insert \<and> m_entries es' = [] then t\<lparr>m_cache := amap_del (c_key ch) (m_cache t)\<rparr>
             else t\<lparr>m_cache := smap_set (c_key ch) es' (m_cache t)\<rparr>)"
    using t(2) by (auto simp: undo_table_def result_simps split: option.splits)
  have "rows_ok es'" using undo_rows_ok [OF es(2)] ok es(1) by (auto simp: table_ok_def dest: list_all_map_of)
  then have "table_ok (c_table ch) t'"
    using ok unfolding es(3) by (simp add: table_ok_set) (simp add: table_ok_def sorted_amap_del, auto simp: amap_del_def list_all_iff)
  then show ?thesis using factory_ok_set [OF assms(1), of "c_table ch" t' "[]"] t(3) by simp
qed (use assms in \<open>simp add: undo_change_def\<close>)

lemma rollback_ok:
  assumes "factory_ok f" "rollback B sp f = Inr f'"
  shows "factory_ok f'"
proof -
  have undo: "factory_ok f \<Longrightarrow> undo_changes B chs f = Inr f1 \<Longrightarrow> factory_ok f1 \<and> m_changeLog f1 = m_changeLog f" for chs f f1
  proof (induction chs arbitrary: f)
    case (Cons ch chs)
    then obtain f2 where f2: "undo_change B ch f = Inr f2" "undo_changes B chs f2 = Inr f1" by (auto simp: result_simps)
    then have "m_changeLog f2 = m_changeLog f" by (auto simp: undo_change_def result_simps split: if_splits option.splits)
    then show ?case using Cons.IH [OF undo_change_ok [OF Cons.prems(1) f2(1)] f2(2)] by simp
  qed simp
  obtain f1 where f1: "undo_changes B (rev (drop sp (m_changeLog f))) f = Inr f1" "f' = f1\<lparr>m_changeLog := take sp (m_changeLog f)\<rparr>"
    using assms(2) by (auto simp: rollback_def result_simps)
  then show ?thesis using undo [OF assms(1) f1(1)]
    by (auto simp: factory_ok_def list_all_iff dest: set_take_subset [THEN subsetD])
qed

subsection \<open>Every run\<close>

text \<open>The calls a client can make; rows are built from a new entry by setting fields.\<close>

datatype factory_op =
    OpOpen string bool
  | OpCreate string string string bool bytes
  | OpSelect string string condition
  | OpInsert string string "(string \<times> string) list" bytes
  | OpUpdate string string "(string \<times> string) list" condition bytes
  | OpRemove string string condition bytes
  | OpPoke string string nat string string
  | OpRollback nat

fun factory_apply :: "boost \<Rightarrow> remote \<Rightarrow> factory_op \<Rightarrow> table_factory \<Rightarrow> table_factory option" where
  "factory_apply B R (OpOpen name fl) f = Some (snd (openTable B R name fl f))"
| "factory_apply B R (OpCreate name kf vf fl origin) f = Some (snd (createTable B R name kf vf fl origin f))"
| "factory_apply B R (OpSelect name key c) f = Some (snd (f_select B R name key c f))"
| "factory_apply B R (OpInsert name key kvs origin) f = Some (snd (f_insert R name key (setFields kvs Entry) origin f))"
| "factory_apply B R (OpUpdate name key kvs c origin) f = Some (snd (f_update B R name key (setFields kvs Entry) c origin f))"
| "factory_apply B R (OpRemove name key c origin) f = Some (snd (f_remove B R name key c origin f))"
| "factory_apply B R (OpPoke name key i k v) f = Some (f_poke name key i k v f)"
| "factory_apply B R (OpRollback sp) f = (case rollback B sp f of Inl _ \<Rightarrow> None | Inr f' \<Rightarrow> Some f')"

fun factory_run :: "boost \<Rightarrow> remote \<Rightarrow> factory_op list \<Rightarrow> table_factory \<Rightarrow> table_factory option" where
  "factory_run B R [] f = Some f"
| "factory_run B R (op # ops) f = (case factory_apply B R op f of None \<Rightarrow> None | Some f' \<Rightarrow> factory_run B R ops f')"

lemma factory_ok_apply:
  assumes "remote_ok R" "factory_ok f" "factory_apply B R op f = Some f'"
  shows "factory_ok f'"
proof (cases op)
  case (OpSelect name key c)
  then show ?thesis using assms factory_ok_select [OF assms(1,2), of B name key c] by (cases "f_select B R name key c f") auto
qed (use assms in \<open>auto simp: factory_ok_open factory_ok_create factory_ok_insert factory_ok_update factory_ok_remove factory_ok_poke
    entry_ok_setFields split: sum.splits intro: rollback_ok\<close>)

lemma entry_of_json_ok: "entry_ok (entry_of_json L obj)"
proof -
  have "entry_ok e \<Longrightarrow> entry_ok (foldl (\<lambda>e (k, v). setField k (json_asString L v) e) e obj)" for e
    by (induction obj arbitrary: e) (auto split: prod.splits)
  then show ?thesis by (simp add: entry_of_json_def)
qed

lemma status_of_json: "\<exists>v. map_of (m_fields (entry_of_json L obj)) STATUS = Some v"
proof -
  have "\<exists>v. map_of (m_fields e) STATUS = Some v \<Longrightarrow>
      \<exists>v. map_of (m_fields (foldl (\<lambda>e (k, v). setField k (json_asString L v) e) e obj)) STATUS = Some v" for e
    by (induction obj arbitrary: e) (auto simp: setField_def split: prod.splits)
  from this [of Entry] show ?thesis by (simp add: entry_of_json_def Entry_def)
qed

text \<open>A row with status 0.\<close>

definition row_ok :: "boost \<Rightarrow> entry \<Rightarrow> bool" where
  "row_ok B e \<longleftrightarrow> entry_ok e \<and> (\<exists>v. map_of (m_fields e) STATUS = Some v \<and> lex_uint32 B v = Some 0)"

lemma leveldb_rows_ok:
  assumes "leveldb_select B L d h n name key = Inr es"
  shows "list_all (row_ok B) (m_entries es)" "es_dirty es = (m_entries es \<noteq> [])"
proof -
  have read: "read_values B L objs acc = Inr es \<Longrightarrow> list_all (row_ok B) (m_entries acc) \<and> es_dirty acc = (m_entries acc \<noteq> []) \<Longrightarrow>
      list_all (row_ok B) (m_entries es) \<and> es_dirty es = (m_entries es \<noteq> [])" for objs acc
  proof (induction objs arbitrary: acc)
    case (Cons obj objs)
    obtain v where v: "map_of (m_fields (entry_of_json L obj)) STATUS = Some v" using status_of_json by blast
    then have "row_ok B ((entry_of_json L obj)\<lparr>e_dirty := False\<rparr>)" if "getStatus B (entry_of_json L obj) = Inr 0"
      using that entry_of_json_ok [of L obj] by (auto simp: row_ok_def getStatus_def entry_ok_def cast_def split: option.splits)
    then show ?case using Cons by (fastforce simp: result_simps addEntry_def split: if_splits)
  qed simp
  have "m_entries es = [] \<and> \<not> es_dirty es \<or> (\<exists>objs. read_values B L objs Entries = Inr es)"
    using assms by (auto simp: leveldb_select_def Entries_def split: prod.splits ldb_status.splits option.splits)
  with read [of _ Entries] show "list_all (row_ok B) (m_entries es)" "es_dirty es = (m_entries es \<noteq> [])"
    by (auto simp: Entries_def)
qed

lemma leveldb_remote_ok: "remote_ok (Some (leveldb_select B L d))"
  using leveldb_rows_ok(1) by (fastforce simp: remote_ok_def rows_ok_def row_ok_def list_all_iff)



section \<open>What a commit makes visible\<close>

text \<open>Table names whose storage keys never coincide.\<close>

definition apart :: "string \<Rightarrow> string \<Rightarrow> bool" where
  "apart t u \<longleftrightarrow> \<not> prefix (t @ ''_'') (u @ ''_'') \<and> \<not> prefix (u @ ''_'') (t @ ''_'')"

lemma apart_keys: "apart t u \<Longrightarrow> entryKey t k \<noteq> entryKey u k'"
proof
  assume "apart t u" and eq: "entryKey t k = entryKey u k'"
  have "prefix (t @ ''_'') (entryKey t k)" for t k by (rule prefixI [of _ _ k]) (simp add: entryKey_def)
  from this [of t k] this [of u k', folded eq] have "prefix (t @ ''_'') (u @ ''_'') \<or> prefix (u @ ''_'') (t @ ''_'')" by (rule prefix_same_cases)
  with \<open>apart t u\<close> show False by (simp add: apart_def)
qed

lemma entryKey_inj: "entryKey t k = entryKey t k' \<longleftrightarrow> k = k'"
  by (simp add: entryKey_def)

lemma map_of_rev_unique: "(k, v) \<in> set xs \<Longrightarrow> (\<And>v'. (k, v') \<in> set xs \<Longrightarrow> v' = v) \<Longrightarrow> map_of (rev xs) k = Some v"
  by (metis map_of_SomeD not_None_eq set_rev weak_map_of_SomeI)

lemma committed_member:
  "(k, es) \<in> set (committed (dirty_tables f)) \<longleftrightarrow>
     (\<exists>name t key. (name, t) \<in> set (m_name2Table f) \<and> list_ex (\<lambda>(_, es). es_dirty es) (m_cache t) \<and> (key, es) \<in> set (m_cache t)
        \<and> m_entries es \<noteq> [] \<and> k = entryKey name key)"
  by (force simp: committed_def dirty_tables_def)

lemma committed_at:
  assumes "factory_ok f" "map_of (m_name2Table f) name = Some t" "\<And>u. u \<in> fst ` set (m_name2Table f) \<Longrightarrow> u \<noteq> name \<Longrightarrow> apart name u"
  shows "map_of (rev (committed (dirty_tables f))) (entryKey name key) =
    (case map_of (m_cache t) key of
       Some es \<Rightarrow> if m_entries es \<noteq> [] \<and> list_ex (\<lambda>(_, es). es_dirty es) (m_cache t) then Some es else None
     | None \<Rightarrow> None)"
proof -
  have names: "distinct (map fst (m_name2Table f))" using assms(1) by (simp add: factory_ok_def strict_sorted_iff)
  have keys: "distinct (map fst (m_cache t))" using factory_ok_table [OF assms(1,2)] by (simp add: table_ok_def strict_sorted_iff)
  have only: "(entryKey name key, es) \<in> set (committed (dirty_tables f)) \<longleftrightarrow>
      map_of (m_cache t) key = Some es \<and> m_entries es \<noteq> [] \<and> list_ex (\<lambda>(_, es). es_dirty es) (m_cache t)" for es
  proof
    assume "(entryKey name key, es) \<in> set (committed (dirty_tables f))"
    then obtain u t' key' where u: "(u, t') \<in> set (m_name2Table f)" "list_ex (\<lambda>(_, es). es_dirty es) (m_cache t')" "(key', es) \<in> set (m_cache t')"
        "m_entries es \<noteq> []" "entryKey name key = entryKey u key'" by (auto simp: committed_member)
    have "u = name" using assms(3) [of u] apart_keys u(1,5) by (force intro: rev_image_eqI)
    then have "t' = t" "key' = key" using u(1,5) assms(2) names by (auto simp: entryKey_inj)
    then show "map_of (m_cache t) key = Some es \<and> m_entries es \<noteq> [] \<and> list_ex (\<lambda>(_, es). es_dirty es) (m_cache t)"
      using u keys by auto
  next
    assume "map_of (m_cache t) key = Some es \<and> m_entries es \<noteq> [] \<and> list_ex (\<lambda>(_, es). es_dirty es) (m_cache t)"
    then show "(entryKey name key, es) \<in> set (committed (dirty_tables f))"
      using map_of_SomeD [OF assms(2)] map_of_SomeD [of "m_cache t" key es] by (auto simp: committed_member)
  qed
  show ?thesis
  proof (cases "\<exists>es. (entryKey name key, es) \<in> set (committed (dirty_tables f))")
    case True
    then obtain es where es: "(entryKey name key, es) \<in> set (committed (dirty_tables f))" by blast
    then have "map_of (rev (committed (dirty_tables f))) (entryKey name key) = Some es"
      by (rule map_of_rev_unique) (use es in \<open>auto simp: only\<close>)
    then show ?thesis using es by (simp add: only)
  next
    case False
    then have "map_of (rev (committed (dirty_tables f))) (entryKey name key) = None"
      by (metis map_of_SomeD not_None_eq set_rev)
    then show ?thesis using False by (auto simp: only split: option.splits)
  qed
qed

lemma stored_row:
  assumes "row_ok B e"
  shows "getStatus B (stored_entry L h n e) = Inr 0"
  using assms by (auto simp: row_ok_def getStatus_stored_entry)

text \<open>After a commit the written rows are read back.\<close>

lemma commitDB_visible:
  assumes "leveldb_ok L" "factory_ok f" "commitDB B (LevelDBStorage B L) h n f d = (Inr (), f', d')"
    and "map_of (m_name2Table f) name = Some t" "\<And>u. u \<in> fst ` set (m_name2Table f) \<Longrightarrow> u \<noteq> name \<Longrightarrow> apart name u"
    and "map_of (m_cache t) key = Some es" "m_entries es \<noteq> []" "es_dirty es" "list_all (row_ok B) (m_entries es)"
  shows "leveldb_select B L d' h' n' name key = Inr \<lparr>m_entries = map (stored_entry L h n) (m_entries es), es_dirty = True\<rparr>"
proof -
  have "list_ex (\<lambda>(_, es). es_dirty es) (m_cache t)" using map_of_SomeD [OF assms(6)] assms(8) by (auto simp: list_ex_iff)
  then have at: "map_of (rev (committed (dirty_tables f))) (entryKey name key) = Some es"
    using committed_at [OF assms(2,4,5)] assms(6,7) by simp
  then have "dirty_tables f \<noteq> []" by (auto simp: committed_def)
  then obtain cnt where commit: "leveldb_commit L h n (dirty_tables f) h d = (Inr cnt, d')"
    using assms(3) by (auto simp: commitDB_def LevelDBStorage_def Let_def split: prod.splits sum.splits)
  have "leveldb_select B L d' h' n' name key = Inr (stored_entries B L h n (m_entries es))"
    by (subst leveldb_select_after [OF assms(1) commit]) (use at assms(9) in \<open>auto simp: list_all_iff stored_row\<close>)
  moreover have "filter (\<lambda>e. getStatus B e = Inr 0) (map (stored_entry L h n) (m_entries es)) = map (stored_entry L h n) (m_entries es)"
    using assms(9) by (auto simp: filter_id_conv list_all_iff stored_row)
  ultimately show ?thesis using assms(7) by (simp add: stored_entries_def)
qed

text \<open>A key that the batch does not hold reads as before.\<close>

lemma commitDB_untouched:
  assumes "leveldb_ok L" "commitDB B (LevelDBStorage B L) h n f d = (Inr (), f', d')"
    and "map_of (rev (committed (dirty_tables f))) (entryKey name key) = None"
  shows "leveldb_select B L d' h' n' name key = leveldb_select B L d h' n' name key"
proof (cases "dirty_tables f = []")
  case True
  then show ?thesis using assms(2) by (auto simp: commitDB_def Let_def split: if_splits)
next
  case False
  then obtain cnt where commit: "leveldb_commit L h n (dirty_tables f) h d = (Inr cnt, d')"
    using assms(2) by (auto simp: commitDB_def LevelDBStorage_def Let_def split: prod.splits sum.splits)
  show ?thesis by (subst leveldb_select_after [OF assms(1) commit]) (use assms(3) in auto)
qed

end
