(* ===== verification/BlockChain.thy ===== *)
theory BlockChain
  imports Block TableClient
begin

text \<open>
  The block chain, \<open>libblockchain/BlockChainImp.h\<close> and \<open>.cpp\<close>: blocks, their numbers and hashes, transactions and the
  current state are rows of system tables. Reads open a new factory over the state storage; \<open>commitBlock\<close> writes
  through the factory of the execution context and commits it together with what the execution changed.
\<close>

section \<open>State\<close>

datatype commit_result = CommitOK | ERROR_NUMBER | ERROR_PARENT_HASH | ERROR_COMMITTING

record blockchain =
  m_blockCache :: "(bytes \<times> block \<times> bytes) list"
  m_blockCacheFIFO :: "bytes list"
  bc_minerList :: "bytes list"
  bc_observerList :: "bytes list"
  m_cacheNumByMiner :: int
  m_cacheNumByObserver :: int
  m_systemConfigRecord :: "(string \<times> string \<times> int) list"
  commitMutex :: bool

definition BlockChainImp :: blockchain where
  "BlockChainImp = \<lparr>m_blockCache = [], m_blockCacheFIFO = [], bc_minerList = [], bc_observerList = [],
     m_cacheNumByMiner = -1, m_cacheNumByObserver = -1, m_systemConfigRecord = [], commitMutex = False\<rparr>"

type_synonym 'a cop = "(blockchain, client_error, 'a) action"

definition NODE_TYPE :: string where "NODE_TYPE = ''type''"
definition NODE_TYPE_MINER :: string where "NODE_TYPE_MINER = ''miner''"
definition NODE_TYPE_OBSERVER :: string where "NODE_TYPE_OBSERVER = ''observer''"
definition NODE_KEY_NODEID :: string where "NODE_KEY_NODEID = ''node_id''"
definition NODE_KEY_ENABLENUM :: string where "NODE_KEY_ENABLENUM = ''enable_num''"
definition PRI_COLUMN :: string where "PRI_COLUMN = ''name''"
definition PRI_KEY :: string where "PRI_KEY = ''node''"
definition SYSTEM_CONFIG_KEY :: string where "SYSTEM_CONFIG_KEY = ''key''"
definition SYSTEM_CONFIG_VALUE :: string where "SYSTEM_CONFIG_VALUE = ''value''"
definition SYSTEM_CONFIG_ENABLENUM :: string where "SYSTEM_CONFIG_ENABLENUM = ''enable_num''"
definition SYSTEM_KEY_TX_COUNT_LIMIT :: string where "SYSTEM_KEY_TX_COUNT_LIMIT = ''tx_count_limit''"
definition SYSTEM_KEY_TX_GAS_LIMIT :: string where "SYSTEM_KEY_TX_GAS_LIMIT = ''tx_gas_limit''"

definition wrap_int64 :: "int \<Rightarrow> int" where
  "wrap_int64 n = (n + 2 ^ 63) mod 2 ^ 64 - 2 ^ 63"

section \<open>The cache of blocks\<close>

definition c_blockCacheSize :: nat where "c_blockCacheSize = 10"

definition cache_evict :: "blockchain \<Rightarrow> client_error + blockchain" where
  "cache_evict c =
     (if c_blockCacheSize < length (m_blockCache c)
      then (case m_blockCacheFIFO c of
              [] \<Rightarrow> Inl EmptyDeque
            | h # hs \<Rightarrow>
                let m = amap_del h (m_blockCache c)
                in Inr (if c_blockCacheSize < length m then c\<lparr>m_blockCache := [], m_blockCacheFIFO := []\<rparr>
                        else c\<lparr>m_blockCache := m, m_blockCacheFIFO := hs\<rparr>))
      else Inr c)"

definition cache_add :: "crypto \<Rightarrow> block \<Rightarrow> block cop" where
  "cache_add C b =
     bindM (liftM (liftT (liftR (header_hash C (m_blockHeader b))))) (\<lambda>(h, hdr).
     bindM (\<lambda>c. case cache_evict c of Inl e \<Rightarrow> (Inl e, c) | Inr c1 \<Rightarrow> (Inr (), c1)) (\<lambda>_.
     bindM (liftM (liftT (liftR (block_copy C (b\<lparr>m_blockHeader := hdr\<rparr>))))) (\<lambda>(copy, _).
     bindM (modifyM (\<lambda>c. c\<lparr>m_blockCache := smap_insert h (copy, h) (m_blockCache c), m_blockCacheFIFO := m_blockCacheFIFO c @ [h]\<rparr>)) (\<lambda>_.
     returnM copy))))"

definition cache_get :: "bytes \<Rightarrow> blockchain \<Rightarrow> block option" where
  "cache_get h c = map_option fst (map_of (m_blockCache c) h)"

section \<open>Reading\<close>

text \<open>\<open>getMemoryTableFactory()->openTable(...)\<close> and a select on it; a null table reads as no rows.\<close>

definition remote_of :: "'d storage \<Rightarrow> 'd \<Rightarrow> remote" where
  "remote_of S d = Some (st_select S d)"

definition read_table :: "boost \<Rightarrow> 'd storage \<Rightarrow> 'd \<Rightarrow> string \<Rightarrow> bool \<Rightarrow> string \<Rightarrow> client_error + entry list" where
  "read_table B S d name authorityFlag key =
     fst (bindM (t_open B (remote_of S d) name authorityFlag)
       (\<lambda>tb. if tb then t_select B (remote_of S d) name key else returnM []) MemoryTableFactory)"

definition number :: "boost \<Rightarrow> 'd storage \<Rightarrow> 'd \<Rightarrow> client_error + int" where
  "number B S d =
     bindE (read_table B S d SYS_CURRENT_STATE False SYS_KEY_CURRENT_NUMBER) (\<lambda>es.
       case es of [] \<Rightarrow> Inr 0 | e # _ \<Rightarrow> liftS (cast (lex_int64 B (getField SYS_VALUE e))))"

definition totalTransactionCount :: "boost \<Rightarrow> 'd storage \<Rightarrow> 'd \<Rightarrow> client_error + int \<times> int" where
  "totalTransactionCount B S d =
     bindE (read_table B S d SYS_CURRENT_STATE False SYS_KEY_TOTAL_TRANSACTION_COUNT) (\<lambda>es.
       case es of [] \<Rightarrow> Inr (0, 0)
       | e # _ \<Rightarrow> bindE (liftS (cast (lex_int64 B (getField SYS_VALUE e)))) (\<lambda>count.
                   bindE (liftS (cast (lex_int64 B (getField ''_num_'' e)))) (\<lambda>num. Inr (count, num))))"

definition numberHash :: "boost \<Rightarrow> 'd storage \<Rightarrow> 'd \<Rightarrow> int \<Rightarrow> client_error + bytes" where
  "numberHash B S d i =
     bindE (read_table B S d SYS_NUMBER_2_HASH False (lex_show B i)) (\<lambda>es.
       liftS (hash_of_string 32 (case es of [] \<Rightarrow> [] | e # _ \<Rightarrow> getField SYS_VALUE e)))"

text \<open>\<open>fromHex\<close> with its default handling of errors, and the constructor of a block from bytes.\<close>

definition block_of_hex :: "crypto \<Rightarrow> string \<Rightarrow> client_error + block" where
  "block_of_hex C s =
     (case fromHex s False of Inl e \<Rightarrow> Inl (HexError e) | Inr bs \<Rightarrow> liftT (block_decode C bs block_new))"

definition getBlock :: "boost \<Rightarrow> crypto \<Rightarrow> 'd storage \<Rightarrow> 'd \<Rightarrow> bytes \<Rightarrow> block option cop" where
  "getBlock B C S d h =
     bindM (getM (cache_get h)) (\<lambda>cached.
       case cached of
         Some b \<Rightarrow> returnM (Some b)
       | None \<Rightarrow>
           bindM (liftM (read_table B S d SYS_HASH_2_BLOCK True (toHex h))) (\<lambda>es.
             case es of
               [] \<Rightarrow> returnM None
             | e # _ \<Rightarrow> bindM (liftM (block_of_hex C (getField SYS_VALUE e))) (\<lambda>b.
                         bindM (cache_add C b) (\<lambda>p. returnM (Some p)))))"

definition getBlock_i :: "boost \<Rightarrow> crypto \<Rightarrow> 'd storage \<Rightarrow> 'd \<Rightarrow> int \<Rightarrow> block option cop" where
  "getBlock_i B C S d i =
     bindM (liftM (read_table B S d SYS_NUMBER_2_HASH True (lex_show B i))) (\<lambda>es.
       case es of
         [] \<Rightarrow> returnM None
       | e # _ \<Rightarrow> bindM (liftM (liftS (hash_of_string 32 (getField SYS_VALUE e)))) (\<lambda>h. getBlock B C S d h))"

definition getBlockByHash :: "boost \<Rightarrow> crypto \<Rightarrow> 'd storage \<Rightarrow> 'd \<Rightarrow> bytes \<Rightarrow> block option cop" where
  "getBlockByHash B C S d h = getBlock B C S d h"

definition getBlockByNumber :: "boost \<Rightarrow> crypto \<Rightarrow> 'd storage \<Rightarrow> 'd \<Rightarrow> int \<Rightarrow> block option cop" where
  "getBlockByNumber B C S d i = getBlock_i B C S d i"

text \<open>\<open>m_stateFactory->getState(root, factory)->code(address)\<close> is the parameter \<open>state_code\<close>.\<close>

definition getCode :: "boost \<Rightarrow> crypto \<Rightarrow> 'd storage \<Rightarrow> (bytes \<Rightarrow> table_factory \<Rightarrow> bytes \<Rightarrow> client_error + bytes) \<Rightarrow> 'd \<Rightarrow> bytes \<Rightarrow> bytes cop" where
  "getCode B C S state_code d address =
     bindM (liftM (number B S d)) (\<lambda>num.
     bindM (getBlockByNumber B C S d num) (\<lambda>b.
       case b of
         None \<Rightarrow> returnM []
       | Some b \<Rightarrow> liftM (state_code (m_stateRoot (m_blockHeader b)) MemoryTableFactory address)))"

section \<open>Looking up transactions\<close>

text \<open>The block and the index that the table holds for a transaction; a missing block is a null pointer.\<close>

definition tx_location :: "boost \<Rightarrow> crypto \<Rightarrow> 'd storage \<Rightarrow> 'd \<Rightarrow> client_error \<Rightarrow> bytes \<Rightarrow> (block \<times> nat) option cop" where
  "tx_location B C S d missing txHash =
     bindM (liftM (read_table B S d SYS_TX_HASH_2_BLOCK False (toHex txHash))) (\<lambda>es.
       case es of
         [] \<Rightarrow> returnM None
       | e # _ \<Rightarrow>
           bindM (liftM (liftS (cast (lex_int64 B (getField SYS_VALUE e))))) (\<lambda>num.
           bindM (getBlockByNumber B C S d num) (\<lambda>b.
             case b of
               None \<Rightarrow> throwM missing
             | Some b \<Rightarrow> bindM (liftM (liftS (cast (lex_uint32 B (getField ''index'' e))))) (\<lambda>i. returnM (Some (b, i))))))"

definition getTxByHash :: "boost \<Rightarrow> crypto \<Rightarrow> 'd storage \<Rightarrow> 'd \<Rightarrow> bytes \<Rightarrow> transaction cop" where
  "getTxByHash B C S d txHash =
     bindM (tx_location B C S d AssertAbort txHash) (\<lambda>l.
       returnM (case l of
         Some (b, i) \<Rightarrow> if i < length (m_transactions b) then m_transactions b ! i else transaction_null
       | None \<Rightarrow> transaction_null))"

record localised_transaction =
  lt_transaction :: transaction
  lt_blockHash :: bytes
  lt_transactionIndex :: nat
  lt_blockNumber :: int

definition getLocalisedTxByHash :: "boost \<Rightarrow> crypto \<Rightarrow> 'd storage \<Rightarrow> 'd \<Rightarrow> bytes \<Rightarrow> localised_transaction cop" where
  "getLocalisedTxByHash B C S d txHash =
     bindM (tx_location B C S d NullDereference txHash) (\<lambda>l.
       case l of
         Some (b, i) \<Rightarrow>
           if i < length (m_transactions b)
           then bindM (liftM (liftT (liftR (header_hash C (m_blockHeader b))))) (\<lambda>(h, _).
             returnM \<lparr>lt_transaction = m_transactions b ! i, lt_blockHash = h, lt_transactionIndex = i, lt_blockNumber = m_number (m_blockHeader b)\<rparr>)
           else returnM \<lparr>lt_transaction = transaction_null, lt_blockHash = hash_zero 32, lt_transactionIndex = 2 ^ 32 - 1, lt_blockNumber = -1\<rparr>
       | None \<Rightarrow> returnM \<lparr>lt_transaction = transaction_null, lt_blockHash = hash_zero 32, lt_transactionIndex = 2 ^ 32 - 1, lt_blockNumber = -1\<rparr>)"

definition getTransactionReceiptByHash :: "boost \<Rightarrow> crypto \<Rightarrow> 'd storage \<Rightarrow> 'd \<Rightarrow> bytes \<Rightarrow> receipt cop" where
  "getTransactionReceiptByHash B C S d txHash =
     bindM (tx_location B C S d NullDereference txHash) (\<lambda>l.
       returnM (case l of
         Some (b, i) \<Rightarrow> if i < length (m_transactionReceipts b) then m_transactionReceipts b ! i else receipt_new
       | None \<Rightarrow> receipt_new))"

record localised_receipt =
  lr_receipt :: receipt
  lr_hash :: bytes
  lr_blockHash :: bytes
  lr_blockNumber :: int
  lr_from :: bytes
  lr_to :: bytes
  lr_transactionIndex :: nat
  lr_gasUsed :: nat
  lr_contractAddress :: bytes
  lr_logs :: "(log_entry \<times> bytes \<times> int \<times> bytes \<times> nat \<times> nat) list"

definition LocalisedTransactionReceipt ::
  "receipt \<Rightarrow> bytes \<Rightarrow> bytes \<Rightarrow> int \<Rightarrow> bytes \<Rightarrow> bytes \<Rightarrow> nat \<Rightarrow> nat \<Rightarrow> bytes \<Rightarrow> localised_receipt" where
  "LocalisedTransactionReceipt r h bh n from to i gas addr =
     \<lparr>lr_receipt = r, lr_hash = h, lr_blockHash = bh, lr_blockNumber = n, lr_from = from, lr_to = to, lr_transactionIndex = i,
      lr_gasUsed = gas, lr_contractAddress = addr, lr_logs = map (\<lambda>(j, l). (l, bh, n, h, i, j)) (enumerate 0 (rc_log r))\<rparr>"

definition no_receipt :: localised_receipt where
  "no_receipt = LocalisedTransactionReceipt receipt_new (hash_zero 32) (hash_zero 32) (-1) (hash_zero 20) (hash_zero 20) (2 ^ 32 - 1) 0 (hash_zero 20)"

definition getLocalisedTxReceiptByHash :: "boost \<Rightarrow> crypto \<Rightarrow> 'd storage \<Rightarrow> 'd \<Rightarrow> bytes \<Rightarrow> localised_receipt cop" where
  "getLocalisedTxReceiptByHash B C S d txHash =
     bindM (liftM (read_table B S d SYS_TX_HASH_2_BLOCK False (toHex txHash))) (\<lambda>es.
       case es of
         [] \<Rightarrow> returnM no_receipt
       | e # _ \<Rightarrow>
           bindM (liftM (liftS (cast (lex_int64 B (getField SYS_VALUE e))))) (\<lambda>num.
           bindM (liftM (liftS (cast (lex_uint32 B (getField ''index'' e))))) (\<lambda>i.
           bindM (getBlockByNumber B C S d num) (\<lambda>b.
             case b of
               None \<Rightarrow> throwM NullDereference
             | Some b \<Rightarrow>
                 if i < length (m_transactionReceipts b) \<and> i < length (m_transactions b)
                 then (let tx = m_transactions b ! i; r = m_transactionReceipts b ! i in
                       bindM (liftM (liftT (liftR (header_hash C (m_blockHeader b))))) (\<lambda>(h, _).
                       bindM (liftM (liftT (tx_sender C tx))) (\<lambda>(from, _).
                       returnM (LocalisedTransactionReceipt r txHash h (m_number (m_blockHeader b)) from (m_receiveAddress tx) i
                         (rc_gasUsed r) (rc_contractAddress r)))))
                 else returnM no_receipt))))"

section \<open>Members and configuration\<close>

fun node_loop :: "boost \<Rightarrow> int \<Rightarrow> string \<Rightarrow> entry list \<Rightarrow> bytes list \<Rightarrow> bytes list" where
  "node_loop B num ty [] acc = acc"
| "node_loop B num ty (e # es) acc =
     (if getField NODE_TYPE e = ty
      then (case lex_int B (getField NODE_KEY_ENABLENUM e) of
              None \<Rightarrow> acc
            | Some n \<Rightarrow>
                if n \<le> num
                then (case hash_of_string 64 (getField NODE_KEY_NODEID e) of Inl _ \<Rightarrow> acc | Inr h \<Rightarrow> node_loop B num ty es (acc @ [h]))
                else node_loop B num ty es acc)
      else node_loop B num ty es acc)"

text \<open>An exception ends the loop; the list collected so far is returned.\<close>

definition getNodeListByType :: "boost \<Rightarrow> 'd storage \<Rightarrow> 'd \<Rightarrow> int \<Rightarrow> string \<Rightarrow> bytes list" where
  "getNodeListByType B S d num ty =
     (case read_table B S d SYS_MINERS True PRI_KEY of Inl _ \<Rightarrow> [] | Inr es \<Rightarrow> node_loop B num ty es [])"

definition minerList :: "boost \<Rightarrow> 'd storage \<Rightarrow> 'd \<Rightarrow> bytes list cop" where
  "minerList B S d =
     bindM (liftM (number B S d)) (\<lambda>num. \<lambda>c.
       if m_cacheNumByMiner c = num then (Inr (bc_minerList c), c)
       else let l = getNodeListByType B S d num NODE_TYPE_MINER in (Inr l, c\<lparr>m_cacheNumByMiner := num, bc_minerList := l\<rparr>))"

definition observerList :: "boost \<Rightarrow> 'd storage \<Rightarrow> 'd \<Rightarrow> bytes list cop" where
  "observerList B S d =
     bindM (liftM (number B S d)) (\<lambda>num. \<lambda>c.
       if m_cacheNumByObserver c = num then (Inr (bc_observerList c), c)
       else let l = getNodeListByType B S d num NODE_TYPE_OBSERVER in (Inr l, c\<lparr>m_cacheNumByObserver := num, bc_observerList := l\<rparr>))"

text \<open>The value in the table at a block number; \<open>None\<close> where the code returns before the cache is updated.\<close>

definition config_value :: "boost \<Rightarrow> 'd storage \<Rightarrow> 'd \<Rightarrow> string \<Rightarrow> int \<Rightarrow> string option" where
  "config_value B S d key num =
     (case read_table B S d SYS_CONFIG True key of
        Inl _ \<Rightarrow> Some []
      | Inr [e] \<Rightarrow>
          (case lex_int B (getField SYSTEM_CONFIG_ENABLENUM e) of
             None \<Rightarrow> Some []
           | Some n \<Rightarrow> Some (if n \<le> num then getField SYSTEM_CONFIG_VALUE e else []))
      | Inr _ \<Rightarrow> None)"

definition getSystemConfigByKey :: "boost \<Rightarrow> 'd storage \<Rightarrow> 'd \<Rightarrow> string \<Rightarrow> int \<Rightarrow> string cop" where
  "getSystemConfigByKey B S d key num =
     bindM (if num = -1 then liftM (bindE (number B S d) (\<lambda>n. Inr (wrap_int64 (n + 1)))) else returnM num) (\<lambda>blockNumber. \<lambda>c.
       case map_of (m_systemConfigRecord c) key of
         Some (v, n) \<Rightarrow>
           if n = blockNumber then (Inr v, c)
           else (case config_value B S d key blockNumber of
                   None \<Rightarrow> (Inr [], c)
                 | Some ret \<Rightarrow> (Inr ret, c\<lparr>m_systemConfigRecord := smap_set key (ret, blockNumber) (m_systemConfigRecord c)\<rparr>))
       | None \<Rightarrow>
           (case config_value B S d key blockNumber of
              None \<Rightarrow> (Inr [], c)
            | Some ret \<Rightarrow> (Inr ret, c\<lparr>m_systemConfigRecord := smap_set key (ret, blockNumber) (m_systemConfigRecord c)\<rparr>)))"

section \<open>Writing a block\<close>

definition open_sys :: "boost \<Rightarrow> remote \<Rightarrow> string \<Rightarrow> 'a fop \<Rightarrow> 'a fop" where
  "open_sys B R name k = bindM (t_open B R name False) (\<lambda>tb. if tb then k else throwM (OpenSysTableFailed name))"

definition value_row :: "string \<Rightarrow> entry" where
  "value_row v = setField SYS_VALUE v Entry"

definition writeNumber :: "boost \<Rightarrow> remote \<Rightarrow> block \<Rightarrow> unit fop" where
  "writeNumber B R b =
     open_sys B R SYS_CURRENT_STATE (
       bindM (t_select B R SYS_CURRENT_STATE SYS_KEY_CURRENT_NUMBER) (\<lambda>es.
         let e = value_row (lex_show B (m_number (m_blockHeader b))) in
         if es \<noteq> []
         then bindM (t_update B R SYS_CURRENT_STATE SYS_KEY_CURRENT_NUMBER e) (\<lambda>_. returnM ())
         else bindM (t_insert R SYS_CURRENT_STATE SYS_KEY_CURRENT_NUMBER e) (\<lambda>_. returnM ())))"

text \<open>The row is changed through the pointer that \<open>select\<close> returned before it is passed to \<open>update\<close>.\<close>

definition writeTotalTransactionCount :: "boost \<Rightarrow> remote \<Rightarrow> block \<Rightarrow> unit fop" where
  "writeTotalTransactionCount B R b =
     open_sys B R SYS_CURRENT_STATE (
       bindM (t_select B R SYS_CURRENT_STATE SYS_KEY_TOTAL_TRANSACTION_COUNT) (\<lambda>es.
         case es of
           e # _ \<Rightarrow>
             bindM (liftM (liftS (cast (lex_int64 B (getField SYS_VALUE e))))) (\<lambda>count.
               let v = lex_show B (wrap_int64 (count + int (length (m_transactions b)))) in
               bindM (modifyM (f_poke SYS_CURRENT_STATE SYS_KEY_TOTAL_TRANSACTION_COUNT 0 SYS_VALUE v)) (\<lambda>_.
               bindM (t_update B R SYS_CURRENT_STATE SYS_KEY_TOTAL_TRANSACTION_COUNT (setField SYS_VALUE v e)) (\<lambda>_. returnM ())))
         | [] \<Rightarrow>
             bindM (t_insert R SYS_CURRENT_STATE SYS_KEY_TOTAL_TRANSACTION_COUNT
               (value_row (lex_show B (int (length (m_transactions b)))))) (\<lambda>_. returnM ())))"

definition tx_row :: "boost \<Rightarrow> int \<Rightarrow> nat \<Rightarrow> entry" where
  "tx_row B num i = setField ''index'' (lex_show B (int i)) (value_row (lex_show B num))"

definition writeTxToBlock :: "boost \<Rightarrow> crypto \<Rightarrow> remote \<Rightarrow> block \<Rightarrow> unit fop" where
  "writeTxToBlock B C R b =
     open_sys B R SYS_TX_HASH_2_BLOCK (
       forM (enumerate 0 (m_transactions b)) (\<lambda>(i, tx).
         bindM (liftM (liftT (tx_sha3 C tx True))) (\<lambda>(h, _).
         bindM (t_insert R SYS_TX_HASH_2_BLOCK (toHex h) (tx_row B (m_number (m_blockHeader b)) i)) (\<lambda>_. returnM ()))))"

text \<open>The block is passed by reference: its header memoises the hash and its encoding fills the caches.\<close>

definition writeNumber2Hash :: "boost \<Rightarrow> crypto \<Rightarrow> remote \<Rightarrow> block \<Rightarrow> block fop" where
  "writeNumber2Hash B C R b =
     open_sys B R SYS_NUMBER_2_HASH (
       bindM (liftM (liftT (liftR (header_hash C (m_blockHeader b))))) (\<lambda>(h, hdr).
       bindM (t_insert R SYS_NUMBER_2_HASH (lex_show B (m_number (m_blockHeader b))) (value_row (toHex h))) (\<lambda>_.
       returnM (b\<lparr>m_blockHeader := hdr\<rparr>))))"

definition writeHash2Block :: "boost \<Rightarrow> crypto \<Rightarrow> remote \<Rightarrow> block \<Rightarrow> block fop" where
  "writeHash2Block B C R b =
     open_sys B R SYS_HASH_2_BLOCK (
       bindM (liftM (liftT (block_encode C b))) (\<lambda>(out, b1).
       bindM (liftM (liftT (liftR (header_hash C (m_blockHeader b1))))) (\<lambda>(h, hdr).
       bindM (t_insert R SYS_HASH_2_BLOCK (toHex h) (value_row (toHexPrefixed out))) (\<lambda>_.
       returnM (b1\<lparr>m_blockHeader := hdr\<rparr>)))))"

definition writeBlockInfo :: "boost \<Rightarrow> crypto \<Rightarrow> remote \<Rightarrow> block \<Rightarrow> block fop" where
  "writeBlockInfo B C R b = bindM (writeNumber2Hash B C R b) (writeHash2Block B C R)"

text \<open>All writes of \<open>commitBlock\<close>, in its order.\<close>

definition writeAll :: "boost \<Rightarrow> crypto \<Rightarrow> remote \<Rightarrow> block \<Rightarrow> block fop" where
  "writeAll B C R b =
     seqM (writeNumber B R b) (seqM (writeTotalTransactionCount B R b) (seqM (writeTxToBlock B C R b) (writeBlockInfo B C R b)))"

section \<open>Committing a block\<close>

text \<open>
  The execution context: the factory and the state object, whose \<open>dbCommit\<close> is virtual. The data base is a component of the
  chain's world here because a commit changes it.
\<close>

record ('s, 'd) chain_world =
  w_chain :: blockchain
  w_factory :: table_factory
  w_state :: 's
  w_data :: 'd

type_synonym 's state_commit = "bytes \<Rightarrow> int \<Rightarrow> 's \<Rightarrow> (client_error + unit) \<times> 's"

definition context_dbCommit :: "boost \<Rightarrow> crypto \<Rightarrow> 'd storage \<Rightarrow> 's state_commit \<Rightarrow> block \<Rightarrow> (('s, 'd) chain_world, client_error, unit) action" where
  "context_dbCommit B C S sc b w =
     (case header_hash C (m_blockHeader b) of
        Inl e \<Rightarrow> (Inl (EthError (RLPError e)), w)
      | Inr (h, _) \<Rightarrow>
          (case sc h (m_number (m_blockHeader b)) (w_state w) of
             (Inl e, s1) \<Rightarrow> (Inl e, w\<lparr>w_state := s1\<rparr>)
           | (Inr _, s1) \<Rightarrow>
               (case commitDB B S h (m_number (m_blockHeader b)) (w_factory w) (w_data w) of
                  (r, f1, d1) \<Rightarrow> (liftS r, w\<lparr>w_state := s1, w_factory := f1, w_data := d1\<rparr>))))"

text \<open>
  Only \<open>OpenSysTableFailed\<close> is caught, and only then is the lock given back. The signal of a new block is the last
  component of the result.
\<close>

definition commitBlock ::
  "boost \<Rightarrow> crypto \<Rightarrow> 'd storage \<Rightarrow> 's state_commit \<Rightarrow> block \<Rightarrow> ('s, 'd) chain_world
     \<Rightarrow> (client_error + commit_result) \<times> ('s, 'd) chain_world \<times> bool" where
  "commitBlock B C S sc b w =
     (case number B S (w_data w) of
        Inl e \<Rightarrow> (Inl e, w, False)
      | Inr num \<Rightarrow>
          if m_number (m_blockHeader b) \<noteq> wrap_int64 (num + 1) then (Inr ERROR_NUMBER, w, False)
          else case numberHash B S (w_data w) num of
            Inl e \<Rightarrow> (Inl e, w, False)
          | Inr parentHash \<Rightarrow>
              if m_parentHash (m_blockHeader b) \<noteq> parentHash then (Inr ERROR_PARENT_HASH, w, False)
              else if commitMutex (w_chain w) then (Inr ERROR_COMMITTING, w, False)
              else let w1 = w\<lparr>w_chain := (w_chain w)\<lparr>commitMutex := True\<rparr>\<rparr>;
                       release = (\<lambda>w. w\<lparr>w_chain := (w_chain w)\<lparr>commitMutex := False\<rparr>\<rparr>);
                       (r, w2) = (case writeAll B C (remote_of S (w_data w)) b (w_factory w1) of
                          (Inl e, f1) \<Rightarrow> (Inl e, w1\<lparr>w_factory := f1\<rparr>)
                        | (Inr b1, f1) \<Rightarrow> context_dbCommit B C S sc b1 (w1\<lparr>w_factory := f1\<rparr>))
                   in case r of
                        Inr _ \<Rightarrow> (Inr CommitOK, release w2, True)
                      | Inl (OpenSysTableFailed name) \<Rightarrow> (Inl (OpenSysTableFailed name), release w2, False)
                      | Inl e \<Rightarrow> (Inl e, w2, False))"

section \<open>The genesis block\<close>

record genesis_param =
  groupMark :: string
  gp_minerList :: "bytes list"
  gp_observerList :: "bytes list"
  consensusType :: string
  storageType :: string
  stateType :: string
  txCountLimit :: nat
  txGasLimit :: nat

definition genesis_block :: "string \<Rightarrow> block" where
  "genesis_block mark =
     (let b = setEmptyBlock block_new in b\<lparr>m_blockHeader := appendExtraDataArray (asBytes mark) (m_blockHeader b)\<rparr>)"

definition config_row :: "string \<Rightarrow> string \<Rightarrow> entry" where
  "config_row key v = setField SYSTEM_CONFIG_ENABLENUM ''0'' (setField SYSTEM_CONFIG_VALUE v (setField SYSTEM_CONFIG_KEY key Entry))"

definition node_row :: "string \<Rightarrow> bytes \<Rightarrow> entry" where
  "node_row ty node =
     setField NODE_KEY_ENABLENUM ''0'' (setField NODE_KEY_NODEID (toHex node) (setField NODE_TYPE ty (setField PRI_COLUMN PRI_KEY Entry)))"

text \<open>\<open>if (tb)\<close>: nothing happens for a null table.\<close>

definition with_table :: "boost \<Rightarrow> remote \<Rightarrow> string \<Rightarrow> bool \<Rightarrow> unit fop \<Rightarrow> unit fop" where
  "with_table B R name authorityFlag k = bindM (t_open B R name authorityFlag) (\<lambda>tb. if tb then k else returnM ())"

definition insert_row :: "remote \<Rightarrow> string \<Rightarrow> string \<Rightarrow> entry \<Rightarrow> unit fop" where
  "insert_row R name key e = bindM (t_insert R name key e) (\<lambda>_. returnM ())"

definition writeGenesis :: "boost \<Rightarrow> remote \<Rightarrow> genesis_param \<Rightarrow> int \<Rightarrow> bytes \<Rightarrow> bytes \<Rightarrow> unit fop" where
  "writeGenesis B R p num h out =
     seqM (with_table B R SYS_NUMBER_2_HASH False (insert_row R SYS_NUMBER_2_HASH (lex_show B num) (value_row (toHex h))))
    (seqM (with_table B R SYS_CONFIG True
       (seqM (insert_row R SYS_CONFIG SYSTEM_KEY_TX_COUNT_LIMIT (config_row SYSTEM_KEY_TX_COUNT_LIMIT (lex_show B (int (txCountLimit p)))))
             (insert_row R SYS_CONFIG SYSTEM_KEY_TX_GAS_LIMIT (config_row SYSTEM_KEY_TX_GAS_LIMIT (lex_show B (int (txGasLimit p)))))))
    (seqM (with_table B R SYS_MINERS True
       (seqM (forM (gp_minerList p) (\<lambda>node. insert_row R SYS_MINERS PRI_KEY (node_row NODE_TYPE_MINER node)))
             (forM (gp_observerList p) (\<lambda>node. insert_row R SYS_MINERS PRI_KEY (node_row NODE_TYPE_OBSERVER node)))))
          (with_table B R SYS_HASH_2_BLOCK False (insert_row R SYS_HASH_2_BLOCK (toHex h) (value_row (toHexPrefixed out))))))"

definition asString :: "bytes \<Rightarrow> string" where
  "asString bs = map (\<lambda>b. char_of (unat b)) bs"

text \<open>
  The group mark of the first block that exists decides; a different one overwrites the types in the parameter with
  its parts. \<open>split_dash\<close> is \<open>boost::split\<close> at dashes with compressed tokens.
\<close>

definition checkAndBuildGenesisBlock ::
  "boost \<Rightarrow> crypto \<Rightarrow> 'd storage \<Rightarrow> (string \<Rightarrow> string list) \<Rightarrow> genesis_param \<Rightarrow> blockchain \<Rightarrow> 'd
     \<Rightarrow> (client_error + bool \<times> genesis_param) \<times> blockchain \<times> 'd" where
  "checkAndBuildGenesisBlock B C S split_dash p c d =
     (case getBlockByNumber B C S d 0 c of
        (Inl e, c1) \<Rightarrow> (Inl e, c1, d)
      | (Inr None, c1) \<Rightarrow>
          (let b = genesis_block (groupMark p) in
           case (header_hash C (m_blockHeader b), block_encode C b) of
             (Inl e, _) \<Rightarrow> (Inl (EthError (RLPError e)), c1, d)
           | (_, Inl e) \<Rightarrow> (Inl (EthError e), c1, d)
           | (Inr (h, _), Inr (out, _)) \<Rightarrow>
               (case writeGenesis B (remote_of S d) p (m_number (m_blockHeader b)) h out MemoryTableFactory of
                  (Inl e, _) \<Rightarrow> (Inl e, c1, d)
                | (Inr _, f) \<Rightarrow>
                    (case commitDB B S h (m_number (m_blockHeader b)) f d of
                       (r, _, d1) \<Rightarrow> (bindE (liftS r) (\<lambda>_. Inr (True, p)), c1, d1))))
      | (Inr (Some b), c1) \<Rightarrow>
          (case m_extraData (m_blockHeader b) of
             [] \<Rightarrow> (Inl NullDereference, c1, d)
           | x # _ \<Rightarrow>
               if asString x = groupMark p then (Inr (True, p), c1, d)
               else (let s = split_dash (asString x) in
                     if length s \<noteq> 7 then (Inl AssertAbort, c1, d)
                     else (Inr (False, p\<lparr>consensusType := s ! 2, storageType := s ! 3, stateType := s ! 4\<rparr>), c1, d))))"

end
