(* ===== verification/BlockCommit.thy ===== *)
theory BlockCommit
  imports BlockChain
begin

text \<open>
  What committing a block does, over the LevelDB storage: the rows that the writers of \<open>BlockChainImp.cpp\<close> leave in the factory,
  what readers find after the commit, and how a failed commit leaves the lock.
\<close>

section \<open>Tables over LevelDB\<close>

abbreviation ldb :: "boost \<Rightarrow> 'd leveldb \<Rightarrow> 'd \<Rightarrow> remote" where
  "ldb B L d \<equiv> remote_of (LevelDBStorage B L) d"

lemma ldb_simp: "ldb B L d = Some (leveldb_select B L d)"
  by (simp add: remote_of_def LevelDBStorage_def)

lemma ldb_ok: "remote_ok (ldb B L d)"
  by (simp add: ldb_simp leveldb_remote_ok)

text \<open>The rows of a table and key in the data base; \<open>select\<close> ignores the block hash and number.\<close>

definition db_rows :: "boost \<Rightarrow> 'd leveldb \<Rightarrow> 'd \<Rightarrow> string \<Rightarrow> string \<Rightarrow> entry list" where
  "db_rows B L d name key = (case leveldb_select B L d [] 0 name key of Inl _ \<Rightarrow> [] | Inr es \<Rightarrow> m_entries es)"

definition readable :: "boost \<Rightarrow> 'd leveldb \<Rightarrow> 'd \<Rightarrow> bool" where
  "readable B L d \<longleftrightarrow> (\<forall>name key. \<exists>es. leveldb_select B L d [] 0 name key = Inr es)"

lemma leveldb_select_args: "leveldb_select B L d h n name key = leveldb_select B L d [] 0 name key"
  by (simp add: leveldb_select_def)

lemma db_rows_ok: "list_all (row_ok B) (db_rows B L d name key)"
  using leveldb_rows_ok(1) by (fastforce simp: db_rows_def split: sum.splits)

lemma mt_rows_db:
  "mt_rows (ldb B L d) t key = (case map_of (m_cache t) key of Some es \<Rightarrow> m_entries es | None \<Rightarrow> db_rows B L d (ti_name (m_tableInfo t)) key)"
  by (auto simp: mt_rows_def load_def ldb_simp db_rows_def leveldb_select_args [of _ _ _ "mt_blockHash t"] split: option.splits sum.splits)

lemma mt_ready_db: "readable B L d \<Longrightarrow> mt_ready (ldb B L d) t key"
  by (auto simp: mt_ready_def load_def ldb_simp readable_def leveldb_select_args [of _ _ _ "mt_blockHash t"] split: option.splits sum.splits)
    (metis old.sum.exhaust sum.distinct(1))

lemma load_db:
  assumes "readable B L d"
  obtains es t1 where "load (ldb B L d) key t = (Inr es, t1)" "m_entries es = mt_rows (ldb B L d) t key"
    "map_of (m_cache t1) = (map_of (m_cache t))(key \<mapsto> es)" "m_tableInfo t1 = m_tableInfo t"
    "map_of (m_cache t) key = None \<longrightarrow> es_dirty es = (m_entries es \<noteq> [])"
proof -
  obtain es where es: "fst (load (ldb B L d) key t) = Inr es" using mt_ready_db [OF assms, of t key] by (auto simp: mt_ready_def split: sum.splits)
  then obtain t1 where t1: "load (ldb B L d) key t = (Inr es, t1)" by (cases "load (ldb B L d) key t") auto
  moreover have "m_entries es = mt_rows (ldb B L d) t key" using es by (simp add: mt_rows_def)
  moreover have "map_of (m_cache t1) = (map_of (m_cache t))(key \<mapsto> es)" "m_tableInfo t1 = m_tableInfo t"
    using t1 by (auto simp: load_def ldb_simp smap_insert_def fun_eq_iff split: option.splits sum.splits)
  moreover have "map_of (m_cache t) key = None \<longrightarrow> es_dirty es = (m_entries es \<noteq> [])"
    using t1 leveldb_rows_ok(2) by (fastforce simp: load_def ldb_simp split: sum.splits)
  ultimately show ?thesis by (rule that)
qed

lemma checkFiled_iff: "checkFiled e t = Inr () \<longleftrightarrow> fst ` set (m_fields e) \<subseteq> set (ti_fields (m_tableInfo t))"
proof -
  have "checkFiled e t = Inr () \<longleftrightarrow> find (\<lambda>(k, _). k \<notin> set (ti_fields (m_tableInfo t))) (m_fields e) = None"
    by (auto simp: checkFiled_def split: option.splits prod.splits)
  then show ?thesis by (force simp: find_None_iff)
qed

lemma no_conditions [simp]: "m_conditions Condition = []"
  by (simp add: Condition_def)

lemma select_db:
  assumes "readable B L d"
  obtains t1 es where "mt_select B (ldb B L d) key Condition t = (mt_rows (ldb B L d) t key, t1)" "m_tableInfo t1 = m_tableInfo t"
    "map_of (m_cache t1) = (map_of (m_cache t))(key \<mapsto> es)" "m_entries es = mt_rows (ldb B L d) t key"
    "map_of (m_cache t) key = None \<longrightarrow> es_dirty es = (m_entries es \<noteq> [])"
proof -
  obtain es t1 where l: "load (ldb B L d) key t = (Inr es, t1)" "m_entries es = mt_rows (ldb B L d) t key"
    "map_of (m_cache t1) = (map_of (m_cache t))(key \<mapsto> es)" "m_tableInfo t1 = m_tableInfo t"
    "map_of (m_cache t) key = None \<longrightarrow> es_dirty es = (m_entries es \<noteq> [])" by (rule load_db [OF assms, of key t])
  have "map (\<lambda>i. m_entries es ! i) (processEntries B es Condition) = m_entries es" by (simp add: select_indexes)
  then have "mt_select B (ldb B L d) key Condition t = (mt_rows (ldb B L d) t key, t1)" using l by (simp add: mt_select_def)
  from that [OF this l(4,3,2,5)] show ?thesis .
qed

lemma insert_db:
  assumes "readable B L d" "mt_accepts origin t e"
  obtains t1 es log where "mt_insert (ldb B L d) key e origin t = (1, log, t1)" "m_tableInfo t1 = m_tableInfo t"
    "map_of (m_cache t1) = (map_of (m_cache t))(key \<mapsto> es)" "m_entries es = mt_rows (ldb B L d) t key @ [e]" "es_dirty es"
proof -
  obtain es t1 where l: "load (ldb B L d) key t = (Inr es, t1)" "m_entries es = mt_rows (ldb B L d) t key"
    "map_of (m_cache t1) = (map_of (m_cache t))(key \<mapsto> es)" "m_tableInfo t1 = m_tableInfo t" by (rule load_db [OF assms(1), of key t])
  have "checkFiled e t1 = Inr ()" using assms(2) l(4) by (simp add: mt_accepts_def checkFiled_iff)
  then show ?thesis using that [of _ "t1\<lparr>m_cache := smap_set key (addEntry e es) (m_cache t1)\<rparr>" "addEntry e es"] assms(2) l
    by (simp add: mt_insert_def mt_accepts_def addEntry_def)
qed

lemma update_db:
  assumes "readable B L d" "mt_accepts origin t e"
  obtains n t1 es log where "mt_update B (ldb B L d) key e Condition origin t = (n, log, t1)" "m_tableInfo t1 = m_tableInfo t"
    "map_of (m_cache t1) = (map_of (m_cache t))(key \<mapsto> es)" "m_entries es = map (setFields (m_fields e)) (mt_rows (ldb B L d) t key)" "es_dirty es"
proof -
  obtain es t1 where l: "load (ldb B L d) key t = (Inr es, t1)" "m_entries es = mt_rows (ldb B L d) t key"
    "map_of (m_cache t1) = (map_of (m_cache t))(key \<mapsto> es)" "m_tableInfo t1 = m_tableInfo t" by (rule load_db [OF assms(1), of key t])
  have "checkFiled e t1 = Inr ()" using assms(2) l(4) by (simp add: mt_accepts_def checkFiled_iff)
  moreover define es' where "es' = es\<lparr>m_entries := update_rows (setFields (m_fields e)) (processEntries B es Condition) (m_entries es), es_dirty := True\<rparr>"
  ultimately have "\<exists>log. mt_update B (ldb B L d) key e Condition origin t = (int (length (processEntries B es Condition)), log, write_back key es' t1)"
    using assms(2) l(1) by (simp add: mt_update_def mt_accepts_def Let_def)
  moreover have "map_of (m_cache (write_back key es' t1)) = (map_of (m_cache t))(key \<mapsto> es')" using l(3) by (simp add: write_back_def)
  moreover have "m_entries es' = map (setFields (m_fields e)) (mt_rows (ldb B L d) t key)"
    unfolding es'_def l(2) [symmetric] by (simp add: update_rows_selected)
  ultimately show ?thesis using that l(4) by (auto simp: es'_def)
qed

section \<open>System tables of a factory\<close>

text \<open>The table a client gets when it opens a system table without access control.\<close>

definition sys_tab :: "string \<Rightarrow> table_factory \<Rightarrow> memory_table" where
  "sys_tab name f = (case map_of (m_name2Table f) name of Some t \<Rightarrow> t | None \<Rightarrow> new_table (add_std_fields (getSysTableInfo name)) f)"

definition sys_std :: "string \<Rightarrow> table_factory \<Rightarrow> bool" where
  "sys_std name f \<longleftrightarrow> m_tableInfo (sys_tab name f) = add_std_fields (getSysTableInfo name)"

text \<open>A step that only changes one table, and leaves the factory well formed.\<close>

definition only_table :: "string \<Rightarrow> memory_table \<Rightarrow> table_factory \<Rightarrow> table_factory \<Rightarrow> bool" where
  "only_table name t f f' \<longleftrightarrow> factory_ok f' \<and> map_of (m_name2Table f') = (map_of (m_name2Table f))(name \<mapsto> t)
     \<and> f_blockHash f' = f_blockHash f \<and> f_blockNum f' = f_blockNum f"

lemma only_table_tab: "only_table name t f f' \<Longrightarrow> sys_tab name f' = t"
  by (simp add: only_table_def sys_tab_def)

lemma only_table_other: "only_table name t f f' \<Longrightarrow> u \<noteq> name \<Longrightarrow> sys_tab u f' = sys_tab u f"
  by (simp add: only_table_def sys_tab_def new_table_def split: option.splits)

lemma only_table_trans: "only_table name t f f' \<Longrightarrow> only_table name t' f' f'' \<Longrightarrow> only_table name t' f f''"
  by (simp add: only_table_def)

lemma run_open:
  assumes "name \<in> set m_sysTables" "remote_ok R" "factory_ok f"
  obtains f1 where "t_open B R name False f = (Inr True, f1)" "only_table name (sys_tab name f) f f1"
proof -
  have ok: "factory_ok (snd (openTable B R name False f))" by (rule factory_ok_open [OF assms(2,3)])
  show ?thesis
  proof (cases "map_of (m_name2Table f) name")
    case None
    then have o: "openTable B R name False f = (Inr True, register_table name (sys_tab name f) f)"
      using assms(1) by (simp add: openTable_split open_info_def open_register_def sys_tab_def)
    then have "only_table name (sys_tab name f) f (register_table name (sys_tab name f) f)"
      using ok None by (simp add: only_table_def register_table_def smap_insert_def)
    then show ?thesis using that o by (simp add: t_open_def)
  next
    case (Some t)
    then have "openTable B R name False f = (Inr True, f)" by (simp add: openTable_split)
    moreover have "only_table name (sys_tab name f) f f"
      using Some assms(3) by (auto simp: only_table_def sys_tab_def fun_eq_iff)
    ultimately show ?thesis using that by (simp add: t_open_def)
  qed
qed

lemma run_select:
  assumes "readable B L d" "factory_ok f" "map_of (m_name2Table f) name = Some t"
  obtains f1 t1 es where "t_select B (ldb B L d) name key f = (Inr (mt_rows (ldb B L d) t key), f1)" "only_table name t1 f f1"
    "m_tableInfo t1 = m_tableInfo t" "map_of (m_cache t1) = (map_of (m_cache t))(key \<mapsto> es)" "m_entries es = mt_rows (ldb B L d) t key"
    "map_of (m_cache t) key = None \<longrightarrow> es_dirty es = (m_entries es \<noteq> [])"
proof -
  obtain t1 es where s: "mt_select B (ldb B L d) key Condition t = (mt_rows (ldb B L d) t key, t1)" "m_tableInfo t1 = m_tableInfo t"
    "map_of (m_cache t1) = (map_of (m_cache t))(key \<mapsto> es)" "m_entries es = mt_rows (ldb B L d) t key"
    "map_of (m_cache t) key = None \<longrightarrow> es_dirty es = (m_entries es \<noteq> [])" by (rule select_db [OF assms(1), where key = key and t = t])
  let ?f1 = "f\<lparr>m_name2Table := smap_set name t1 (m_name2Table f)\<rparr>"
  have run: "f_select B (ldb B L d) name key Condition f = (mt_rows (ldb B L d) t key, ?f1)" using s(1) assms(3) by (simp add: f_select_def)
  have "factory_ok ?f1" using factory_ok_select [OF ldb_ok assms(2) run] ..
  then have "only_table name t1 f ?f1" by (simp add: only_table_def)
  from that [of ?f1 t1 es] this run s show ?thesis by (simp add: t_select_def updateM_def)
qed

lemma run_insert:
  assumes "readable B L d" "factory_ok f" "map_of (m_name2Table f) name = Some t" "mt_accepts (hash_zero 20) t e" "entry_ok e"
  obtains f1 t1 es where "t_insert (ldb B L d) name key e f = (Inr 1, f1)" "only_table name t1 f f1"
    "m_tableInfo t1 = m_tableInfo t" "map_of (m_cache t1) = (map_of (m_cache t))(key \<mapsto> es)" "m_entries es = mt_rows (ldb B L d) t key @ [e]" "es_dirty es"
proof -
  obtain t1 es log where i: "mt_insert (ldb B L d) key e (hash_zero 20) t = (1, log, t1)" "m_tableInfo t1 = m_tableInfo t"
    "map_of (m_cache t1) = (map_of (m_cache t))(key \<mapsto> es)" "m_entries es = mt_rows (ldb B L d) t key @ [e]" "es_dirty es"
    by (rule insert_db [OF assms(1,4), of key])
  have run: "f_insert (ldb B L d) name key e (hash_zero 20) f = (1, f_log name log t1 f)" using i(1) assms(3) by (simp add: f_insert_def)
  have "factory_ok (f_log name log t1 f)" using factory_ok_insert [OF ldb_ok [of B L d] assms(2,5), where name = name and key = key and origin = "hash_zero 20"] run by simp
  then have "only_table name t1 f (f_log name log t1 f)" by (simp add: only_table_def f_log_def)
  from that [of _ t1 es] this run i show ?thesis by (simp add: t_insert_def updateM_def)
qed

lemma run_update:
  assumes "readable B L d" "factory_ok f" "map_of (m_name2Table f) name = Some t" "mt_accepts (hash_zero 20) t e"
  obtains n f1 t1 es where "t_update B (ldb B L d) name key e f = (Inr n, f1)" "only_table name t1 f f1" "m_tableInfo t1 = m_tableInfo t"
    "map_of (m_cache t1) = (map_of (m_cache t))(key \<mapsto> es)" "m_entries es = map (setFields (m_fields e)) (mt_rows (ldb B L d) t key)" "es_dirty es"
proof -
  obtain n t1 es log where u: "mt_update B (ldb B L d) key e Condition (hash_zero 20) t = (n, log, t1)" "m_tableInfo t1 = m_tableInfo t"
    "map_of (m_cache t1) = (map_of (m_cache t))(key \<mapsto> es)" "m_entries es = map (setFields (m_fields e)) (mt_rows (ldb B L d) t key)" "es_dirty es"
    by (rule update_db [OF assms(1,4), of key])
  have run: "f_update B (ldb B L d) name key e Condition (hash_zero 20) f = (n, f_log name log t1 f)" using u(1) assms(3) by (simp add: f_update_def)
  have "factory_ok (f_log name log t1 f)"
    using factory_ok_update [OF ldb_ok [of B L d] assms(2), where B = B and name = name and key = key and e = e and c = Condition and origin = "hash_zero 20"] run by simp
  then have "only_table name t1 f (f_log name log t1 f)" by (simp add: only_table_def f_log_def)
  from that [of n _ t1 es] this run u show ?thesis by (simp add: t_update_def updateM_def)
qed

section \<open>The rows the writers leave\<close>

lemmas sys_names = storage_names SYS_KEY_TOTAL_TRANSACTION_COUNT_def

lemma value_row_facts [simp]:
  "entry_ok (value_row v)" "getField SYS_VALUE (value_row v) = v" "map_of (m_fields (value_row v)) STATUS = Some ''0''"
  "fst ` set (m_fields (value_row v)) = {STATUS, SYS_VALUE}"
  by (simp_all add: value_row_def) (simp_all add: setField_def Entry_def STATUS_def SYS_VALUE_def)

lemma tx_row_facts [simp]:
  "entry_ok (tx_row B n i)" "getField SYS_VALUE (tx_row B n i) = lex_show B n" "getField ''index'' (tx_row B n i) = lex_show B (int i)"
  "map_of (m_fields (tx_row B n i)) STATUS = Some ''0''" "fst ` set (m_fields (tx_row B n i)) = {STATUS, SYS_VALUE, ''index''}"
  by (simp_all add: tx_row_def)
    (simp_all add: value_row_def setField_def Entry_def STATUS_def SYS_VALUE_def insert_commute)

lemma std_accepts:
  assumes "m_tableInfo t = add_std_fields (getSysTableInfo name)"
  shows "mt_accepts origin t e \<longleftrightarrow> fst ` set (m_fields e) \<subseteq> set (ti_fields (getSysTableInfo name)) \<union> {STATUS, ti_key (getSysTableInfo name), ''_hash_'', ''_num_''}"
  using assms by (auto simp: mt_accepts_def checkAuthority_def checkFiled_iff add_std_fields_def getSysTableInfo_def sys_info_def)

lemma sys_fields:
  "ti_fields (getSysTableInfo SYS_CURRENT_STATE) = [SYS_VALUE]" "ti_fields (getSysTableInfo SYS_NUMBER_2_HASH) = [SYS_VALUE]"
  "ti_fields (getSysTableInfo SYS_HASH_2_BLOCK) = [SYS_VALUE]" "ti_fields (getSysTableInfo SYS_TX_HASH_2_BLOCK) = [SYS_VALUE, ''index'']"
  by (simp_all add: getSysTableInfo_def sys_info_def sys_names SYS_VALUE_def)

lemma accepts_value_row:
  "m_tableInfo t = add_std_fields (getSysTableInfo SYS_CURRENT_STATE) \<Longrightarrow> mt_accepts origin t (value_row v)"
  "m_tableInfo t = add_std_fields (getSysTableInfo SYS_NUMBER_2_HASH) \<Longrightarrow> mt_accepts origin t (value_row v)"
  "m_tableInfo t = add_std_fields (getSysTableInfo SYS_HASH_2_BLOCK) \<Longrightarrow> mt_accepts origin t (value_row v)"
  by (simp_all add: std_accepts sys_fields)

lemma accepts_tx_row: "m_tableInfo t = add_std_fields (getSysTableInfo SYS_TX_HASH_2_BLOCK) \<Longrightarrow> mt_accepts origin t (tx_row B n i)"
  by (simp add: std_accepts sys_fields)

lemma chain_tables: "SYS_CURRENT_STATE \<in> set m_sysTables" "SYS_NUMBER_2_HASH \<in> set m_sysTables" "SYS_HASH_2_BLOCK \<in> set m_sysTables"
  "SYS_TX_HASH_2_BLOCK \<in> set m_sysTables"
  by (simp_all add: m_sysTables_def)

lemma row_ok_value_row: "lex_uint32 B ''0'' = Some 0 \<Longrightarrow> row_ok B (value_row v)"
  by (simp add: row_ok_def)

lemma row_ok_setFields:
  assumes "row_ok B e" "row_ok B x"
  shows "row_ok B (setFields (m_fields e) x)"
  using assms by (auto simp: row_ok_def entry_ok_setFields fields_setFields entry_ok_distinct)

lemma row_ok_setField: "row_ok B e \<Longrightarrow> k \<noteq> STATUS \<Longrightarrow> row_ok B (setField k v e)"
  by (auto simp: row_ok_def setField_def entry_ok_def sorted_smap_set)

lemma getField_setFields_ok: "entry_ok e \<Longrightarrow> map_of (m_fields e) k \<noteq> None \<Longrightarrow> getField k (setFields (m_fields e) x) = getField k e"
  by (cases "map_of (m_fields e) k") (simp_all add: getField_setFields entry_ok_distinct getField_def [of k e])

text \<open>A table caches rows for a key that a commit will write, and the first of them has a property.\<close>

definition wrote :: "boost \<Rightarrow> string \<Rightarrow> (entry \<Rightarrow> bool) \<Rightarrow> memory_table \<Rightarrow> bool" where
  "wrote B key P t \<longleftrightarrow> (\<exists>es. map_of (m_cache t) key = Some es \<and> m_entries es \<noteq> [] \<and> es_dirty es \<and> list_all (row_ok B) (m_entries es)
     \<and> P (hd (m_entries es)))"

lemma wroteI:
  "map_of (m_cache t) key = Some es \<Longrightarrow> m_entries es \<noteq> [] \<Longrightarrow> es_dirty es \<Longrightarrow> list_all (row_ok B) (m_entries es) \<Longrightarrow>
     P (hd (m_entries es)) \<Longrightarrow> wrote B key P t"
  by (auto simp: wrote_def)

lemma open_sys_run:
  assumes "name \<in> set m_sysTables" "factory_ok f"
  obtains f1 where "open_sys B (ldb B L d) name k f = k f1" "only_table name (sys_tab name f) f f1"
    "factory_ok f1" "map_of (m_name2Table f1) name = Some (sys_tab name f)"
proof -
  obtain f1 where "t_open B (ldb B L d) name False f = (Inr True, f1)" "only_table name (sys_tab name f) f f1"
    by (rule run_open [OF assms(1) ldb_ok assms(2)])
  then show ?thesis using that [of f1] by (simp add: open_sys_def bindM_def only_table_def)
qed

lemma writeNumber_run:
  assumes "readable B L d" "factory_ok f" "sys_std SYS_CURRENT_STATE f" "lex_uint32 B ''0'' = Some 0"
    and "map_of (m_cache (sys_tab SYS_CURRENT_STATE f)) SYS_KEY_CURRENT_NUMBER = None"
  obtains f1 t1 where "writeNumber B (ldb B L d) b f = (Inr (), f1)" "only_table SYS_CURRENT_STATE t1 f f1"
    "m_tableInfo t1 = m_tableInfo (sys_tab SYS_CURRENT_STATE f)"
    "wrote B SYS_KEY_CURRENT_NUMBER (\<lambda>e. getField SYS_VALUE e = lex_show B (m_number (m_blockHeader b))) t1"
    "\<forall>k. k \<noteq> SYS_KEY_CURRENT_NUMBER \<longrightarrow> map_of (m_cache t1) k = map_of (m_cache (sys_tab SYS_CURRENT_STATE f)) k"
proof -
  let ?t = "sys_tab SYS_CURRENT_STATE f" and ?R = "ldb B L d" and ?k = SYS_KEY_CURRENT_NUMBER
  let ?e = "value_row (lex_show B (m_number (m_blockHeader b)))" and ?rows = "mt_rows ?R ?t ?k"
  define body where "body = bindM (t_select B ?R SYS_CURRENT_STATE ?k) (\<lambda>es. let e = ?e in
      if es \<noteq> [] then bindM (t_update B ?R SYS_CURRENT_STATE ?k e) (\<lambda>_. returnM ())
      else bindM (t_insert ?R SYS_CURRENT_STATE ?k e) (\<lambda>_. returnM ()))"
  obtain f0 where f0: "open_sys B ?R SYS_CURRENT_STATE body f = body f0" "only_table SYS_CURRENT_STATE ?t f f0" "factory_ok f0"
      "map_of (m_name2Table f0) SYS_CURRENT_STATE = Some ?t" by (rule open_sys_run [OF chain_tables(1) assms(2)])
  obtain f1 t1 es where s: "t_select B ?R SYS_CURRENT_STATE ?k f0 = (Inr ?rows, f1)" "only_table SYS_CURRENT_STATE t1 f0 f1" "m_tableInfo t1 = m_tableInfo ?t"
      "map_of (m_cache t1) = (map_of (m_cache ?t))(?k \<mapsto> es)" "m_entries es = ?rows" "map_of (m_cache ?t) ?k = None \<longrightarrow> es_dirty es = (m_entries es \<noteq> [])"
    by (rule run_select [OF assms(1) f0(3,4)])
  have f1: "factory_ok f1" "map_of (m_name2Table f1) SYS_CURRENT_STATE = Some t1" using s(2) by (simp_all add: only_table_def)
  have acc: "mt_accepts (hash_zero 20) t1 ?e"
    using s(3) assms(3) by (simp add: sys_std_def accepts_value_row)
  have rows1: "mt_rows ?R t1 ?k = ?rows" using s(4,5) by (simp add: mt_rows_db)
  have rok: "list_all (row_ok B) ?rows" using assms(5) db_rows_ok by (simp add: mt_rows_db)
  have e: "row_ok B ?e" using assms(4) by (rule row_ok_value_row)
  show ?thesis
  proof (cases "?rows = []")
    case True
    obtain f2 t2 es2 where i: "t_insert ?R SYS_CURRENT_STATE ?k ?e f1 = (Inr 1, f2)" "only_table SYS_CURRENT_STATE t2 f1 f2" "m_tableInfo t2 = m_tableInfo t1"
        "map_of (m_cache t2) = (map_of (m_cache t1))(?k \<mapsto> es2)" "m_entries es2 = mt_rows ?R t1 ?k @ [?e]" "es_dirty es2"
      by (rule run_insert [OF assms(1) f1 acc]) simp
    show ?thesis
    proof (rule that)
      show "writeNumber B ?R b f = (Inr (), f2)" using f0(1) s(1) i(1) True by (simp add: writeNumber_def body_def bindM_def returnM_def)
      show "only_table SYS_CURRENT_STATE t2 f f2" by (rule only_table_trans [OF only_table_trans [OF f0(2) s(2)] i(2)])
      show "wrote B ?k (\<lambda>e. getField SYS_VALUE e = lex_show B (m_number (m_blockHeader b))) t2"
        by (rule wroteI [of _ _ es2]) (use i True rows1 e in simp_all)
    qed (use i s in auto)
  next
    case False
    obtain n f2 t2 es2 where u: "t_update B ?R SYS_CURRENT_STATE ?k ?e f1 = (Inr n, f2)" "only_table SYS_CURRENT_STATE t2 f1 f2" "m_tableInfo t2 = m_tableInfo t1"
        "map_of (m_cache t2) = (map_of (m_cache t1))(?k \<mapsto> es2)" "m_entries es2 = map (setFields (m_fields ?e)) (mt_rows ?R t1 ?k)" "es_dirty es2"
      by (rule run_update [OF assms(1) f1 acc])
    have "map_of (m_fields ?e) SYS_VALUE \<noteq> None" by (simp add: value_row_def setField_def)
    then have v: "getField SYS_VALUE (setFields (m_fields ?e) x) = lex_show B (m_number (m_blockHeader b))" for x
      by (simp add: getField_setFields_ok)
    show ?thesis
    proof (rule that)
      show "writeNumber B ?R b f = (Inr (), f2)" using f0(1) s(1) u(1) False by (simp add: writeNumber_def body_def bindM_def returnM_def)
      show "only_table SYS_CURRENT_STATE t2 f f2" by (rule only_table_trans [OF only_table_trans [OF f0(2) s(2)] u(2)])
      show "wrote B ?k (\<lambda>e. getField SYS_VALUE e = lex_show B (m_number (m_blockHeader b))) t2"
        by (rule wroteI [of _ _ es2]) (use u False rows1 rok row_ok_setFields [OF e] v in \<open>simp_all add: list_all_iff hd_map\<close>)
    qed (use u s in auto)
  qed
qed

lemma run_poke:
  assumes "factory_ok f" "map_of (m_name2Table f) name = Some t" "map_of (m_cache t) key = Some es" "m_entries es = e # rest"
  obtains f1 t1 es1 where "f_poke name key 0 k v f = f1" "only_table name t1 f f1" "m_tableInfo t1 = m_tableInfo t"
    "map_of (m_cache t1) = (map_of (m_cache t))(key \<mapsto> es1)" "m_entries es1 = setField k v e # rest" "es_dirty es1 = es_dirty es"
proof -
  let ?es1 = "es\<lparr>m_entries := setField k v e # rest\<rparr>"
  let ?t1 = "t\<lparr>m_cache := smap_set key ?es1 (m_cache t)\<rparr>"
  have poke: "f_poke name key 0 k v f = f\<lparr>m_name2Table := smap_set name ?t1 (m_name2Table f)\<rparr>"
    using assms by (simp add: f_poke_def mt_poke_def write_back_def update_rows_def)
  have "only_table name ?t1 f (f\<lparr>m_name2Table := smap_set name ?t1 (m_name2Table f)\<rparr>)"
    using factory_ok_poke [OF assms(1), of name key 0 k v] by (simp add: poke only_table_def)
  from that [OF poke this] show ?thesis by simp
qed

text \<open>An update with a field the table does not have changes nothing.\<close>

lemma run_update_rejected:
  assumes "factory_ok f" "map_of (m_name2Table f) name = Some t" "map_of (m_cache t) key = Some es" "checkAuthority (hash_zero 20) t"
    and "\<not> mt_accepts (hash_zero 20) t e"
  obtains f1 where "t_update B R name key e f = (Inr 0, f1)" "only_table name t f f1"
proof -
  obtain x where "checkFiled e t = Inl x" using assms(4,5) by (cases "checkFiled e t") (auto simp: mt_accepts_def)
  then have "mt_update B R key e Condition (hash_zero 20) t = (0, [], t)" using assms(3,4) by (simp add: mt_update_def load_def)
  then have run: "t_update B R name key e f = (Inr 0, f_log name [] t f)" using assms(2) by (simp add: t_update_def updateM_def f_update_def)
  have "factory_ok (f_log name [] t f)" using factory_ok_log [OF assms(1), of name t "[]"] factory_ok_table [OF assms(1,2)] by simp
  then have "only_table name t f (f_log name [] t f)" by (simp add: only_table_def f_log_def)
  from that [OF run this] show ?thesis .
qed

text \<open>Adding to the count: the first row is changed in place, and then copied over all rows if the table accepts it.\<close>

lemma count_update_run:
  assumes "readable B L d" "factory_ok f" "map_of (m_name2Table f) name = Some t" "checkAuthority (hash_zero 20) t"
    and "map_of (m_cache t) key = Some es" "m_entries es = e # rest" "es_dirty es" "list_all (row_ok B) (m_entries es)" "k \<noteq> STATUS"
  obtains n f1 t1 where "t_update B (ldb B L d) name key (setField k v e) (f_poke name key 0 k v f) = (Inr n, f1)" "only_table name t1 f f1"
    "m_tableInfo t1 = m_tableInfo t" "wrote B key (\<lambda>e. getField k e = v) t1" "\<forall>j. j \<noteq> key \<longrightarrow> map_of (m_cache t1) j = map_of (m_cache t) j"
proof -
  let ?e = "setField k v e"
  obtain f1 t1 es1 where p: "f_poke name key 0 k v f = f1" "only_table name t1 f f1" "m_tableInfo t1 = m_tableInfo t"
      "map_of (m_cache t1) = (map_of (m_cache t))(key \<mapsto> es1)" "m_entries es1 = ?e # rest" "es_dirty es1 = es_dirty es"
    by (rule run_poke [OF assms(2,3,5,6)])
  have f1: "factory_ok f1" "map_of (m_name2Table f1) name = Some t1" using p(2) by (simp_all add: only_table_def)
  have e: "row_ok B ?e" "list_all (row_ok B) rest" using assms(6,8,9) by (simp_all add: row_ok_setField)
  have cached: "map_of (m_cache t1) key = Some es1" using p(4) by simp
  show ?thesis
  proof (cases "mt_accepts (hash_zero 20) t1 ?e")
    case True
    obtain n f2 t2 es2 where u: "t_update B (ldb B L d) name key ?e f1 = (Inr n, f2)" "only_table name t2 f1 f2" "m_tableInfo t2 = m_tableInfo t1"
        "map_of (m_cache t2) = (map_of (m_cache t1))(key \<mapsto> es2)" "m_entries es2 = map (setFields (m_fields ?e)) (mt_rows (ldb B L d) t1 key)" "es_dirty es2"
      by (rule run_update [OF assms(1) f1 True])
    have rows: "mt_rows (ldb B L d) t1 key = ?e # rest" using cached p(5) by (simp add: mt_rows_db)
    have ok: "list_all (row_ok B) (m_entries es2)" using e row_ok_setFields [OF e(1)] unfolding u(5) rows by (auto simp: list_all_iff)
    have "map_of (m_fields ?e) k \<noteq> None" by (simp add: setField_def)
    then have "getField k (setFields (m_fields ?e) ?e) = v" using e(1) by (simp add: getField_setFields_ok row_ok_def)
    then have "wrote B key (\<lambda>e. getField k e = v) t2" by (intro wroteI [of _ _ es2]) (use u(4,6) ok in \<open>simp_all add: u(5) rows\<close>)
    moreover have "only_table name t2 f f2" by (rule only_table_trans [OF p(2) u(2)])
    ultimately show ?thesis using that [of n f2 t2] u(1,3,4) p by simp
  next
    case False
    obtain f2 where u: "t_update B (ldb B L d) name key ?e f1 = (Inr 0, f2)" "only_table name t1 f1 f2"
      by (rule run_update_rejected [OF f1 cached _ False]) (use assms(4) p(3) in \<open>simp add: checkAuthority_def\<close>)
    have "wrote B key (\<lambda>e. getField k e = v) t1" by (rule wroteI [OF cached]) (use p(5,6) assms(7) e in simp_all)
    moreover have "only_table name t1 f f2" by (rule only_table_trans [OF p(2) u(2)])
    ultimately show ?thesis using that [of 0 f2 t1] u(1) p by simp
  qed
qed

lemma std_authority: "m_tableInfo t = add_std_fields (getSysTableInfo name) \<Longrightarrow> checkAuthority origin t"
  by (simp add: checkAuthority_def add_std_fields_def getSysTableInfo_def sys_info_def)

lemma wrap_int64_id: "0 \<le> n \<Longrightarrow> n < 2 ^ 63 \<Longrightarrow> wrap_int64 n = n"
  by (simp add: wrap_int64_def)

lemma writeTotal_run:
  assumes "readable B L d" "factory_ok f" "sys_std SYS_CURRENT_STATE f" "lex_uint32 B ''0'' = Some 0"
    and "map_of (m_cache (sys_tab SYS_CURRENT_STATE f)) SYS_KEY_TOTAL_TRANSACTION_COUNT = None" "length (m_transactions b) \<le> 2 ^ 32"
    and "case db_rows B L d SYS_CURRENT_STATE SYS_KEY_TOTAL_TRANSACTION_COUNT of [] \<Rightarrow> c = 0 | e # _ \<Rightarrow> lex_int64 B (getField SYS_VALUE e) = Some c"
  obtains f1 t1 where "writeTotalTransactionCount B (ldb B L d) b f = (Inr (), f1)" "only_table SYS_CURRENT_STATE t1 f f1"
    "m_tableInfo t1 = m_tableInfo (sys_tab SYS_CURRENT_STATE f)"
    "wrote B SYS_KEY_TOTAL_TRANSACTION_COUNT (\<lambda>e. getField SYS_VALUE e = lex_show B (wrap_int64 (c + int (length (m_transactions b))))) t1"
    "\<forall>k. k \<noteq> SYS_KEY_TOTAL_TRANSACTION_COUNT \<longrightarrow> map_of (m_cache t1) k = map_of (m_cache (sys_tab SYS_CURRENT_STATE f)) k"
proof -
  let ?t = "sys_tab SYS_CURRENT_STATE f" and ?R = "ldb B L d" and ?k = SYS_KEY_TOTAL_TRANSACTION_COUNT
  let ?rows = "mt_rows ?R ?t ?k" and ?v = "lex_show B (wrap_int64 (c + int (length (m_transactions b))))"
  have name: "ti_name (m_tableInfo ?t) = SYS_CURRENT_STATE" using assms(3) by (simp add: sys_std_def table_info_names)
  have rows: "?rows = db_rows B L d SYS_CURRENT_STATE ?k" using assms(5) by (simp add: mt_rows_db name)
  define body where "body = bindM (t_select B ?R SYS_CURRENT_STATE ?k) (\<lambda>es. case es of
      e # _ \<Rightarrow> bindM (liftM (liftS (cast (lex_int64 B (getField SYS_VALUE e))))) (\<lambda>count.
        let v = lex_show B (wrap_int64 (count + int (length (m_transactions b)))) in
        bindM (modifyM (f_poke SYS_CURRENT_STATE ?k 0 SYS_VALUE v)) (\<lambda>_.
        bindM (t_update B ?R SYS_CURRENT_STATE ?k (setField SYS_VALUE v e)) (\<lambda>_. returnM ())))
    | [] \<Rightarrow> bindM (t_insert ?R SYS_CURRENT_STATE ?k (value_row (lex_show B (int (length (m_transactions b)))))) (\<lambda>_. returnM ()))"
  have def: "writeTotalTransactionCount B ?R b f = open_sys B ?R SYS_CURRENT_STATE body f" by (simp add: writeTotalTransactionCount_def body_def)
  obtain f0 where f0: "open_sys B ?R SYS_CURRENT_STATE body f = body f0" "only_table SYS_CURRENT_STATE ?t f f0" "factory_ok f0"
      "map_of (m_name2Table f0) SYS_CURRENT_STATE = Some ?t" by (rule open_sys_run [OF chain_tables(1) assms(2)])
  obtain f1 t1 es where s: "t_select B ?R SYS_CURRENT_STATE ?k f0 = (Inr ?rows, f1)" "only_table SYS_CURRENT_STATE t1 f0 f1" "m_tableInfo t1 = m_tableInfo ?t"
      "map_of (m_cache t1) = (map_of (m_cache ?t))(?k \<mapsto> es)" "m_entries es = ?rows" "map_of (m_cache ?t) ?k = None \<longrightarrow> es_dirty es = (m_entries es \<noteq> [])"
    by (rule run_select [OF assms(1) f0(3,4)])
  have f1: "factory_ok f1" "map_of (m_name2Table f1) SYS_CURRENT_STATE = Some t1" using s(2) by (simp_all add: only_table_def)
  have std: "m_tableInfo t1 = add_std_fields (getSysTableInfo SYS_CURRENT_STATE)" using s(3) assms(3) by (simp add: sys_std_def)
  have cached: "map_of (m_cache t1) ?k = Some es" using s(4) by simp
  have only: "only_table SYS_CURRENT_STATE t2 f f2" if "only_table SYS_CURRENT_STATE t2 f1 f2" for t2 f2
    by (rule only_table_trans [OF only_table_trans [OF f0(2) s(2)] that])
  show ?thesis
  proof (cases ?rows)
    case Nil
    have c: "wrap_int64 (c + int (length (m_transactions b))) = int (length (m_transactions b))"
      using assms(6,7) rows Nil by (simp add: wrap_int64_id)
    let ?e = "value_row ?v"
    obtain f2 t2 es2 where i: "t_insert ?R SYS_CURRENT_STATE ?k ?e f1 = (Inr 1, f2)" "only_table SYS_CURRENT_STATE t2 f1 f2" "m_tableInfo t2 = m_tableInfo t1"
        "map_of (m_cache t2) = (map_of (m_cache t1))(?k \<mapsto> es2)" "m_entries es2 = mt_rows ?R t1 ?k @ [?e]" "es_dirty es2"
      by (rule run_insert [OF assms(1) f1 accepts_value_row(1) [OF std]]) simp
    have "mt_rows ?R t1 ?k = []" using cached s(5) Nil by (simp add: mt_rows_db)
    then have "wrote B ?k (\<lambda>e. getField SYS_VALUE e = ?v) t2"
      by (intro wroteI [of _ _ es2]) (use i row_ok_value_row [OF assms(4)] in simp_all)
    moreover have "body f0 = (Inr (), f2)" using s(1) i(1) Nil c by (simp add: body_def bindM_def returnM_def)
    ultimately show ?thesis using that [of f2 t2] only [OF i(2)] f0(1) def i s(3,4) by simp
  next
    case (Cons e rest)
    have cnt: "lex_int64 B (getField SYS_VALUE e) = Some c" using assms(7) Cons unfolding rows by simp
    have "list_all (row_ok B) (m_entries es)" unfolding s(5) rows by (rule db_rows_ok)
    moreover have "es_dirty es" using s(5,6) Cons assms(5) by simp
    moreover have "SYS_VALUE \<noteq> STATUS" by (simp add: SYS_VALUE_def STATUS_def)
    ultimately obtain n f2 t2 where u: "t_update B ?R SYS_CURRENT_STATE ?k (setField SYS_VALUE ?v e) (f_poke SYS_CURRENT_STATE ?k 0 SYS_VALUE ?v f1) = (Inr n, f2)"
        "only_table SYS_CURRENT_STATE t2 f1 f2" "m_tableInfo t2 = m_tableInfo t1" "wrote B ?k (\<lambda>e. getField SYS_VALUE e = ?v) t2"
        "\<forall>j. j \<noteq> ?k \<longrightarrow> map_of (m_cache t2) j = map_of (m_cache t1) j"
      using count_update_run [OF assms(1) f1 std_authority [OF std] cached s(5) [unfolded Cons], of SYS_VALUE ?v] by blast
    have "body f0 = (Inr (), f2)" using s(1) u(1) Cons cnt by (simp add: body_def bindM_def returnM_def modifyM_def liftM_def Let_def)
    then show ?thesis using that [of f2 t2] only [OF u(2)] f0(1) def u s(3,4) by simp
  qed
qed

text \<open>A row under a key that neither the factory nor the data base has.\<close>

definition unused :: "boost \<Rightarrow> 'd leveldb \<Rightarrow> 'd \<Rightarrow> string \<Rightarrow> memory_table \<Rightarrow> string \<Rightarrow> bool" where
  "unused B L d name t key \<longleftrightarrow> map_of (m_cache t) key = None \<and> db_rows B L d name key = []"

lemma run_insert_unused:
  assumes "readable B L d" "factory_ok f" "map_of (m_name2Table f) name = Some t" "mt_accepts (hash_zero 20) t e" "row_ok B e"
    and "ti_name (m_tableInfo t) = name" "unused B L d name t key"
  obtains f1 t1 where "t_insert (ldb B L d) name key e f = (Inr 1, f1)" "only_table name t1 f f1" "m_tableInfo t1 = m_tableInfo t"
    "wrote B key (\<lambda>x. x = e) t1" "\<forall>j. j \<noteq> key \<longrightarrow> map_of (m_cache t1) j = map_of (m_cache t) j"
proof -
  have "entry_ok e" using assms(5) by (simp add: row_ok_def)
  then obtain f1 t1 es where i: "t_insert (ldb B L d) name key e f = (Inr 1, f1)" "only_table name t1 f f1" "m_tableInfo t1 = m_tableInfo t"
      "map_of (m_cache t1) = (map_of (m_cache t))(key \<mapsto> es)" "m_entries es = mt_rows (ldb B L d) t key @ [e]" "es_dirty es"
    by (rule run_insert [OF assms(1-4)])
  have "mt_rows (ldb B L d) t key = []" using assms(6,7) by (simp add: mt_rows_db unused_def)
  then have "wrote B key (\<lambda>x. x = e) t1" by (intro wroteI [of _ _ es]) (use i assms(5) in simp_all)
  from that [OF i(1-3) this] i(4) show ?thesis by simp
qed

lemma bind_lift: "bindM (liftM (Inr x)) g = g x"
  by (simp add: fun_eq_iff run_simps)

lemma tx_loop_run:
  assumes "readable B L d" "factory_ok f" "map_of (m_name2Table f) SYS_TX_HASH_2_BLOCK = Some t"
    and "m_tableInfo t = add_std_fields (getSysTableInfo SYS_TX_HASH_2_BLOCK)" "lex_uint32 B ''0'' = Some 0"
    and "list_all2 (\<lambda>tx h. \<exists>tx'. tx_sha3 C tx True = Inr (h, tx')) txs hs" "distinct hs"
    and "\<And>h. h \<in> set hs \<Longrightarrow> unused B L d SYS_TX_HASH_2_BLOCK t (toHex h)"
  shows "\<exists>f1 t1. forM (enumerate k txs) (\<lambda>(i, tx). bindM (liftM (liftT (tx_sha3 C tx True))) (\<lambda>(h, _).
        bindM (t_insert (ldb B L d) SYS_TX_HASH_2_BLOCK (toHex h) (tx_row B num i)) (\<lambda>_. returnM ()))) f = (Inr (), f1)
    \<and> only_table SYS_TX_HASH_2_BLOCK t1 f f1 \<and> m_tableInfo t1 = m_tableInfo t
    \<and> (\<forall>i < length hs. wrote B (toHex (hs ! i)) (\<lambda>e. e = tx_row B num (k + i)) t1)
    \<and> (\<forall>j. j \<notin> toHex ` set hs \<longrightarrow> map_of (m_cache t1) j = map_of (m_cache t) j)"
  using assms(6,2-4,7,8)
proof (induction txs hs arbitrary: k f t rule: list_all2_induct)
  case Nil
  then show ?case by (auto simp: run_simps only_table_def intro!: exI [of _ t])
next
  case (Cons tx txs h hs)
  obtain tx' where h: "tx_sha3 C tx True = Inr (h, tx')" using Cons.hyps by blast
  have row: "row_ok B (tx_row B num k)" using assms(5) by (simp add: row_ok_def)
  have name: "ti_name (m_tableInfo t) = SYS_TX_HASH_2_BLOCK" using Cons.prems(3) by (simp add: table_info_names)
  have un0: "unused B L d SYS_TX_HASH_2_BLOCK t (toHex h)" by (rule Cons.prems(5)) simp
  obtain f1 t1 where i: "t_insert (ldb B L d) SYS_TX_HASH_2_BLOCK (toHex h) (tx_row B num k) f = (Inr 1, f1)" "only_table SYS_TX_HASH_2_BLOCK t1 f f1"
      "m_tableInfo t1 = m_tableInfo t" "wrote B (toHex h) (\<lambda>x. x = tx_row B num k) t1" "\<forall>j. j \<noteq> toHex h \<longrightarrow> map_of (m_cache t1) j = map_of (m_cache t) j"
    by (rule run_insert_unused [OF assms(1) Cons.prems(1,2) accepts_tx_row [OF Cons.prems(3)] row name un0])
  have f1: "factory_ok f1" "map_of (m_name2Table f1) SYS_TX_HASH_2_BLOCK = Some t1" using i(2) by (simp_all add: only_table_def)
  have un: "unused B L d SYS_TX_HASH_2_BLOCK t1 (toHex h')" if "h' \<in> set hs" for h'
    using Cons.prems(4) Cons.prems(5) [of h'] that i(5) by (auto simp: unused_def dest: toHex_inj)
  obtain f2 t2 where r: "forM (enumerate (Suc k) txs) (\<lambda>(i, tx). bindM (liftM (liftT (tx_sha3 C tx True))) (\<lambda>(h, _).
        bindM (t_insert (ldb B L d) SYS_TX_HASH_2_BLOCK (toHex h) (tx_row B num i)) (\<lambda>_. returnM ()))) f1 = (Inr (), f2)"
      "only_table SYS_TX_HASH_2_BLOCK t2 f1 f2" "m_tableInfo t2 = m_tableInfo t1"
      "\<forall>i < length hs. wrote B (toHex (hs ! i)) (\<lambda>e. e = tx_row B num (Suc k + i)) t2"
      "\<forall>j. j \<notin> toHex ` set hs \<longrightarrow> map_of (m_cache t2) j = map_of (m_cache t1) j"
    using Cons.IH [OF f1 _ _ un, of "Suc k"] Cons.prems(3,4) i(3) by auto
  have "toHex h \<notin> toHex ` set hs" using Cons.prems(4) by (auto dest: toHex_inj)
  then have "wrote B (toHex h) (\<lambda>e. e = tx_row B num k) t2" using r(5) i(4) by (auto simp: wrote_def)
  then have "wrote B (toHex ((h # hs) ! i)) (\<lambda>e. e = tx_row B num (k + i)) t2" if "i < length (h # hs)" for i
    using r(4) that by (cases i) auto
  moreover have "map_of (m_cache t2) j = map_of (m_cache t) j" if "j \<notin> toHex ` set (h # hs)" for j using r(5) i(5) that by simp
  moreover have "only_table SYS_TX_HASH_2_BLOCK t2 f f2" by (rule only_table_trans [OF i(2) r(2)])
  moreover have "bindM (liftM (liftT (tx_sha3 C tx True))) (\<lambda>(h, _).
      bindM (t_insert (ldb B L d) SYS_TX_HASH_2_BLOCK (toHex h) (tx_row B num k)) (\<lambda>_. returnM ())) f = (Inr (), f1)"
    using i(1) by (simp add: h bind_lift run_simps)
  ultimately show ?case using r(1,3) i(3) by (intro exI [of _ f2] exI [of _ t2]) (auto simp: run_bind)
qed

lemma writeTx_run:
  assumes "readable B L d" "factory_ok f" "sys_std SYS_TX_HASH_2_BLOCK f" "lex_uint32 B ''0'' = Some 0"
    and "list_all2 (\<lambda>tx h. \<exists>tx'. tx_sha3 C tx True = Inr (h, tx')) (m_transactions b) hs" "distinct hs"
    and "\<And>h. h \<in> set hs \<Longrightarrow> unused B L d SYS_TX_HASH_2_BLOCK (sys_tab SYS_TX_HASH_2_BLOCK f) (toHex h)"
  obtains f1 t1 where "writeTxToBlock B C (ldb B L d) b f = (Inr (), f1)" "only_table SYS_TX_HASH_2_BLOCK t1 f f1"
    "\<forall>i < length hs. wrote B (toHex (hs ! i)) (\<lambda>e. e = tx_row B (m_number (m_blockHeader b)) i) t1"
proof -
  let ?t = "sys_tab SYS_TX_HASH_2_BLOCK f"
  define body where "body = forM (enumerate 0 (m_transactions b)) (\<lambda>(i, tx). bindM (liftM (liftT (tx_sha3 C tx True))) (\<lambda>(h, _).
      bindM (t_insert (ldb B L d) SYS_TX_HASH_2_BLOCK (toHex h) (tx_row B (m_number (m_blockHeader b)) i)) (\<lambda>_. returnM ())))"
  obtain f0 where f0: "open_sys B (ldb B L d) SYS_TX_HASH_2_BLOCK body f = body f0" "only_table SYS_TX_HASH_2_BLOCK ?t f f0" "factory_ok f0"
      "map_of (m_name2Table f0) SYS_TX_HASH_2_BLOCK = Some ?t" by (rule open_sys_run [OF chain_tables(4) assms(2)])
  obtain f1 t1 where r: "body f0 = (Inr (), f1)" "only_table SYS_TX_HASH_2_BLOCK t1 f0 f1"
      "\<forall>i < length hs. wrote B (toHex (hs ! i)) (\<lambda>e. e = tx_row B (m_number (m_blockHeader b)) i) t1"
    using tx_loop_run [OF assms(1) f0(3,4) assms(3) [unfolded sys_std_def] assms(4-7), where k = 0 and num = "m_number (m_blockHeader b)"] unfolding body_def by auto
  have "writeTxToBlock B C (ldb B L d) b f = (Inr (), f1)" using f0(1) r(1) by (simp add: writeTxToBlock_def body_def)
  from that [OF this only_table_trans [OF f0(2) r(2)] r(3)] show ?thesis .
qed

lemma put_sys_run:
  assumes "readable B L d" "factory_ok f" "name \<in> set m_sysTables" "sys_std name f" "mt_accepts (hash_zero 20) (sys_tab name f) e" "row_ok B e"
    and "unused B L d name (sys_tab name f) key"
  obtains f1 t1 where "open_sys B (ldb B L d) name (bindM (t_insert (ldb B L d) name key e) k) f = k 1 f1" "only_table name t1 f f1"
    "wrote B key (\<lambda>x. x = e) t1" "\<forall>j. j \<noteq> key \<longrightarrow> map_of (m_cache t1) j = map_of (m_cache (sys_tab name f)) j"
proof -
  obtain f0 where f0: "open_sys B (ldb B L d) name (bindM (t_insert (ldb B L d) name key e) k) f = bindM (t_insert (ldb B L d) name key e) k f0"
      "only_table name (sys_tab name f) f f0" "factory_ok f0" "map_of (m_name2Table f0) name = Some (sys_tab name f)"
    by (rule open_sys_run [OF assms(3,2)])
  have nm: "ti_name (m_tableInfo (sys_tab name f)) = name" using assms(4) by (simp add: sys_std_def table_info_names)
  obtain f1 t1 where i: "t_insert (ldb B L d) name key e f0 = (Inr 1, f1)" "only_table name t1 f0 f1" "m_tableInfo t1 = m_tableInfo (sys_tab name f)"
      "wrote B key (\<lambda>x. x = e) t1" "\<forall>j. j \<noteq> key \<longrightarrow> map_of (m_cache t1) j = map_of (m_cache (sys_tab name f)) j"
    by (rule run_insert_unused [OF assms(1) f0(3,4) assms(5,6) nm assms(7)])
  show ?thesis by (rule that [OF _ only_table_trans [OF f0(2) i(2)] i(4,5)]) (use f0(1) i(1) in \<open>simp add: bindM_def\<close>)
qed

lemma writeNumber2Hash_run:
  assumes "readable B L d" "factory_ok f" "sys_std SYS_NUMBER_2_HASH f" "lex_uint32 B ''0'' = Some 0"
    and "header_hash C (m_blockHeader b) = Inr (h, hdr)"
    and "unused B L d SYS_NUMBER_2_HASH (sys_tab SYS_NUMBER_2_HASH f) (lex_show B (m_number (m_blockHeader b)))"
  obtains f1 t1 where "writeNumber2Hash B C (ldb B L d) b f = (Inr (b\<lparr>m_blockHeader := hdr\<rparr>), f1)" "only_table SYS_NUMBER_2_HASH t1 f f1"
    "wrote B (lex_show B (m_number (m_blockHeader b))) (\<lambda>x. x = value_row (toHex h)) t1"
    "\<forall>j. j \<noteq> lex_show B (m_number (m_blockHeader b)) \<longrightarrow> map_of (m_cache t1) j = map_of (m_cache (sys_tab SYS_NUMBER_2_HASH f)) j"
proof (rule put_sys_run [OF assms(1,2) chain_tables(2) assms(3) accepts_value_row(2) [OF assms(3) [unfolded sys_std_def]] row_ok_value_row [OF assms(4)]
      assms(6), where k = "\<lambda>_. returnM (b\<lparr>m_blockHeader := hdr\<rparr>)" and v1 = "toHex h"])
qed (use that assms(5) in \<open>simp add: writeNumber2Hash_def bind_lift run_simps\<close>)

lemma writeHash2Block_run:
  assumes "readable B L d" "factory_ok f" "sys_std SYS_HASH_2_BLOCK f" "lex_uint32 B ''0'' = Some 0"
    and "block_encode C b = Inr (out, b1)" "header_hash C (m_blockHeader b1) = Inr (h, hdr)"
    and "unused B L d SYS_HASH_2_BLOCK (sys_tab SYS_HASH_2_BLOCK f) (toHex h)"
  obtains f1 t1 where "writeHash2Block B C (ldb B L d) b f = (Inr (b1\<lparr>m_blockHeader := hdr\<rparr>), f1)" "only_table SYS_HASH_2_BLOCK t1 f f1"
    "wrote B (toHex h) (\<lambda>x. x = value_row (toHexPrefixed out)) t1"
proof (rule put_sys_run [OF assms(1,2) chain_tables(3) assms(3) accepts_value_row(3) [OF assms(3) [unfolded sys_std_def]] row_ok_value_row [OF assms(4)]
      assms(7), where k = "\<lambda>_. returnM (b1\<lparr>m_blockHeader := hdr\<rparr>)" and v1 = "toHexPrefixed out"])
qed (use that assms(5,6) in \<open>simp add: writeHash2Block_def bind_lift run_simps\<close>)

section \<open>All writes of a block\<close>

text \<open>
  What the writes need: the data base can be read, the block is well formed, the factory is, it has not opened the tables of the chain, the
  names of its tables are told apart from theirs in storage keys, and the number of the block, its hash and the
  hashes \<open>hs\<close> of its transactions are new to the data base.
\<close>

definition chain_names :: "string list" where
  "chain_names = [SYS_CURRENT_STATE, SYS_TX_HASH_2_BLOCK, SYS_NUMBER_2_HASH, SYS_HASH_2_BLOCK]"

definition block_hash :: "crypto \<Rightarrow> block \<Rightarrow> bytes" where
  "block_hash C b = sha3 C (header_bytes (m_blockHeader b))"

definition commit_pre :: "boost \<Rightarrow> crypto \<Rightarrow> 'd leveldb \<Rightarrow> 'd \<Rightarrow> table_factory \<Rightarrow> block \<Rightarrow> bytes list \<Rightarrow> bool" where
  "commit_pre B C L d f b hs \<longleftrightarrow>
     readable B L d \<and> block_wf C b \<and> factory_ok f
     \<and> (\<forall>u \<in> fst ` set (m_name2Table f). u \<notin> set chain_names \<and> (\<forall>name \<in> set chain_names. apart name u))
     \<and> db_rows B L d SYS_NUMBER_2_HASH (lex_show B (m_number (m_blockHeader b))) = []
     \<and> db_rows B L d SYS_HASH_2_BLOCK (toHex (block_hash C b)) = []
     \<and> list_all2 (\<lambda>tx h. \<exists>tx'. tx_sha3 C tx True = Inr (h, tx')) (m_transactions b) hs \<and> distinct hs
     \<and> (\<forall>h \<in> set hs. db_rows B L d SYS_TX_HASH_2_BLOCK (toHex h) = [])"

lemma chain_names_distinct:
  "SYS_CURRENT_STATE \<noteq> SYS_TX_HASH_2_BLOCK" "SYS_CURRENT_STATE \<noteq> SYS_NUMBER_2_HASH" "SYS_CURRENT_STATE \<noteq> SYS_HASH_2_BLOCK"
  "SYS_TX_HASH_2_BLOCK \<noteq> SYS_NUMBER_2_HASH" "SYS_TX_HASH_2_BLOCK \<noteq> SYS_HASH_2_BLOCK" "SYS_NUMBER_2_HASH \<noteq> SYS_HASH_2_BLOCK"
  by (simp_all add: sys_names)

lemma chain_names_apart: "name \<in> set chain_names \<Longrightarrow> u \<in> set chain_names \<Longrightarrow> u \<noteq> name \<Longrightarrow> apart name u"
  by (auto simp: chain_names_def) (simp_all add: apart_def sys_names)

lemma header_hash_idem: "header_hash C h = Inr (v, h') \<Longrightarrow> header_hash C h' = Inr (v, h')"
  by (auto simp: header_hash_def result_simps Let_def split: if_splits)

lemma block_wf_memo: "block_wf C b \<Longrightarrow> m_blockHeader b' = (m_blockHeader b)\<lparr>m_hash := block_hash C b\<rparr> \<Longrightarrow>
    b' = b\<lparr>m_blockHeader := m_blockHeader b'\<rparr> \<Longrightarrow> block_wf C b'"
  by (cases b; cases b')
    (auto simp: block_wf_def block_items_def header_bytes_def header_items_def header_wf_def memo_ok_def block_hash_def header_encode_items)

lemma block_wf_hash:
  assumes "block_wf C b"
  shows "header_hash C (m_blockHeader b) = Inr (block_hash C b, (m_blockHeader b)\<lparr>m_hash := block_hash C b\<rparr>)"
  using assms block_parts(4) [OF assms] unfolding block_hash_def by (intro hashOf_memo_ok) (simp_all add: block_wf_def)

lemma liftR_eq_Inr: "liftR m = Inr x \<longleftrightarrow> m = Inr x"
  by (cases m) (simp_all add: liftR_def)

lemma block_encode_header:
  assumes "block_encode C b = Inr (out, b1)"
  shows "\<exists>v. header_hash C (m_blockHeader b) = Inr (v, m_blockHeader b1)"
proof -
  have tr: "calTransactionRoot C False b = Inr x \<Longrightarrow> m_blockHeader x = m_blockHeader b" for b x
    by (auto simp: calTransactionRoot_def result_simps split: if_splits)
  have rr: "calReceiptRoot C False b = Inr x \<Longrightarrow> m_blockHeader x = m_blockHeader b" for b x
    by (auto simp: calReceiptRoot_def result_simps split: if_splits)
  obtain x y v hdr where "calTransactionRoot C False b = Inr x" "calReceiptRoot C False x = Inr y" "header_hash C (m_blockHeader y) = Inr (v, hdr)"
      "b1 = y\<lparr>m_blockHeader := hdr\<rparr>"
    using assms unfolding block_encode_def bindE_eq_Inr liftR_eq_Inr by (auto simp: bindE_eq_Inr)
  then show ?thesis using tr rr by auto
qed

lemma unopened:
  assumes "commit_pre B C L d f b hs" "name \<in> set chain_names"
  shows "sys_tab name f = new_table (add_std_fields (getSysTableInfo name)) f" "sys_std name f" "m_cache (sys_tab name f) = []"
proof -
  have "map_of (m_name2Table f) name = None" using assms by (auto simp: commit_pre_def map_of_eq_None_iff)
  then show "sys_tab name f = new_table (add_std_fields (getSysTableInfo name)) f" "sys_std name f" "m_cache (sys_tab name f) = []"
    by (simp_all add: sys_tab_def sys_std_def new_table_def)
qed

lemma writeAll_run:
  assumes "commit_pre B C L d f b hs" "\<And>x. length (sha3 C x) = 32" "lex_uint32 B ''0'' = Some 0"
    and "case db_rows B L d SYS_CURRENT_STATE SYS_KEY_TOTAL_TRANSACTION_COUNT of [] \<Rightarrow> c = 0 | e # _ \<Rightarrow> lex_int64 B (getField SYS_VALUE e) = Some c"
  obtains b1 f1 tS tT tN tH where "writeAll B C (ldb B L d) b f = (Inr b1, f1)" "factory_ok f1"
    "map_of (m_name2Table f1) = (map_of (m_name2Table f))(SYS_CURRENT_STATE \<mapsto> tS, SYS_TX_HASH_2_BLOCK \<mapsto> tT, SYS_NUMBER_2_HASH \<mapsto> tN, SYS_HASH_2_BLOCK \<mapsto> tH)"
    "header_hash C (m_blockHeader b1) = Inr (block_hash C b, m_blockHeader b1)" "m_number (m_blockHeader b1) = m_number (m_blockHeader b)"
    "wrote B SYS_KEY_CURRENT_NUMBER (\<lambda>e. getField SYS_VALUE e = lex_show B (m_number (m_blockHeader b))) tS"
    "wrote B SYS_KEY_TOTAL_TRANSACTION_COUNT (\<lambda>e. getField SYS_VALUE e = lex_show B (wrap_int64 (c + int (length (m_transactions b))))) tS"
    "\<forall>i < length hs. wrote B (toHex (hs ! i)) (\<lambda>e. e = tx_row B (m_number (m_blockHeader b)) i) tT"
    "wrote B (lex_show B (m_number (m_blockHeader b))) (\<lambda>e. e = value_row (toHex (block_hash C b))) tN"
    "wrote B (toHex (block_hash C b)) (\<lambda>e. e = value_row (toHexPrefixed (enc_list (concat (block_items C b))))) tH"
    "\<forall>j. j \<noteq> lex_show B (m_number (m_blockHeader b)) \<longrightarrow> map_of (m_cache tN) j = None"
proof -
  note pre = assms(1) [unfolded commit_pre_def]
  have rd: "readable B L d" and wf: "block_wf C b" and ok: "factory_ok f" using pre by auto
  note un = unopened [OF assms(1)] and ne = chain_names_distinct chain_names_distinct [symmetric]
  let ?hdr = "(m_blockHeader b)\<lparr>m_hash := block_hash C b\<rparr>" and ?n = "m_number (m_blockHeader b)"
  obtain f1 t1 where w1: "writeNumber B (ldb B L d) b f = (Inr (), f1)" "only_table SYS_CURRENT_STATE t1 f f1"
      "m_tableInfo t1 = m_tableInfo (sys_tab SYS_CURRENT_STATE f)" "wrote B SYS_KEY_CURRENT_NUMBER (\<lambda>e. getField SYS_VALUE e = lex_show B ?n) t1"
      "\<forall>k. k \<noteq> SYS_KEY_CURRENT_NUMBER \<longrightarrow> map_of (m_cache t1) k = map_of (m_cache (sys_tab SYS_CURRENT_STATE f)) k"
    by (rule writeNumber_run [OF rd ok _ assms(3), of b]) (simp_all add: un(2,3) chain_names_def)
  note t1 = only_table_tab [OF w1(2)]
  have f1: "factory_ok f1" using w1(2) by (simp add: only_table_def)
  have std1: "sys_std SYS_CURRENT_STATE f1" using w1(3) un(2) [of SYS_CURRENT_STATE] by (simp add: sys_std_def t1 chain_names_def)
  have keys: "SYS_KEY_TOTAL_TRANSACTION_COUNT \<noteq> SYS_KEY_CURRENT_NUMBER" by (simp add: sys_names)
  then have "map_of (m_cache (sys_tab SYS_CURRENT_STATE f1)) SYS_KEY_TOTAL_TRANSACTION_COUNT = None" using w1(5) un(3) [of SYS_CURRENT_STATE]
    by (simp add: t1 chain_names_def)
  then obtain f2 t2 where w2: "writeTotalTransactionCount B (ldb B L d) b f1 = (Inr (), f2)" "only_table SYS_CURRENT_STATE t2 f1 f2"
      "wrote B SYS_KEY_TOTAL_TRANSACTION_COUNT (\<lambda>e. getField SYS_VALUE e = lex_show B (wrap_int64 (c + int (length (m_transactions b))))) t2"
      "\<forall>k. k \<noteq> SYS_KEY_TOTAL_TRANSACTION_COUNT \<longrightarrow> map_of (m_cache t2) k = map_of (m_cache t1) k"
    using writeTotal_run [OF rd f1 std1 assms(3) _ _ assms(4), of b] wf unfolding t1 block_wf_def by blast
  have cur: "wrote B SYS_KEY_CURRENT_NUMBER (\<lambda>e. getField SYS_VALUE e = lex_show B ?n) t2" using w1(4) w2(4) keys by (simp add: wrote_def)
  have f2: "factory_ok f2" using w2(2) by (simp add: only_table_def)
  have same2: "sys_tab u f2 = sys_tab u f" if "u \<noteq> SYS_CURRENT_STATE" for u
    using only_table_other [OF w1(2) that] only_table_other [OF w2(2) that] by simp
  have stdT: "sys_std SYS_TX_HASH_2_BLOCK f2" using un(2) [of SYS_TX_HASH_2_BLOCK] by (simp add: sys_std_def same2 ne chain_names_def)
  have "unused B L d SYS_TX_HASH_2_BLOCK (sys_tab SYS_TX_HASH_2_BLOCK f2) (toHex h)" if "h \<in> set hs" for h
    using pre that un(3) [of SYS_TX_HASH_2_BLOCK] by (simp add: unused_def same2 ne chain_names_def)
  moreover have "list_all2 (\<lambda>tx h. \<exists>tx'. tx_sha3 C tx True = Inr (h, tx')) (m_transactions b) hs" "distinct hs" using pre by auto
  ultimately obtain f3 t3 where w3: "writeTxToBlock B C (ldb B L d) b f2 = (Inr (), f3)" "only_table SYS_TX_HASH_2_BLOCK t3 f2 f3"
      "\<forall>i < length hs. wrote B (toHex (hs ! i)) (\<lambda>e. e = tx_row B ?n i) t3"
    using writeTx_run [OF rd f2 stdT assms(3)] by blast
  have f3: "factory_ok f3" using w3(2) by (simp add: only_table_def)
  have same3: "sys_tab u f3 = sys_tab u f" if "u \<noteq> SYS_CURRENT_STATE" "u \<noteq> SYS_TX_HASH_2_BLOCK" for u
    using only_table_other [OF w3(2) that(2)] same2 [OF that(1)] by simp
  have "unused B L d SYS_NUMBER_2_HASH (sys_tab SYS_NUMBER_2_HASH f3) (lex_show B ?n)" "sys_std SYS_NUMBER_2_HASH f3"
    using pre un(2,3) [of SYS_NUMBER_2_HASH] by (simp_all add: unused_def sys_std_def same3 ne chain_names_def)
  then obtain f4 t4 where w4: "writeNumber2Hash B C (ldb B L d) b f3 = (Inr (b\<lparr>m_blockHeader := ?hdr\<rparr>), f4)" "only_table SYS_NUMBER_2_HASH t4 f3 f4"
      "wrote B (lex_show B ?n) (\<lambda>x. x = value_row (toHex (block_hash C b))) t4"
      "\<forall>j. j \<noteq> lex_show B ?n \<longrightarrow> map_of (m_cache t4) j = map_of (m_cache (sys_tab SYS_NUMBER_2_HASH f3)) j"
    using writeNumber2Hash_run [OF rd f3 _ assms(3) block_wf_hash [OF wf]] by blast
  have f4: "factory_ok f4" using w4(2) by (simp add: only_table_def)
  let ?b = "b\<lparr>m_blockHeader := ?hdr\<rparr>"
  have wf': "block_wf C ?b" by (rule block_wf_memo [OF wf]) simp_all
  have same: "block_hash C ?b = block_hash C b" "block_items C ?b = block_items C b"
    by (simp_all add: block_hash_def block_items_def header_bytes_def header_items_def)
  obtain b1 where enc: "block_encode C ?b = Inr (enc_list (concat (block_items C b)), b1)"
    using block_encode_items [OF wf' assms(2)] same(2) by auto
  then have hdr: "m_blockHeader b1 = ?hdr" using block_encode_header [OF enc] block_wf_hash [OF wf'] same(1) by auto
  have hash: "header_hash C (m_blockHeader b1) = Inr (block_hash C b, ?hdr)" using block_wf_hash [OF wf'] same(1) by (simp add: hdr)
  have "unused B L d SYS_HASH_2_BLOCK (sys_tab SYS_HASH_2_BLOCK f4) (toHex (block_hash C b))" "sys_std SYS_HASH_2_BLOCK f4"
    using pre un(2,3) [of SYS_HASH_2_BLOCK] only_table_other [OF w4(2), of SYS_HASH_2_BLOCK]
    by (simp_all add: unused_def sys_std_def same3 ne chain_names_def)
  then obtain f5 t5 where w5: "writeHash2Block B C (ldb B L d) ?b f4 = (Inr (b1\<lparr>m_blockHeader := ?hdr\<rparr>), f5)" "only_table SYS_HASH_2_BLOCK t5 f4 f5"
      "wrote B (toHex (block_hash C b)) (\<lambda>x. x = value_row (toHexPrefixed (enc_list (concat (block_items C b))))) t5"
    using writeHash2Block_run [OF rd f4 _ assms(3) enc hash] by blast
  have "writeAll B C (ldb B L d) b f = (Inr (b1\<lparr>m_blockHeader := ?hdr\<rparr>), f5)"
    using w1(1) w2(1) w3(1) w4(1) w5(1) by (simp add: writeAll_def writeBlockInfo_def seqM_def bindM_def)
  moreover have "map_of (m_name2Table f5) = (map_of (m_name2Table f))(SYS_CURRENT_STATE \<mapsto> t2, SYS_TX_HASH_2_BLOCK \<mapsto> t3, SYS_NUMBER_2_HASH \<mapsto> t4, SYS_HASH_2_BLOCK \<mapsto> t5)"
    using w1(2) w2(2) w3(2) w4(2) w5(2) by (simp add: only_table_def)
  moreover have "factory_ok f5" using w5(2) by (simp add: only_table_def)
  moreover have "\<forall>j. j \<noteq> lex_show B ?n \<longrightarrow> map_of (m_cache t4) j = None" using w4(4) un(3) [of SYS_NUMBER_2_HASH] same3 [of SYS_NUMBER_2_HASH]
    by (simp add: ne chain_names_def)
  ultimately show ?thesis using hash hdr cur w2(3) w3(3) w4(3) w5(3) by (intro that [of "b1\<lparr>m_blockHeader := ?hdr\<rparr>" f5 t2 t3 t4 t5]) simp_all
qed

section \<open>Reading after the commit\<close>

lemma read_sys:
  assumes "name \<in> set m_sysTables"
  shows "read_table B (LevelDBStorage B L) d name False key = Inr (db_rows B L d name key)"
proof -
  have ok: "factory_ok MemoryTableFactory" by (simp add: factory_ok_def MemoryTableFactory_def)
  obtain f1 where o: "t_open B (ldb B L d) name False MemoryTableFactory = (Inr True, f1)"
      "only_table name (sys_tab name MemoryTableFactory) MemoryTableFactory f1" by (rule run_open [OF assms ldb_ok ok])
  have t: "m_cache (sys_tab name MemoryTableFactory) = []" "ti_name (m_tableInfo (sys_tab name MemoryTableFactory)) = name"
    by (simp_all add: sys_tab_def MemoryTableFactory_def new_table_def table_info_names)
  have "map_of (m_name2Table f1) name = Some (sys_tab name MemoryTableFactory)" using o(2) by (simp add: only_table_def)
  then have "fst (t_select B (ldb B L d) name key f1) = Inr (fst (mt_select B (ldb B L d) key Condition (sys_tab name MemoryTableFactory)))"
    by (simp add: t_select_def updateM_def f_select_def split: prod.splits)
  also have "\<dots> = Inr (db_rows B L d name key)" by (simp add: select_rows(1) mt_rows_db t)
  finally show ?thesis using o(1) by (simp add: read_table_def bindM_def)
qed

lemma f_select_names: "fst ` set (m_name2Table (snd (f_select B R name key c f))) = fst ` set (m_name2Table f)"
  by (auto simp: f_select_def split: option.splits prod.splits dest: map_of_SomeD intro: rev_image_eqI)

lemma access_names: "fst ` set (m_name2Table (snd (openTable B R SYS_ACCESS_TABLE True MemoryTableFactory))) \<subseteq> {SYS_ACCESS_TABLE}"
  by (auto simp: openTable_split open_info_def open_register_def access_is_sys register_table_def keys_smap_insert MemoryTableFactory_def
      split: prod.splits sum.splits)

text \<open>With access control, if the table can be opened at all.\<close>

definition can_open :: "boost \<Rightarrow> 'd leveldb \<Rightarrow> 'd \<Rightarrow> string \<Rightarrow> bool" where
  "can_open B L d name \<longleftrightarrow> fst (openTable B (ldb B L d) name True MemoryTableFactory) = Inr True"

lemma read_sys_auth:
  assumes "name \<in> set m_sysTables" "name \<noteq> SYS_ACCESS_TABLE" "can_open B L d name"
  shows "read_table B (LevelDBStorage B L) d name True key = Inr (db_rows B L d name key)"
proof -
  let ?R = "ldb B L d" and ?info = "add_std_fields (getSysTableInfo name)"
  obtain r f2 where a: "openTable B ?R SYS_ACCESS_TABLE True MemoryTableFactory = (r, f2)"
    by (cases "openTable B ?R SYS_ACCESS_TABLE True MemoryTableFactory")
  obtain es f3 where s: "f_select B ?R SYS_ACCESS_TABLE name Condition f2 = (es, f3)" by (cases "f_select B ?R SYS_ACCESS_TABLE name Condition f2")
  have "map_of (m_name2Table f3) name = None"
    using access_names [of B ?R] f_select_names [of B ?R SYS_ACCESS_TABLE name Condition f2] a s assms(2) by (auto simp: map_of_eq_None_iff)
  moreover have "openTable B ?R name True MemoryTableFactory = open_register B ?R name True ?info MemoryTableFactory"
    using assms(1) by (simp add: openTable_split [of B ?R name] open_info_def) (simp add: MemoryTableFactory_def)
  ultimately obtain addrs f1 where o: "openTable B ?R name True MemoryTableFactory = (Inr True, f1)"
      "map_of (m_name2Table f1) name = Some ((new_table ?info MemoryTableFactory)\<lparr>m_tableInfo := ?info\<lparr>authorizedAddress := addrs\<rparr>\<rparr>)"
    using assms(2,3) a s
    by (auto simp: can_open_def open_register_def table_info_names register_table_def smap_insert_def split: sum.splits)
  let ?t = "(new_table ?info MemoryTableFactory)\<lparr>m_tableInfo := ?info\<lparr>authorizedAddress := addrs\<rparr>\<rparr>"
  have "fst (t_select B ?R name key f1) = Inr (fst (mt_select B ?R key Condition ?t))"
    using o(2) by (simp add: t_select_def updateM_def f_select_def split: prod.splits)
  also have "\<dots> = Inr (db_rows B L d name key)" by (simp add: select_rows(1) mt_rows_db new_table_def table_info_names)
  finally show ?thesis using o(1) by (simp add: read_table_def bindM_def t_open_def)
qed

lemma wrote_visible:
  assumes "leveldb_ok L" "factory_ok f" "commitDB B (LevelDBStorage B L) h n f d = (Inr (), f', d')" "map_of (m_name2Table f) name = Some t"
    and "\<And>u. u \<in> fst ` set (m_name2Table f) \<Longrightarrow> u \<noteq> name \<Longrightarrow> apart name u" "wrote B key P t"
  obtains e rest where "db_rows B L d' name key = stored_entry L h n e # rest" "P e" "row_ok B e"
proof -
  obtain es where es: "map_of (m_cache t) key = Some es" "m_entries es \<noteq> []" "es_dirty es" "list_all (row_ok B) (m_entries es)" "P (hd (m_entries es))"
    using assms(6) by (auto simp: wrote_def)
  have "db_rows B L d' name key = map (stored_entry L h n) (m_entries es)"
    using commitDB_visible [OF assms(1-5) es(1-4), of "[]" 0] by (simp add: db_rows_def)
  then show ?thesis using that [of "hd (m_entries es)" "map (stored_entry L h n) (tl (m_entries es))"] es by (cases "m_entries es") auto
qed

lemma stored_value: "row_ok B e \<Longrightarrow> getField SYS_VALUE (stored_entry L h n e) = getField SYS_VALUE e"
  "row_ok B e \<Longrightarrow> getField ''index'' (stored_entry L h n e) = getField ''index'' e"
  "row_ok B e \<Longrightarrow> getField ''_num_'' (stored_entry L h n e) = json_int L n"
  by (simp_all add: row_ok_def getField_stored_entry SYS_VALUE_def STATUS_def) (simp add: getField_def fields_stored_entry)

text \<open>What \<open>boost::lexical_cast\<close> and the JSON library do with numbers.\<close>

definition numbers_ok :: "boost \<Rightarrow> 'd leveldb \<Rightarrow> bool" where
  "numbers_ok B L \<longleftrightarrow> lex_uint32 B ''0'' = Some 0 \<and> (\<forall>n. lex_int64 B (lex_show B n) = Some n) \<and> (\<forall>n. lex_int64 B (json_int L n) = Some n)
     \<and> (\<forall>n. lex_uint32 B (lex_show B (int n)) = Some n)"

lemma total_count_row:
  assumes "totalTransactionCount B (LevelDBStorage B L) d = Inr (c, m)"
  shows "case db_rows B L d SYS_CURRENT_STATE SYS_KEY_TOTAL_TRANSACTION_COUNT of [] \<Rightarrow> c = 0 | e # _ \<Rightarrow> lex_int64 B (getField SYS_VALUE e) = Some c"
  using assms by (auto simp: totalTransactionCount_def read_sys [OF chain_tables(1)] result_simps cast_def split: list.splits option.splits)

definition first_row :: "boost \<Rightarrow> 'd leveldb \<Rightarrow> 'd \<Rightarrow> string \<Rightarrow> string \<Rightarrow> (entry \<Rightarrow> bool) \<Rightarrow> bool" where
  "first_row B L d name key P \<longleftrightarrow> (\<exists>e rest. db_rows B L d name key = e # rest \<and> P e)"

text \<open>A successful \<open>commitBlock\<close> ran all writes and both commits.\<close>

lemma commitBlock_OK:
  assumes "commitBlock B C S sc b w = (Inr CommitOK, w', sig)"
  obtains num b1 f1 h hdr s1 f2 where "number B S (w_data w) = Inr num" "m_number (m_blockHeader b) = wrap_int64 (num + 1)"
    "numberHash B S (w_data w) num = Inr (m_parentHash (m_blockHeader b))" "\<not> commitMutex (w_chain w)"
    "writeAll B C (remote_of S (w_data w)) b (w_factory w) = (Inr b1, f1)" "header_hash C (m_blockHeader b1) = Inr (h, hdr)"
    "sc h (m_number (m_blockHeader b1)) (w_state w) = (Inr (), s1)"
    "commitDB B S h (m_number (m_blockHeader b1)) f1 (w_data w) = (Inr (), f2, w_data w')" "\<not> commitMutex (w_chain w')" "sig"
  using assms
  by (auto simp: commitBlock_def context_dbCommit_def Let_def split: sum.splits if_splits prod.splits client_error.splits)
    (auto simp: liftS_def split: sum.splits)

lemma commit_rows:
  assumes "leveldb_ok L" "numbers_ok B L" "\<And>x. length (sha3 C x) = 32" "commit_pre B C L (w_data w) (w_factory w) b hs"
    and "totalTransactionCount B (LevelDBStorage B L) (w_data w) = Inr (c, m)" "commitBlock B C (LevelDBStorage B L) sc b w = (Inr CommitOK, w', sig)"
    and "n = m_number (m_blockHeader b)" "d' = w_data w'"
  shows "first_row B L d' SYS_CURRENT_STATE SYS_KEY_CURRENT_NUMBER (\<lambda>e. getField SYS_VALUE e = lex_show B n)"
    and "first_row B L d' SYS_CURRENT_STATE SYS_KEY_TOTAL_TRANSACTION_COUNT
      (\<lambda>e. getField SYS_VALUE e = lex_show B (wrap_int64 (c + int (length (m_transactions b)))) \<and> getField ''_num_'' e = json_int L n)"
    and "i < length hs \<Longrightarrow> first_row B L d' SYS_TX_HASH_2_BLOCK (toHex (hs ! i)) (\<lambda>e. getField SYS_VALUE e = lex_show B n \<and> getField ''index'' e = lex_show B (int i))"
    and "first_row B L d' SYS_NUMBER_2_HASH (lex_show B n) (\<lambda>e. getField SYS_VALUE e = toHex (block_hash C b))"
    and "first_row B L d' SYS_HASH_2_BLOCK (toHex (block_hash C b)) (\<lambda>e. getField SYS_VALUE e = toHexPrefixed (enc_list (concat (block_items C b))))"
    and "j \<noteq> lex_show B n \<Longrightarrow> db_rows B L d' SYS_NUMBER_2_HASH j = db_rows B L (w_data w) SYS_NUMBER_2_HASH j"
    and "(\<And>u. u \<in> fst ` set (m_name2Table (w_factory w)) \<union> set chain_names \<Longrightarrow> apart name u) \<Longrightarrow> db_rows B L d' name key = db_rows B L (w_data w) name key"
proof -
  have lex: "lex_uint32 B ''0'' = Some 0" using assms(2) by (simp add: numbers_ok_def)
  obtain b1 f1 tS tT tN tH where w: "writeAll B C (ldb B L (w_data w)) b (w_factory w) = (Inr b1, f1)" "factory_ok f1"
    "map_of (m_name2Table f1) = (map_of (m_name2Table (w_factory w)))(SYS_CURRENT_STATE \<mapsto> tS, SYS_TX_HASH_2_BLOCK \<mapsto> tT, SYS_NUMBER_2_HASH \<mapsto> tN, SYS_HASH_2_BLOCK \<mapsto> tH)"
    "header_hash C (m_blockHeader b1) = Inr (block_hash C b, m_blockHeader b1)" "m_number (m_blockHeader b1) = m_number (m_blockHeader b)"
    "wrote B SYS_KEY_CURRENT_NUMBER (\<lambda>e. getField SYS_VALUE e = lex_show B (m_number (m_blockHeader b))) tS"
    "wrote B SYS_KEY_TOTAL_TRANSACTION_COUNT (\<lambda>e. getField SYS_VALUE e = lex_show B (wrap_int64 (c + int (length (m_transactions b))))) tS"
    "\<forall>i < length hs. wrote B (toHex (hs ! i)) (\<lambda>e. e = tx_row B (m_number (m_blockHeader b)) i) tT"
    "wrote B (lex_show B (m_number (m_blockHeader b))) (\<lambda>e. e = value_row (toHex (block_hash C b))) tN"
    "wrote B (toHex (block_hash C b)) (\<lambda>e. e = value_row (toHexPrefixed (enc_list (concat (block_items C b))))) tH"
    "\<forall>j. j \<noteq> lex_show B (m_number (m_blockHeader b)) \<longrightarrow> map_of (m_cache tN) j = None"
    by (rule writeAll_run [OF assms(4,3) lex total_count_row [OF assms(5)]])
  obtain f2 where commit: "commitDB B (LevelDBStorage B L) (block_hash C b) n f1 (w_data w) = (Inr (), f2, d')"
    by (rule commitBlock_OK [OF assms(6)]) (use w(1,4,5) assms(7,8) in auto)
  have names: "fst ` set (m_name2Table f1) = fst ` set (m_name2Table (w_factory w)) \<union> set chain_names"
    using arg_cong [OF w(3), of dom] by (simp add: dom_map_of_conv_image_fst chain_names_def insert_commute Un_insert_left)
  have apart: "apart name u" if "name \<in> set chain_names" "u \<in> fst ` set (m_name2Table f1)" "u \<noteq> name" for name u
    using that assms(4) chain_names_apart [OF that(1) _ that(3)] unfolding names by (auto simp: commit_pre_def)
  have vis: "first_row B L d' name key Q" if "name \<in> set chain_names" "map_of (m_name2Table f1) name = Some t" "wrote B key P t"
      "\<And>e. row_ok B e \<Longrightarrow> P e \<Longrightarrow> Q (stored_entry L (block_hash C b) n e)" for name key P Q t
    by (rule wrote_visible [OF assms(1) w(2) commit that(2) apart [OF that(1)] that(3)]) (use that(4) in \<open>auto simp: first_row_def\<close>)
  note cn = chain_names_def and ne = chain_names_distinct
  show "first_row B L d' SYS_CURRENT_STATE SYS_KEY_CURRENT_NUMBER (\<lambda>e. getField SYS_VALUE e = lex_show B n)"
    by (rule vis [OF _ _ w(6)]) (simp_all add: cn w(3) ne stored_value assms(7))
  show "first_row B L d' SYS_CURRENT_STATE SYS_KEY_TOTAL_TRANSACTION_COUNT
      (\<lambda>e. getField SYS_VALUE e = lex_show B (wrap_int64 (c + int (length (m_transactions b)))) \<and> getField ''_num_'' e = json_int L n)"
    by (rule vis [OF _ _ w(7)]) (simp_all add: cn w(3) ne stored_value)
  show "first_row B L d' SYS_TX_HASH_2_BLOCK (toHex (hs ! i)) (\<lambda>e. getField SYS_VALUE e = lex_show B n \<and> getField ''index'' e = lex_show B (int i))"
    if "i < length hs" by (rule vis [OF _ _ w(8) [rule_format, OF that]]) (simp_all add: cn w(3) ne stored_value assms(7))
  show "first_row B L d' SYS_NUMBER_2_HASH (lex_show B n) (\<lambda>e. getField SYS_VALUE e = toHex (block_hash C b))"
    by (rule vis [OF _ _ w(9) [folded assms(7)]]) (simp_all add: cn w(3) ne stored_value)
  show "first_row B L d' SYS_HASH_2_BLOCK (toHex (block_hash C b)) (\<lambda>e. getField SYS_VALUE e = toHexPrefixed (enc_list (concat (block_items C b))))"
    by (rule vis [OF _ _ w(10)]) (simp_all add: cn w(3) ne stored_value)
  have tN: "map_of (m_name2Table f1) SYS_NUMBER_2_HASH = Some tN" using w(3) ne by simp
  show "db_rows B L d' SYS_NUMBER_2_HASH j = db_rows B L (w_data w) SYS_NUMBER_2_HASH j" if "j \<noteq> lex_show B n"
  proof -
    have "map_of (rev (committed (dirty_tables f1))) (entryKey SYS_NUMBER_2_HASH j) = None"
      using committed_at [OF w(2) tN apart] w(11) that assms(7) by (simp add: cn)
    from commitDB_untouched [OF assms(1) commit this, of "[]" 0] show ?thesis by (simp add: db_rows_def)
  qed
  show "db_rows B L d' name key = db_rows B L (w_data w) name key"
    if "\<And>u. u \<in> fst ` set (m_name2Table (w_factory w)) \<union> set chain_names \<Longrightarrow> apart name u"
  proof -
    have "(entryKey name key, es) \<notin> set (committed (dirty_tables f1))" for es
      using that apart_keys unfolding committed_member names [symmetric] by (force intro: rev_image_eqI)
    then have "map_of (rev (committed (dirty_tables f1))) (entryKey name key) = None" by (metis map_of_SomeD not_None_eq set_rev)
    from commitDB_untouched [OF assms(1) commit this, of "[]" 0] show ?thesis by (simp add: db_rows_def)
  qed
qed

section \<open>The chain after a commit\<close>


section \<open>The cache of blocks\<close>

text \<open>The queue lists the keys of the cache in the order of insertion, and there are at most 11 of them.\<close>

definition bcache_ok :: "blockchain \<Rightarrow> bool" where
  "bcache_ok c \<longleftrightarrow> distinct (m_blockCacheFIFO c) \<and> sorted_wrt (<) (map fst (m_blockCache c)) \<and> set (m_blockCacheFIFO c) = fst ` set (m_blockCache c)
     \<and> length (m_blockCache c) \<le> Suc c_blockCacheSize"

lemma length_amap_del:
  "distinct (map fst m) \<Longrightarrow> k \<in> fst ` set m \<Longrightarrow> Suc (length (amap_del k m)) = length m"
proof (induction m)
  case (Cons x m)
  show ?case
  proof (cases "fst x = k")
    case True
    then have "\<forall>x' \<in> set m. fst x' \<noteq> k" using Cons.prems(1) by (auto simp: rev_image_eqI)
    then have "amap_del k m = m" unfolding amap_del_def by (intro filter_True) (auto split: prod.splits)
    then show ?thesis using True by (auto simp: amap_del_def split: prod.splits)
  next
    case False
    then have "Suc (length (amap_del k m)) = length m" using Cons by auto
    then show ?thesis using False by (auto simp: amap_del_def split: prod.splits)
  qed
qed simp

lemma keys_amap_del: "fst ` set (amap_del k m) = fst ` set m - {k}"
  by (force simp: amap_del_def)

lemma cache_evict_ok:
  assumes "bcache_ok c"
  obtains c1 where "cache_evict c = Inr c1" "bcache_ok c1" "length (m_blockCache c1) \<le> c_blockCacheSize" "\<forall>h. cache_get h c = None \<longrightarrow> cache_get h c1 = None"
proof (cases "c_blockCacheSize < length (m_blockCache c)")
  case True
  then have "m_blockCache c \<noteq> []" by auto
  then obtain h hs where q: "m_blockCacheFIFO c = h # hs" using assms by (cases "m_blockCacheFIFO c") (auto simp: bcache_ok_def)
  have d: "distinct (map fst (m_blockCache c))" "h \<in> fst ` set (m_blockCache c)" "h \<notin> set hs"
    using assms q by (auto simp: bcache_ok_def strict_sorted_iff)
  have len: "Suc (length (amap_del h (m_blockCache c))) = length (m_blockCache c)" by (rule length_amap_del [OF d(1,2)])
  let ?c1 = "c\<lparr>m_blockCache := amap_del h (m_blockCache c), m_blockCacheFIFO := hs\<rparr>"
  have small: "length (amap_del h (m_blockCache c)) \<le> c_blockCacheSize" using len assms by (simp add: bcache_ok_def)
  have "set hs = fst ` set (amap_del h (m_blockCache c))" using assms q d(3) unfolding keys_amap_del bcache_ok_def by force
  then have "bcache_ok ?c1" using assms q small by (simp add: bcache_ok_def sorted_amap_del)
  moreover have "cache_evict c = Inr ?c1" using True q small by (simp add: cache_evict_def)
  ultimately show ?thesis using that [of ?c1] small by (simp add: cache_get_def)
qed (use that [of c] assms in \<open>simp add: cache_evict_def\<close>)

lemma cache_add_run:
  assumes "bcache_ok c" "header_hash C (m_blockHeader b) = Inr (h, m_blockHeader b)" "cache_get h c = None"
    and "b' = noteChange (block_new\<lparr>m_blockHeader := m_blockHeader b, m_transactions := m_transactions b,
            m_transactionReceipts := m_transactionReceipts b, m_sigList := m_sigList b, m_txsCache := m_txsCache b\<rparr>)"
  obtains c1 where "cache_add C b c = (Inr b', c1)" "bcache_ok c1" "cache_get h c1 = Some b'"
proof -
  obtain c1 where c1: "cache_evict c = Inr c1" "bcache_ok c1" "length (m_blockCache c1) \<le> c_blockCacheSize" "cache_get h c1 = None"
    using cache_evict_ok [OF assms(1)] assms(3) by metis
  have new: "map_of (m_blockCache c1) h = None" using c1(4) by (simp add: cache_get_def)
  let ?c2 = "c1\<lparr>m_blockCache := smap_insert h (b', h) (m_blockCache c1), m_blockCacheFIFO := m_blockCacheFIFO c1 @ [h]\<rparr>"
  have copy: "block_copy C b = Inr (b', b\<lparr>m_blockHeader := m_blockHeader b\<rparr>)"
    using header_copy_spec [OF assms(2)] header_hash_memo [OF assms(2)] by (simp add: block_copy_def assms(4))
  have len: "length (smap_set h v m) \<le> Suc (length m)" for v and m :: "(bytes \<times> block \<times> bytes) list"
    by (induction h v m rule: smap_set.induct) auto
  have "h \<notin> set (m_blockCacheFIFO c1)" using c1(2) new by (auto simp: bcache_ok_def map_of_eq_None_iff)
  then have "bcache_ok ?c2" using c1(2,3) new len [of "(b', h)" "m_blockCache c1"]
    by (auto simp: bcache_ok_def sorted_smap_set keys_smap_insert smap_insert_def)
  moreover have "cache_add C b c = (Inr b', ?c2)" using assms(2) copy c1(1) by (simp add: cache_add_def method_defs)
  moreover have "cache_get h ?c2 = Some b'" using new by (simp add: cache_get_def smap_insert_def)
  ultimately show ?thesis using that by blast
qed

text \<open>The block as it is read back: with its hash memoised and nothing else cached.\<close>

definition canonical :: "crypto \<Rightarrow> block \<Rightarrow> block" where
  "canonical C b = b\<lparr>m_blockHeader := (m_blockHeader b)\<lparr>m_hash := block_hash C b\<rparr>, m_txsCache := [], m_tReceiptsCache := [],
     m_transRootCache := hash_zero 32, m_receiptRootCache := hash_zero 32\<rparr>"

lemma getBlock_found:
  assumes "block_wf C b" "\<And>x. length (sha3 C x) = 32" "bcache_ok ch" "cache_get (block_hash C b) ch = None" "can_open B L d SYS_HASH_2_BLOCK"
    and "first_row B L d SYS_HASH_2_BLOCK (toHex (block_hash C b)) (\<lambda>e. getField SYS_VALUE e = toHexPrefixed (enc_list (concat (block_items C b))))"
  obtains ch1 where "getBlock B C (LevelDBStorage B L) d (block_hash C b) ch = (Inr (Some (canonical C b)), ch1)" "bcache_ok ch1"
    "cache_get (block_hash C b) ch1 = Some (canonical C b)"
proof -
  obtain e rest where e: "db_rows B L d SYS_HASH_2_BLOCK (toHex (block_hash C b)) = e # rest" "getField SYS_VALUE e = toHexPrefixed (enc_list (concat (block_items C b)))"
    using assms(6) by (auto simp: first_row_def)
  have read: "read_table B (LevelDBStorage B L) d SYS_HASH_2_BLOCK True (toHex (block_hash C b)) = Inr (e # rest)"
    using read_sys_auth [OF chain_tables(3) _ assms(5)] e(1) by (simp add: sys_names)
  have "block_of_hex C (getField SYS_VALUE e) = Inr (canonical C b)"
    using block_decode_items [OF assms(1,2)] by (simp add: e(2) block_of_hex_def fromHex_toHexPrefixed canonical_def block_hash_def)
  moreover have hash: "header_hash C (m_blockHeader (canonical C b)) = Inr (block_hash C b, m_blockHeader (canonical C b))"
    using header_hash_idem [OF block_wf_hash [OF assms(1)]] by (simp add: canonical_def)
  have eq: "canonical C b = noteChange (block_new\<lparr>m_blockHeader := m_blockHeader (canonical C b), m_transactions := m_transactions (canonical C b),
      m_transactionReceipts := m_transactionReceipts (canonical C b), m_sigList := m_sigList (canonical C b), m_txsCache := m_txsCache (canonical C b)\<rparr>)"
    by (simp add: canonical_def noteChange_def block_new_def)
  obtain ch1 where "cache_add C (canonical C b) ch = (Inr (canonical C b), ch1)" "bcache_ok ch1" "cache_get (block_hash C b) ch1 = Some (canonical C b)"
    by (rule cache_add_run [OF assms(3) hash assms(4) eq])
  ultimately show ?thesis using that [of ch1] assms(4) read by (simp add: getBlock_def method_defs)
qed


section \<open>Commits that do not succeed\<close>

text \<open>
  C6. A rejected block leaves no trace: whenever \<open>commitBlock\<close> returns one of its error codes, the chain object, the factory, the state and the data base are
  as before and no new block is signalled. The code says what is wrong: the number does not follow the head, the parent hash is not
  the hash of the head, or another commit holds the lock.
\<close>

theorem commitBlock_rejects:
  assumes "commitBlock B C S sc b w = (Inr r, w', sig)" "r \<noteq> CommitOK"
  shows "w' = w \<and> \<not> sig \<and> (\<exists>p. number B S (w_data w) = Inr p \<and>
    (case r of ERROR_NUMBER \<Rightarrow> m_number (m_blockHeader b) \<noteq> wrap_int64 (p + 1)
     | ERROR_PARENT_HASH \<Rightarrow> numberHash B S (w_data w) p \<noteq> Inr (m_parentHash (m_blockHeader b))
     | _ \<Rightarrow> commitMutex (w_chain w)))"
  using assms by (auto simp: commitBlock_def Let_def split: sum.splits if_splits prod.splits client_error.splits)

text \<open>
  C7. A failed write blocks the chain for good: if \<open>commitBlock\<close> passes its checks and then fails with any exception but \<open>OpenSysTableFailed\<close>, for
  instance because the data base cannot be written, the lock is still held, and no later call of \<open>commitBlock\<close> on this chain object
  returns \<open>OK\<close>, whatever block, context and data base contents it is given.
\<close>

theorem commit_lock_leak:
  assumes "number B S (w_data w) = Inr p" "m_number (m_blockHeader b) = wrap_int64 (p + 1)"
    and "numberHash B S (w_data w) p = Inr (m_parentHash (m_blockHeader b))" "\<not> commitMutex (w_chain w)"
    and "commitBlock B C S sc b w = (Inl e, w', sig)" "\<And>name. e \<noteq> OpenSysTableFailed name"
  shows "commitMutex (w_chain w') \<and> fst (commitBlock B C S sc b2 (w'\<lparr>w_factory := f2, w_state := s2, w_data := d2\<rparr>)) \<noteq> Inr CommitOK"
proof -
  have "w_chain (snd (context_dbCommit B C S sc b w)) = w_chain w" for b w
    by (auto simp: context_dbCommit_def split: sum.splits prod.splits)
  then have "context_dbCommit B C S sc b1 w1 = (r, w2) \<Longrightarrow> w_chain w2 = w_chain w1" for b1 w1 r w2 by (metis snd_conv)
  then have lock: "commitMutex (w_chain w')"
    using assms by (auto simp: commitBlock_def Let_def split: sum.splits prod.splits client_error.splits)
  obtain r w2 sig2 where c: "commitBlock B C S sc b2 (w'\<lparr>w_factory := f2, w_state := s2, w_data := d2\<rparr>) = (r, w2, sig2)"
    by (cases "commitBlock B C S sc b2 (w'\<lparr>w_factory := f2, w_state := s2, w_data := d2\<rparr>)")
  have "r \<noteq> Inr CommitOK"
  proof
    assume "r = Inr CommitOK"
    then show False using commitBlock_OK [OF c [unfolded \<open>r = Inr CommitOK\<close>]] lock by simp
  qed
  with lock c show ?thesis by simp
qed

section \<open>Examples\<close>

text \<open>A first block above an empty data base.\<close>

definition toy_first :: block where
  "toy_first = toy_block\<lparr>m_blockHeader := toy_header\<lparr>m_number := 1\<rparr>\<rparr>"

definition toy_world :: "(unit, (string \<times> string) list) chain_world" where
  "toy_world = \<lparr>w_chain = BlockChainImp, w_factory = MemoryTableFactory, w_state = (), w_data = []\<rparr>"

definition no_commit :: "unit state_commit" where
  "no_commit h n s = (Inr (), s)"

lemma toy_first_wf: "block_wf toy_crypto toy_first"
proof -
  have wf: "header_wf (toy_header\<lparr>m_number := 1\<rparr>)"
    by (simp add: toy_header_def header_new_def header_wf_def INT64_MAX_def UINT64_MAX_def u256_def header_items_def
        enc_data_def enc_list_def enc_int_def length_rlp_header rlp_size_ok_def bytesRequired_pos)
  have len: "length (concat (header_items (toy_header\<lparr>m_number := 1\<rparr>))) = length (concat (header_items toy_header))"
    by (simp add: header_items_def toy_header_def enc_int_def enc_data_def bytesRequired_pos toCompactBigEndian_def)
  have "length (header_bytes (toy_header\<lparr>m_number := 1\<rparr>)) = length (header_bytes toy_header)"
    using len by (simp add: header_bytes_def enc_list_def length_rlp_header)
  then have "length (concat (block_items toy_crypto toy_first)) = length (concat (block_items toy_crypto toy_block))"
    by (simp add: block_items_def toy_first_def toy_block_def length_enc_data_32)
  with wf toy_block_wf show ?thesis
    by (simp add: block_wf_def toy_first_def memo_ok_def) (simp add: toy_block_def toy_header_def header_new_def INT64_MAX_def)
qed

lemma toy_empty: "readable toy_boost toy_leveldb []" "db_rows toy_boost toy_leveldb [] name key = []"
  by (simp_all add: readable_def db_rows_def leveldb_select_def toy_leveldb_def Entries_def)

lemma toy_numbers: "numbers_ok toy_boost toy_leveldb"
  using toy_boost_status by (simp add: numbers_ok_def) (simp add: toy_leveldb_def toy_boost_def unary_read_show)

definition toy_hashes :: "bytes list" where
  "toy_hashes = [sha3 toy_crypto (tx_bytes (toy_tx\<lparr>m_sender := right160 (hash_of_nat 32 65)\<rparr>))]"

lemma toy_pre: "commit_pre toy_boost toy_crypto toy_leveldb (w_data toy_world) (w_factory toy_world) toy_first toy_hashes"
proof -
  have "\<not> hash_bool (m_hashWith (toy_tx\<lparr>m_sender := right160 (hash_of_nat 32 65)\<rparr>))" by (simp add: toy_tx_def transaction_null_def)
  then have "\<exists>t. tx_sha3 toy_crypto (toy_tx\<lparr>m_sender := right160 (hash_of_nat 32 65)\<rparr>) True =
      Inr (sha3 toy_crypto (tx_bytes (toy_tx\<lparr>m_sender := right160 (hash_of_nat 32 65)\<rparr>)), t)"
    using tx_canonical_codec(1) [OF toy_tx_canonical] by (simp add: tx_sha3_def Let_def)
  then show ?thesis
    by (simp add: commit_pre_def toy_first_wf toy_world_def toy_empty toy_hashes_def factory_ok_def)
      (simp add: MemoryTableFactory_def toy_first_def toy_block_def)
qed

lemma toy_reads: "number toy_boost (LevelDBStorage toy_boost toy_leveldb) (w_data toy_world) = Inr 0"
  "numberHash toy_boost (LevelDBStorage toy_boost toy_leveldb) (w_data toy_world) 0 = Inr (m_parentHash (m_blockHeader toy_first))"
  "totalTransactionCount toy_boost (LevelDBStorage toy_boost toy_leveldb) (w_data toy_world) = Inr (0, 0)"
  by (simp_all add: number_def numberHash_def totalTransactionCount_def read_sys chain_tables toy_world_def toy_empty)
    (simp add: hash_of_string_def fromHex_def hash_of_bytes_def toy_first_def toy_header_def header_new_def)

lemma toy_commitDB: "\<exists>f' d'. commitDB B (LevelDBStorage B toy_leveldb) h n f d = (Inr (), f', d')"
  by (auto simp: commitDB_def LevelDBStorage_def leveldb_commit_def toy_leveldb_def Let_def)

lemma toy_commit:
  obtains w' where "commitBlock toy_boost toy_crypto (LevelDBStorage toy_boost toy_leveldb) no_commit toy_first toy_world = (Inr CommitOK, w', True)"
proof -
  obtain b1 f1 where w: "writeAll toy_boost toy_crypto (ldb toy_boost toy_leveldb (w_data toy_world)) toy_first (w_factory toy_world) = (Inr b1, f1)"
      "header_hash toy_crypto (m_blockHeader b1) = Inr (block_hash toy_crypto toy_first, m_blockHeader b1)"
    by (rule writeAll_run [OF toy_pre _ toy_boost_status(1) total_count_row [OF toy_reads(3)]]) simp_all
  obtain f2 d2 where c: "commitDB toy_boost (LevelDBStorage toy_boost toy_leveldb) (block_hash toy_crypto toy_first) (m_number (m_blockHeader b1)) f1 (w_data toy_world) = (Inr (), f2, d2)"
    using toy_commitDB by blast
  have "m_number (m_blockHeader toy_first) = 1" "\<not> commitMutex (w_chain toy_world)" by (simp_all add: toy_first_def toy_world_def BlockChainImp_def)
  then show ?thesis using that w c toy_reads by (simp add: commitBlock_def context_dbCommit_def no_commit_def wrap_int64_def Let_def)
qed


lemma can_open_no_access:
  assumes "name \<in> set m_sysTables" "name \<noteq> SYS_ACCESS_TABLE" "\<And>key. db_rows B L d SYS_ACCESS_TABLE key = []"
  shows "can_open B L d name"
proof -
  let ?R = "ldb B L d" and ?M = MemoryTableFactory
  let ?i = "add_std_fields (getSysTableInfo SYS_ACCESS_TABLE)"
  obtain es t1 where s: "mt_select B ?R SYS_ACCESS_TABLE Condition (new_table ?i ?M) = (es, t1)" by (cases "mt_select B ?R SYS_ACCESS_TABLE Condition (new_table ?i ?M)")
  note sel = select_rows [where B = B and R = ?R and key = SYS_ACCESS_TABLE and c = Condition and t = "new_table ?i ?M", unfolded s]
  have none: "mt_rows ?R (new_table ?i ?M) k = []" for k using assms(3) by (simp add: mt_rows_db new_table_def table_info_names)
  let ?t2 = "t1\<lparr>m_tableInfo := ?i\<lparr>authorizedAddress := []\<rparr>\<rparr>"
  have t1: "mt_rows ?R t1 k = []" "m_tableInfo t1 = ?i" for k using sel(2) [of k] sel(4) none by (simp_all add: new_table_def)
  have t2: "mt_rows ?R ?t2 k = []" for k using t1(1) [of k] assms(3) by (simp add: mt_rows_db table_info_names split: option.splits)
  have a: "openTable B ?R SYS_ACCESS_TABLE True ?M = (Inr True, register_table SYS_ACCESS_TABLE ?t2 ?M)"
    using s sel(1) none by (simp add: openTable_split open_info_def open_register_def access_is_sys table_info_names MemoryTableFactory_def)
  have "map_of (m_name2Table (register_table SYS_ACCESS_TABLE ?t2 ?M)) SYS_ACCESS_TABLE = Some ?t2"
    by (simp add: register_table_def smap_insert_def MemoryTableFactory_def)
  then have "fst (f_select B ?R SYS_ACCESS_TABLE name Condition (register_table SYS_ACCESS_TABLE ?t2 ?M)) = []"
    using select_rows(1) [of B ?R name Condition ?t2] t2 by (auto simp: f_select_def split: prod.splits)
  moreover have "openTable B ?R name True ?M = open_register B ?R name True (add_std_fields (getSysTableInfo name)) ?M"
    using assms(1) by (simp add: openTable_split [of B ?R name] open_info_def) (simp add: MemoryTableFactory_def)
  ultimately show ?thesis
    using a assms(2) by (auto simp: can_open_def open_register_def table_info_names split: prod.splits)
qed


lemma access_apart: "u \<in> set chain_names \<Longrightarrow> apart SYS_ACCESS_TABLE u"
  by (auto simp: chain_names_def) (simp_all add: apart_def sys_names)


theorem commitBlock_rejects_witness:
  "commitBlock toy_boost toy_crypto (LevelDBStorage toy_boost toy_leveldb) no_commit toy_block toy_world = (Inr ERROR_NUMBER, toy_world, False)
    \<and> m_number (m_blockHeader toy_block) \<noteq> 1"
proof -
  have "m_number (m_blockHeader toy_block) = 7" by (simp add: toy_block_def toy_header_def)
  then have c: "commitBlock toy_boost toy_crypto (LevelDBStorage toy_boost toy_leveldb) no_commit toy_block toy_world = (Inr ERROR_NUMBER, toy_world, False)"
    using toy_reads(1) by (simp add: commitBlock_def wrap_int64_def)
  from commitBlock_rejects [OF c] toy_reads(1) show ?thesis by (simp add: c wrap_int64_def)
qed

text \<open>A state object whose data base is full.\<close>

definition failed_commit :: "unit state_commit" where
  "failed_commit h n s = (Inl (StorageError (RemoteError ''full'')), s)"

theorem commit_lock_leak_witness:
  "\<exists>w'. commitBlock toy_boost toy_crypto (LevelDBStorage toy_boost toy_leveldb) failed_commit toy_first toy_world = (Inl (StorageError (RemoteError ''full'')), w', False)
    \<and> commitMutex (w_chain w') \<and> fst (commitBlock toy_boost toy_crypto (LevelDBStorage toy_boost toy_leveldb) failed_commit toy_first
          (w'\<lparr>w_factory := MemoryTableFactory, w_state := (), w_data := []\<rparr>)) \<noteq> Inr CommitOK"
proof -
  obtain b1 f1 where w: "writeAll toy_boost toy_crypto (ldb toy_boost toy_leveldb (w_data toy_world)) toy_first (w_factory toy_world) = (Inr b1, f1)"
      "header_hash toy_crypto (m_blockHeader b1) = Inr (block_hash toy_crypto toy_first, m_blockHeader b1)"
    by (rule writeAll_run [OF toy_pre _ toy_boost_status(1) total_count_row [OF toy_reads(3)]]) simp_all
  have n: "m_number (m_blockHeader toy_first) = wrap_int64 (0 + 1)" and u: "\<not> commitMutex (w_chain toy_world)"
    by (simp_all add: toy_first_def toy_world_def BlockChainImp_def wrap_int64_def)
  then obtain w' where c: "commitBlock toy_boost toy_crypto (LevelDBStorage toy_boost toy_leveldb) failed_commit toy_first toy_world =
      (Inl (StorageError (RemoteError ''full'')), w', False)"
    using w toy_reads by (simp add: commitBlock_def context_dbCommit_def failed_commit_def Let_def)
  from commit_lock_leak [OF toy_reads(1) n toy_reads(2) u c] c show ?thesis by blast
qed

end
