(* ===== verification/TxPool.thy ===== *)
theory TxPool
  imports BlockChain
begin

text \<open>
  The transaction pool, \<open>libtxpool/TxPool.h\<close> and \<open>.cpp\<close>, with the nonce caches of
  \<open>CommonTransactionNonceCheck.cpp\<close> and \<open>TransactionNonceCheck.cpp\<close>. The queue is the in-order
  list of the nodes of the \<open>std::set\<close>; a node carries a number, and an iterator of \<open>m_txsHash\<close> is the number of its node,
  so that using an iterator whose node is gone is an error of its own. What the pool asks of the block chain
  is the argument \<open>ch\<close> of an operation, the clock its argument \<open>now\<close>. The sender a transaction memoises is
  recomputed instead, to the same address.
\<close>

section \<open>Nonce caches\<close>

datatype import_result =
    Success | UnknownParent | FutureTimeKnown | FutureTimeUnknown | AlreadyInChain | AlreadyKnown
  | Malformed | BadChain | ZeroSignature | TransactionNonceCheckFail | TxPoolNonceCheckFail | TransactionPoolIsFull

datatype if_dropped = Ignore | Retry

text \<open>\<open>NullBlock\<close>, \<open>DanglingIterator\<close> and \<open>Diverges\<close> are no exceptions: a dereferenced null pointer, the use
  of an invalid iterator, and a loop that never ends.\<close>

datatype pool_error =
    PoolEth eth_error | TransactionRefused import_result | InvalidProtocolID | ChainError client_error | BadFunctionCall
  | NullBlock | DanglingIterator | Diverges

definition liftP :: "eth_error + 'a \<Rightarrow> pool_error + 'a" where
  "liftP r = (case r of Inl e \<Rightarrow> Inl (PoolEth e) | Inr x \<Rightarrow> Inr x)"

text \<open>The two questions the nonce check asks the chain: \<open>number()\<close>, and the transactions of block \<open>i\<close> by
  \<open>getBlockByHash(numberHash(i))->transactions()\<close>.\<close>

record pool_chain =
  pc_number :: int
  pc_block :: "nat \<Rightarrow> pool_error + transaction list"

text \<open>\<open>toString\<close> of a \<open>u256\<close>.\<close>

fun show_nat :: "nat \<Rightarrow> string" where
  "show_nat n = (if n < 10 then [char_of (48 + n)] else show_nat (n div 10) @ [char_of (48 + n mod 10)])"

declare show_nat.simps [simp del]

definition generateKey :: "crypto \<Rightarrow> transaction \<Rightarrow> string" where
  "generateKey C t = toHex (tx_safeSender C t) @ ''_'' @ show_nat (m_nonce t)"

definition isNonceOk :: "crypto \<Rightarrow> transaction \<Rightarrow> bool \<Rightarrow> string set \<Rightarrow> bool \<times> string set" where
  "isNonceOk C t needInsert cache =
     (let key = generateKey C t in
      if key \<in> cache then (False, cache)
      else (True, if needInsert then insert key cache else cache))"

definition delCache_key :: "string \<Rightarrow> string set \<Rightarrow> string set" where
  "delCache_key key cache = cache - {key}"

definition delCache_txs :: "crypto \<Rightarrow> transaction list \<Rightarrow> string set \<Rightarrow> string set" where
  "delCache_txs C ts cache = fold (\<lambda>t. delCache_key (generateKey C t)) ts cache"

definition insertCache :: "crypto \<Rightarrow> transaction \<Rightarrow> string set \<Rightarrow> string set" where
  "insertCache C t cache = insert (generateKey C t) cache"

section \<open>The nonce check against the chain\<close>

record tx_nonce_check =
  nc_cache :: "string set"
  m_startblk :: "32 word"
  m_endblk :: "32 word"
  m_maxBlockLimit :: "32 word"

text \<open>\<open>u256(int64_t)\<close>.\<close>

definition as_u256 :: "int \<Rightarrow> nat" where
  "as_u256 i = nat (i mod 2 ^ 256)"

definition isBlockLimitOk :: "pool_chain \<Rightarrow> transaction \<Rightarrow> tx_nonce_check \<Rightarrow> bool" where
  "isBlockLimitOk ch t n =
     (\<not> (m_blockLimit t = Invalid256 \<or> as_u256 (pc_number ch) \<ge> m_blockLimit t
         \<or> m_blockLimit t > (as_u256 (pc_number ch) + unat (m_maxBlockLimit n)) mod 2 ^ 256))"

definition nonce_ok :: "crypto \<Rightarrow> pool_chain \<Rightarrow> transaction \<Rightarrow> bool \<Rightarrow> tx_nonce_check \<Rightarrow> bool \<times> tx_nonce_check" where
  "nonce_ok C ch t needinsert n =
     (if \<not> isBlockLimitOk ch t n then (False, n)
      else let (b, cache) = isNonceOk C t needinsert (nc_cache n) in (b, n\<lparr>nc_cache := cache\<rparr>))"

text \<open>One pass of the two loops of \<open>updateCache\<close>: the keys of a block are erased, or inserted.\<close>

definition forget_block :: "crypto \<Rightarrow> pool_chain \<Rightarrow> nat \<Rightarrow> (tx_nonce_check, pool_error, unit) action" where
  "forget_block C ch i =
     bindM (liftM (pc_block ch i)) (\<lambda>txn.
       forM txn (\<lambda>t. modifyM (\<lambda>n. n\<lparr>nc_cache := delCache_key (generateKey C t) (nc_cache n)\<rparr>)))"

definition remember_block :: "crypto \<Rightarrow> pool_chain \<Rightarrow> nat \<Rightarrow> (tx_nonce_check, pool_error, unit) action" where
  "remember_block C ch i =
     bindM (liftM (pc_block ch i)) (\<lambda>txn.
       forM txn (\<lambda>t. modifyM (\<lambda>n. n\<lparr>nc_cache := insertCache C t (nc_cache n)\<rparr>)))"

text \<open>\<open>for (unsigned i = from; i <= m_endblk; i++)\<close>: with \<open>m_endblk\<close> the greatest \<open>unsigned\<close> the counter wraps, and
  unless a block read throws, the loop goes round for ever.\<close>

definition remember_loop :: "crypto \<Rightarrow> pool_chain \<Rightarrow> 32 word \<Rightarrow> 32 word \<Rightarrow> (tx_nonce_check, pool_error, unit) action" where
  "remember_loop C ch from endblk =
     seqM (forM [unat from..<Suc (unat endblk)] (remember_block C ch))
       (if endblk = - 1 then seqM (forM [0..<Suc (unat endblk)] (remember_block C ch)) (throwM Diverges) else returnM ())"

text \<open>\<open>catch (...)\<close> keeps the changes made so far.\<close>

definition updateCache :: "crypto \<Rightarrow> pool_chain \<Rightarrow> bool \<Rightarrow> (tx_nonce_check, pool_error, unit) action" where
  "updateCache C ch rebuild =
     catchM
       (bindM (getM m_startblk) (\<lambda>prestartblk.
        bindM (getM m_endblk) (\<lambda>preendblk.
        let lastnumber = word_of_int (pc_number ch) in
        bindM (modifyM (\<lambda>n. n\<lparr>m_endblk := lastnumber,
                 m_startblk := (if lastnumber > m_maxBlockLimit n then lastnumber - m_maxBlockLimit n else 0)\<rparr>)) (\<lambda>_.
        bindM (getM m_startblk) (\<lambda>startblk.
        seqM (if rebuild then modifyM (\<lambda>n. n\<lparr>nc_cache := {}\<rparr>)
              else forM [unat prestartblk..<unat startblk] (forget_block C ch))
          (remember_loop C ch (max ((if rebuild then 0 else preendblk) + 1) startblk) lastnumber))))))
       (\<lambda>e. if e \<in> {NullBlock, Diverges} then throwM e else returnM ())"

definition TransactionNonceCheck :: "crypto \<Rightarrow> pool_chain \<Rightarrow> (pool_error + unit) \<times> tx_nonce_check" where
  "TransactionNonceCheck C ch =
     updateCache C ch True \<lparr>nc_cache = {}, m_startblk = 0, m_endblk = 0, m_maxBlockLimit = 1000\<rparr>"

section \<open>The pool\<close>

datatype pool_event = OnReady | RpcCallback transaction localised_receipt

type_synonym pool_node = "nat \<times> transaction"

record txpool =
  m_limit :: nat
  m_txsQueue :: "pool_node list"
  m_nextNode :: nat
  m_txsHash :: "(bytes, nat) amap"
  m_known :: "bytes set"
  m_dropped :: "bytes set"
  m_transactionKnownBy :: "(bytes, bytes set) amap"
  m_txNonceCheck :: tx_nonce_check
  m_commonNonceCheck :: "string set"
  m_events :: "pool_event list"

type_synonym 'a pool_method = "(txpool, pool_error, 'a) action"

definition TxPool :: "crypto \<Rightarrow> pool_chain \<Rightarrow> int \<Rightarrow> nat \<Rightarrow> pool_error + txpool" where
  "TxPool C ch protocolId limit =
     (if protocolId = 0 then Inl InvalidProtocolID
      else case TransactionNonceCheck C ch of
        (Inl e, _) \<Rightarrow> Inl e
      | (Inr _, n) \<Rightarrow> Inr \<lparr>m_limit = limit, m_txsQueue = [], m_nextNode = 0, m_txsHash = [], m_known = {}, m_dropped = {},
          m_transactionKnownBy = [], m_txNonceCheck = n, m_commonNonceCheck = {}, m_events = []\<rparr>)"

text \<open>The comparator of the queue holds for equal import times, both ways. The insertion of the red-black tree descends to the
  left where the comparator holds for the new element and the node: the new node goes before the first
  node it compares to, so ahead of the nodes with its own import time.\<close>

definition transactionCompare :: "transaction \<Rightarrow> transaction \<Rightarrow> bool" where
  "transactionCompare a b = (m_importTime a \<le> m_importTime b)"

definition queue_emplace :: "pool_node \<Rightarrow> pool_node list \<Rightarrow> pool_node list" where
  "queue_emplace x q =
     takeWhile (\<lambda>y. \<not> transactionCompare (snd x) (snd y)) q @ x # dropWhile (\<lambda>y. \<not> transactionCompare (snd x) (snd y)) q"

definition queue_erase :: "nat \<Rightarrow> pool_node list \<Rightarrow> pool_node list" where
  "queue_erase i q = filter (\<lambda>y. fst y \<noteq> i) q"

text \<open>A method of \<open>m_txNonceCheck\<close>.\<close>

definition on_nonce :: "(tx_nonce_check, pool_error, 'a) action \<Rightarrow> 'a pool_method" where
  "on_nonce m p = (case m (m_txNonceCheck p) of (r, n) \<Rightarrow> (r, p\<lparr>m_txNonceCheck := n\<rparr>))"

definition isBlockLimitOrNonceOk :: "crypto \<Rightarrow> pool_chain \<Rightarrow> transaction \<Rightarrow> bool \<Rightarrow> bool pool_method" where
  "isBlockLimitOrNonceOk C ch t needInsert =
     (if m_nonce t = Invalid256 then returnM False
      else on_nonce (updateM (nonce_ok C ch t needInsert)))"

definition txPoolNonceCheck :: "crypto \<Rightarrow> transaction \<Rightarrow> bool pool_method" where
  "txPoolNonceCheck C t =
     updateM (\<lambda>p. let (b, c) = isNonceOk C t False (m_commonNonceCheck p) in (b, p\<lparr>m_commonNonceCheck := c\<rparr>))"

definition verify_tx :: "crypto \<Rightarrow> pool_chain \<Rightarrow> transaction \<Rightarrow> if_dropped \<Rightarrow> bool \<Rightarrow> (import_result \<times> transaction) pool_method" where
  "verify_tx C ch txn drop_policy needinsert =
     bindM (liftM (liftP (tx_sha3 C txn True))) (\<lambda>(tx_hash, txn).
     bindM (getM (\<lambda>p. tx_hash \<in> m_known p)) (\<lambda>known.
     bindM (getM (\<lambda>p. tx_hash \<in> m_dropped p)) (\<lambda>dropped.
       if known then returnM (AlreadyKnown, txn)
       else if dropped \<and> drop_policy = Ignore then returnM (AlreadyInChain, txn)
       else
         bindM (isBlockLimitOrNonceOk C ch txn needinsert) (\<lambda>ok.
           if \<not> ok then returnM (TransactionNonceCheckFail, txn)
           else
             bindM (txPoolNonceCheck C txn) (\<lambda>ok.
               returnM (if \<not> ok then TxPoolNonceCheckFail else Success, txn))))))"

definition insert_tx :: "crypto \<Rightarrow> transaction \<Rightarrow> bool pool_method" where
  "insert_tx C t =
     bindM (liftM (liftP (tx_sha3 C t True))) (\<lambda>(tx_hash, t).
     bindM (getM (\<lambda>p. map_of (m_txsHash p) tx_hash)) (\<lambda>found.
       if found \<noteq> None then returnM False
       else
         seqM (modifyM (\<lambda>p. p\<lparr>m_known := insert tx_hash (m_known p)\<rparr>))
        (seqM (modifyM (\<lambda>p. p\<lparr>m_txsQueue := queue_emplace (m_nextNode p, t) (m_txsQueue p),
                              m_nextNode := Suc (m_nextNode p),
                              m_txsHash := amap_set tx_hash (m_nextNode p) (m_txsHash p)\<rparr>))
         (returnM True))))"

text \<open>\<open>import(Transaction&, IfDropped)\<close>: the policy is not passed on to \<open>verify\<close>. The caller's transaction is returned with
  its import time and memoised hash.\<close>

definition import_tx :: "crypto \<Rightarrow> pool_chain \<Rightarrow> nat \<Rightarrow> transaction \<Rightarrow> if_dropped \<Rightarrow> (import_result \<times> transaction) pool_method" where
  "import_tx C ch now t ik =
     (let t = t\<lparr>m_importTime := now\<rparr> in
      bindM (getM (\<lambda>p. length (m_txsQueue p) \<ge> m_limit p)) (\<lambda>full.
        if full then returnM (TransactionPoolIsFull, t)
        else
          bindM (verify_tx C ch t Ignore False) (\<lambda>(verify_ret, t).
            seqM (whenM (verify_ret = Success)
                   (bindM (insert_tx C t) (\<lambda>inserted.
                      whenM inserted
                        (seqM (modifyM (\<lambda>p. p\<lparr>m_commonNonceCheck := insertCache C t (m_commonNonceCheck p)\<rparr>))
                              (modifyM (\<lambda>p. p\<lparr>m_events := m_events p @ [OnReady]\<rparr>))))))
              (returnM (verify_ret, t)))))"

definition import_bytes :: "crypto \<Rightarrow> pool_chain \<Rightarrow> nat \<Rightarrow> bytes \<Rightarrow> if_dropped \<Rightarrow> import_result pool_method" where
  "import_bytes C ch now txBytes ik =
     (case bindE (tx_decode_bytes C CheckAll txBytes transaction_null) (\<lambda>t. tx_sha3 C t True) of
        Inl _ \<Rightarrow> returnM Malformed
      | Inr (h, t) \<Rightarrow>
          if sha3 C txBytes \<noteq> h then returnM Malformed
          else bindM (import_tx C ch now t ik) (\<lambda>(r, _). returnM r))"

text \<open>\<open>toAddress(Address, u256)\<close>: the address of a contract a transaction creates.\<close>

definition toAddress_nonce :: "crypto \<Rightarrow> bytes \<Rightarrow> nat \<Rightarrow> rlp_error + bytes" where
  "toAddress_nonce C from nonce =
     bindE (appendList 2 rlpstream_new) (\<lambda>s.
     bindE (append_all (\<lambda>f. f) [append_hash from False False, append_bigint nonce] s) (\<lambda>s.
     bindE (rlp_out s) (\<lambda>bs. Inr (right160 (sha3 C bs)))))"

definition submit :: "crypto \<Rightarrow> pool_chain \<Rightarrow> nat \<Rightarrow> transaction \<Rightarrow> (bytes \<times> bytes) pool_method" where
  "submit C ch now t =
     bindM (import_tx C ch now t Ignore) (\<lambda>(ret, t).
     bindM (liftM (liftP (tx_sha3 C t True))) (\<lambda>(h, _).
       if ret = Success
       then bindM (liftM (liftP (liftR (toAddress_nonce C (tx_safeSender C t) (m_nonce t))))) (\<lambda>a. returnM (h, a))
       else throwM (TransactionRefused ret)))"

section \<open>Removal\<close>

definition removeTransactionKnowBy :: "bytes \<Rightarrow> unit pool_method" where
  "removeTransactionKnowBy h = modifyM (\<lambda>p. p\<lparr>m_transactionKnownBy := amap_del h (m_transactionKnownBy p)\<rparr>)"

definition removeTrans :: "bytes \<Rightarrow> bool \<Rightarrow> localised_receipt option \<Rightarrow> bool pool_method" where
  "removeTrans txHash needTriggerCallback pReceipt =
     bindM (getM (\<lambda>p. map_of (m_txsHash p) txHash)) (\<lambda>p_tx.
       case p_tx of
         None \<Rightarrow> returnM False
       | Some i \<Rightarrow>
           bindM (getM (\<lambda>p. map_of (m_txsQueue p) i)) (\<lambda>node.
             case node of
               None \<Rightarrow> throwM DanglingIterator
             | Some t \<Rightarrow>
                 seqM (case pReceipt of
                         Some r \<Rightarrow> whenM needTriggerCallback (modifyM (\<lambda>p. p\<lparr>m_events := m_events p @ [RpcCallback t r]\<rparr>))
                       | None \<Rightarrow> returnM ())
                (seqM (modifyM (\<lambda>p. p\<lparr>m_txsQueue := queue_erase i (m_txsQueue p)\<rparr>))
                (seqM (modifyM (\<lambda>p. p\<lparr>m_txsHash := amap_del txHash (m_txsHash p)\<rparr>))
                (seqM (modifyM (\<lambda>p. p\<lparr>m_known := m_known p - {txHash}\<rparr>))
                (seqM (removeTransactionKnowBy txHash) (returnM True)))))))"

definition drop_tx :: "bytes \<Rightarrow> bool pool_method" where
  "drop_tx txHash =
     bindM (getM (\<lambda>p. txHash \<in> m_known p)) (\<lambda>known.
       if \<not> known then returnM False
       else
         seqM (modifyM (\<lambda>p. p\<lparr>m_dropped := (if card (m_dropped p) < m_limit p then insert txHash (m_dropped p) else {})\<rparr>))
           (removeTrans txHash False None))"

definition constructTransactionReceipt :: "crypto \<Rightarrow> transaction \<Rightarrow> receipt \<Rightarrow> block \<Rightarrow> nat \<Rightarrow> eth_error + localised_receipt" where
  "constructTransactionReceipt C tx receipt block index =
     bindE (tx_sha3 C tx True) (\<lambda>(th, _).
     bindE (liftR (header_hash C (m_blockHeader block))) (\<lambda>(bh, _).
       Inr (LocalisedTransactionReceipt receipt th bh (m_number (m_blockHeader block)) (tx_safeSender C tx)
         (m_receiveAddress tx) index (rc_gasUsed receipt) (rc_contractAddress receipt))))"

text \<open>The loop of \<open>dropTransactions\<close> over the block's transactions from index \<open>i\<close>.\<close>

fun drop_loop :: "crypto \<Rightarrow> block \<Rightarrow> nat \<Rightarrow> transaction list \<Rightarrow> bool \<Rightarrow> bool pool_method" where
  "drop_loop C block i [] succ = returnM succ"
| "drop_loop C block i (t # ts) succ =
     bindM (if i < length (m_transactionReceipts block)
            then bindM (liftM (liftP (constructTransactionReceipt C t (m_transactionReceipts block ! i) block i))) (\<lambda>r. returnM (Some r))
            else returnM None) (\<lambda>pReceipt.
     bindM (liftM (liftP (tx_sha3 C t True))) (\<lambda>(h, _).
     bindM (removeTrans h True pReceipt) (\<lambda>removed.
       drop_loop C block (Suc i) ts (if removed = False then False else succ))))"

definition dropTransactions :: "crypto \<Rightarrow> block \<Rightarrow> bool pool_method" where
  "dropTransactions C block =
     (if length (m_transactions block) = 0 then returnM True
      else drop_loop C block 0 (m_transactions block) True)"

definition handleBadBlock :: "block \<Rightarrow> bool pool_method" where
  "handleBadBlock block = returnM True"

definition dropBlockTrans :: "crypto \<Rightarrow> pool_chain \<Rightarrow> block \<Rightarrow> bool pool_method" where
  "dropBlockTrans C ch block =
     seqM (on_nonce (updateCache C ch False))
    (bindM (dropTransactions C block) (\<lambda>ret.
     seqM (modifyM (\<lambda>p. p\<lparr>m_commonNonceCheck := delCache_txs C (m_transactions block) (m_commonNonceCheck p)\<rparr>))
       (returnM ret)))"

section \<open>Reading the queue\<close>

text \<open>\<open>std::set<h256>\<close>: ascending.\<close>

definition hset_insert :: "bytes \<Rightarrow> bytes list \<Rightarrow> bytes list" where
  "hset_insert h s =
     (if h \<in> set s then s else takeWhile (\<lambda>x. hash_less x h) s @ h # dropWhile (\<lambda>x. hash_less x h) s)"

record top_acc =
  top_ret :: "transaction list"
  top_avoid :: "bytes set"
  top_bad :: "bytes list"
  top_keys :: "string set"

text \<open>The loop of \<open>topTransactions\<close>; \<open>txCnt\<close> is the length of \<open>ret\<close>.\<close>

fun top_loop :: "crypto \<Rightarrow> pool_chain \<Rightarrow> nat \<Rightarrow> bool \<Rightarrow> pool_node list \<Rightarrow> top_acc \<Rightarrow> top_acc pool_method" where
  "top_loop C ch limit updateAvoid [] a = returnM a"
| "top_loop C ch limit updateAvoid ((i, t) # q) a =
     (if \<not> length (top_ret a) < limit then returnM a
      else
        bindM (isBlockLimitOrNonceOk C ch t False) (\<lambda>ok.
        bindM (liftM (liftP (tx_sha3 C t True))) (\<lambda>(h, t).
          if \<not> ok
          then top_loop C ch limit updateAvoid q
                 (a\<lparr>top_bad := hset_insert h (top_bad a), top_keys := insert (generateKey C t) (top_keys a)\<rparr>)
          else if h \<notin> top_avoid a
          then top_loop C ch limit updateAvoid q
                 (a\<lparr>top_ret := top_ret a @ [t], top_avoid := (if updateAvoid then insert h (top_avoid a) else top_avoid a)\<rparr>)
          else top_loop C ch limit updateAvoid q a)))"

definition topTransactions :: "crypto \<Rightarrow> pool_chain \<Rightarrow> nat \<Rightarrow> bytes set \<Rightarrow> bool \<Rightarrow> (transaction list \<times> bytes set) pool_method" where
  "topTransactions C ch lim avoid updateAvoid =
     bindM (getM (\<lambda>p. min (m_limit p) lim)) (\<lambda>limit.
     bindM (getM m_txsQueue) (\<lambda>q.
     bindM (top_loop C ch limit updateAvoid q \<lparr>top_ret = [], top_avoid = avoid, top_bad = [], top_keys = {}\<rparr>) (\<lambda>a.
     seqM (forM (top_bad a) (\<lambda>h.
             bindM (removeTrans h False None) (\<lambda>_. modifyM (\<lambda>p. p\<lparr>m_dropped := insert h (m_dropped p)\<rparr>))))
    (seqM (modifyM (\<lambda>p. p\<lparr>m_commonNonceCheck := m_commonNonceCheck p - top_keys a\<rparr>))
       (returnM (top_ret a, top_avoid a))))))"

definition topTransactions_limit :: "crypto \<Rightarrow> pool_chain \<Rightarrow> nat \<Rightarrow> transaction list pool_method" where
  "topTransactions_limit C ch lim = bindM (topTransactions C ch lim {} False) (\<lambda>(ret, _). returnM ret)"

text \<open>The condition defaults to the empty \<open>std::function\<close>, whose call throws.\<close>

fun condition_loop :: "(transaction \<Rightarrow> bool) option \<Rightarrow> nat \<Rightarrow> pool_node list \<Rightarrow> transaction list \<Rightarrow> pool_error + transaction list" where
  "condition_loop cond limit [] ret = Inr ret"
| "condition_loop cond limit ((i, t) # q) ret =
     (if \<not> length ret < limit then Inr ret
      else case cond of
        None \<Rightarrow> Inl BadFunctionCall
      | Some c \<Rightarrow> condition_loop cond limit q (if c t then ret @ [t] else ret))"

definition topTransactionsCondition :: "nat \<Rightarrow> (transaction \<Rightarrow> bool) option \<Rightarrow> transaction list pool_method" where
  "topTransactionsCondition lim cond =
     bindM (getM (\<lambda>p. condition_loop cond (min (m_limit p) lim) (m_txsQueue p) [])) liftM"

definition pendingList :: "txpool \<Rightarrow> transaction list" where
  "pendingList p = map snd (m_txsQueue p)"

definition pendingSize :: "txpool \<Rightarrow> nat" where
  "pendingSize p = length (m_txsQueue p)"

record txpool_status =
  current :: nat
  dropped :: nat

definition pool_status :: "txpool \<Rightarrow> txpool_status" where
  "pool_status p = \<lparr>current = length (m_txsQueue p), dropped = card (m_dropped p)\<rparr>"

definition pool_clear :: "unit pool_method" where
  "pool_clear = modifyM (\<lambda>p. p\<lparr>m_known := {}, m_txsQueue := [], m_txsHash := [], m_dropped := {}, m_transactionKnownBy := []\<rparr>)"

definition setTxPoolLimit :: "nat \<Rightarrow> unit pool_method" where
  "setTxPoolLimit limit = modifyM (\<lambda>p. p\<lparr>m_limit := limit\<rparr>)"

definition setMaxBlockLimit :: "32 word \<Rightarrow> unit pool_method" where
  "setMaxBlockLimit limit = on_nonce (modifyM (\<lambda>n. n\<lparr>m_maxBlockLimit := limit\<rparr>))"

section \<open>Which peers know a transaction\<close>

definition transactionIsKnownBy :: "bytes \<Rightarrow> bytes \<Rightarrow> unit pool_method" where
  "transactionIsKnownBy txHash nodeId =
     modifyM (\<lambda>p. p\<lparr>m_transactionKnownBy := amap_set txHash
       (insert nodeId (case map_of (m_transactionKnownBy p) txHash of None \<Rightarrow> {} | Some s \<Rightarrow> s)) (m_transactionKnownBy p)\<rparr>)"

definition isTransactionKnownBy :: "bytes \<Rightarrow> bytes \<Rightarrow> txpool \<Rightarrow> bool" where
  "isTransactionKnownBy txHash nodeId p =
     (case map_of (m_transactionKnownBy p) txHash of None \<Rightarrow> False | Some s \<Rightarrow> nodeId \<in> s)"

definition isTransactionKnownBySomeone :: "bytes \<Rightarrow> txpool \<Rightarrow> bool" where
  "isTransactionKnownBySomeone txHash p =
     (case map_of (m_transactionKnownBy p) txHash of None \<Rightarrow> False | Some s \<Rightarrow> s \<noteq> {})"

end
