(* ===== verification/TxPoolSafety.thy ===== *)
theory TxPoolSafety
  imports TxPool
begin

text \<open>
  What the transaction pool promises: its queue, its hash index and its set of known hashes agree after every sequence of
  calls, so no iterator of the index is ever dangling; \<open>topTransactions\<close> returns the oldest valid transactions and
  drops the invalid ones it meets; the incremental update of the nonce cache gives what a rebuild gives; and a
  transaction of a committed block cannot enter the pool again.
\<close>

section \<open>Methods that never fail in a given way\<close>

definition sound :: "('s \<Rightarrow> bool) \<Rightarrow> 'e \<Rightarrow> ('s, 'e, 'a) action \<Rightarrow> bool" where
  "sound I e m \<longleftrightarrow> (\<forall>s. I s \<longrightarrow> I (snd (m s)) \<and> fst (m s) \<noteq> Inl e)"

named_theorems sound_rules \<open>preservation of an invariant without a given failure\<close>

lemma sound_bind [sound_rules]: "sound I e m \<Longrightarrow> (\<And>x. sound I e (f x)) \<Longrightarrow> sound I e (bindM m f)"
  unfolding sound_def bindM_def by (auto split: prod.splits sum.splits)

lemma sound_seq [sound_rules]: "sound I e m \<Longrightarrow> sound I e k \<Longrightarrow> sound I e (seqM m k)"
  by (simp add: seqM_def sound_bind)

lemma sound_return [sound_rules]: "sound I e (returnM x)"
  and sound_get [sound_rules]: "sound I e (getM f)"
  and sound_throw: "d \<noteq> e \<Longrightarrow> sound I e (throwM d)"
  and sound_lift: "r \<noteq> Inl e \<Longrightarrow> sound I e (liftM r)"
  by (simp_all add: sound_def method_defs)

lemma sound_modify: "(\<And>s. I s \<Longrightarrow> I (f s)) \<Longrightarrow> sound I e (modifyM f)"
  by (simp add: sound_def method_defs)

lemma sound_when [sound_rules]: "sound I e m \<Longrightarrow> sound I e (whenM b m)"
  by (simp add: whenM_def sound_return)

lemma sound_if [sound_rules]: "(b \<Longrightarrow> sound I e m) \<Longrightarrow> (\<not> b \<Longrightarrow> sound I e k) \<Longrightarrow> sound I e (if b then m else k)"
  by simp

lemma sound_for [sound_rules]: "(\<And>x. sound I e (f x)) \<Longrightarrow> sound I e (forM xs f)"
  by (induction xs) (auto intro: sound_bind sound_return)

lemma sound_case_prod [sound_rules]: "(\<And>a b. sound I e (f a b)) \<Longrightarrow> sound I e (case x of (a, b) \<Rightarrow> f a b)"
  by (cases x) simp

lemma liftP_not_dangling: "liftP r \<noteq> Inl DanglingIterator"
  by (cases r) (simp_all add: liftP_def)

lemmas sound_eth [sound_rules] = sound_lift [OF liftP_not_dangling]

section \<open>The pool's indices\<close>

text \<open>The hash of a stored transaction is memoised, so asking again changes nothing.\<close>

definition hash_is :: "crypto \<Rightarrow> transaction \<Rightarrow> bytes \<Rightarrow> bool" where
  "hash_is C t h \<longleftrightarrow> tx_sha3 C t True = Inr (h, t)"

lemma tx_encode_memo: "tx_encode (t\<lparr>m_hashWith := h\<rparr>) b = tx_encode t b"
  by (simp add: tx_encode_def tx_fields_def)

lemma hash_is_memo: "tx_sha3 C t True = Inr (h, t') \<Longrightarrow> hash_is C t' h"
  by (auto simp: hash_is_def tx_sha3_def Let_def tx_encode_memo bindE_eq_Inr split: if_splits)

lemma hash_is_unique: "hash_is C t h \<Longrightarrow> hash_is C t h' \<Longrightarrow> h = h'"
  by (simp add: hash_is_def)

text \<open>Nodes are numbered apart and sorted by import time; the hash index maps the hash of every pending transaction to its node
  and nothing else; the known hashes are those of the index.\<close>

definition pool_ok :: "crypto \<Rightarrow> txpool \<Rightarrow> bool" where
  "pool_ok C p \<longleftrightarrow>
     distinct (map fst (m_txsQueue p)) \<and>
     (\<forall>x \<in> set (m_txsQueue p). fst x < m_nextNode p) \<and>
     sorted (map (\<lambda>x. m_importTime (snd x)) (m_txsQueue p)) \<and>
     (\<forall>x \<in> set (m_txsQueue p). \<exists>h. hash_is C (snd x) h) \<and>
     (\<forall>h i. map_of (m_txsHash p) h = Some i \<longleftrightarrow> (\<exists>t. (i, t) \<in> set (m_txsQueue p) \<and> hash_is C t h)) \<and>
     m_known p = dom (map_of (m_txsHash p))"

lemma set_split_insert: "set (takeWhile P q @ x # dropWhile P q) = insert x (set q)"
proof -
  have "set q = set (takeWhile P q) \<union> set (dropWhile P q)"
    by (metis set_append takeWhile_dropWhile_id)
  then show ?thesis
    by simp
qed

lemma set_queue_emplace [simp]: "set (queue_emplace x q) = insert x (set q)"
  unfolding queue_emplace_def by (rule set_split_insert)

lemma distinct_queue_emplace:
  "distinct (map fst q) \<Longrightarrow> fst x \<notin> fst ` set q \<Longrightarrow> distinct (map fst (queue_emplace x q))"
proof -
  assume d: "distinct (map fst q)" and x: "fst x \<notin> fst ` set q"
  define a where "a = takeWhile (\<lambda>y. \<not> transactionCompare (snd x) (snd y)) q"
  define b where "b = dropWhile (\<lambda>y. \<not> transactionCompare (snd x) (snd y)) q"
  have q: "q = a @ b" and e: "queue_emplace x q = a @ x # b"
    by (simp_all add: a_def b_def queue_emplace_def)
  show ?thesis
    using d x unfolding e unfolding q by auto
qed

lemma sorted_dropWhile_ge:
  assumes "sorted (map f q)" and "y \<in> set (dropWhile (\<lambda>y. \<not> a \<le> f y) q)"
  shows "a \<le> (f y :: nat)"
  using assms by (induction q) (auto split: if_splits)

lemma sorted_queue_emplace:
  assumes "sorted (map (\<lambda>x. m_importTime (snd x)) q)"
  shows "sorted (map (\<lambda>x. m_importTime (snd x)) (queue_emplace x q))"
proof -
  let ?f = "\<lambda>x. m_importTime (snd x)"
  define a where "a = takeWhile (\<lambda>y. \<not> ?f x \<le> ?f y) q"
  define b where "b = dropWhile (\<lambda>y. \<not> ?f x \<le> ?f y) q"
  have e: "queue_emplace x q = a @ x # b"
    by (simp add: a_def b_def queue_emplace_def transactionCompare_def)
  have "sorted (map ?f (a @ b))"
    using assms by (simp add: a_def b_def)
  moreover have "\<forall>y \<in> set b. ?f x \<le> ?f y"
    using sorted_dropWhile_ge [OF assms] unfolding b_def by blast
  moreover have "\<forall>y \<in> set a. ?f y \<le> ?f x"
    unfolding a_def by (auto dest: set_takeWhileD)
  ultimately show ?thesis
    unfolding e by (force simp: sorted_append)
qed

lemma pool_ok_index:
  "pool_ok C p \<Longrightarrow> map_of (m_txsHash p) h = Some i \<longleftrightarrow> (\<exists>t. (i, t) \<in> set (m_txsQueue p) \<and> hash_is C t h)"
  by (simp add: pool_ok_def)

lemma pool_okI:
  assumes "distinct (map fst (m_txsQueue p))" and "\<And>i t. (i, t) \<in> set (m_txsQueue p) \<Longrightarrow> i < m_nextNode p"
    and "sorted (map (\<lambda>x. m_importTime (snd x)) (m_txsQueue p))"
    and "\<And>i t. (i, t) \<in> set (m_txsQueue p) \<Longrightarrow> \<exists>h. hash_is C t h"
    and "\<And>h i. map_of (m_txsHash p) h = Some i \<longleftrightarrow> (\<exists>t. (i, t) \<in> set (m_txsQueue p) \<and> hash_is C t h)"
    and "m_known p = dom (map_of (m_txsHash p))"
  shows "pool_ok C p"
  using assms unfolding pool_ok_def by (metis prod.collapse)

lemma pool_okD:
  assumes "pool_ok C p"
  shows "distinct (map fst (m_txsQueue p))" and "(i, t) \<in> set (m_txsQueue p) \<Longrightarrow> i < m_nextNode p"
    and "sorted (map (\<lambda>x. m_importTime (snd x)) (m_txsQueue p))"
    and "(i, t) \<in> set (m_txsQueue p) \<Longrightarrow> \<exists>h. hash_is C t h"
    and "m_known p = dom (map_of (m_txsHash p))"
  using assms unfolding pool_ok_def by force+

lemma pool_ok_insert:
  assumes ok: "pool_ok C p" and h: "hash_is C t h" and new: "map_of (m_txsHash p) h = None"
  shows "pool_ok C (p\<lparr>m_known := insert h (m_known p), m_txsQueue := queue_emplace (m_nextNode p, t) (m_txsQueue p),
    m_nextNode := Suc (m_nextNode p), m_txsHash := amap_set h (m_nextNode p) (m_txsHash p)\<rparr>)"
proof -
  let ?n = "m_nextNode p" and ?q = "m_txsQueue p"
  have fresh: "?n \<notin> fst ` set ?q"
    using pool_okD(2) [OF ok] by fastforce
  have index: "map_of (amap_set h ?n (m_txsHash p)) g = Some i \<longleftrightarrow> (\<exists>u. (i, u) \<in> insert (?n, t) (set ?q) \<and> hash_is C u g)" for g i
  proof (cases "g = h")
    case True
    then have "\<not> (\<exists>u. (i, u) \<in> set ?q \<and> hash_is C u g)"
      using new pool_ok_index [OF ok, of h i] by simp
    then show ?thesis
      using True h by auto
  next
    case False
    then have "\<not> hash_is C t g"
      using h hash_is_unique by blast
    then show ?thesis
      using False pool_ok_index [OF ok, of g i] by auto
  qed
  have d: "distinct (map fst (queue_emplace (?n, t) ?q))"
    using distinct_queue_emplace [of ?q "(?n, t)"] pool_okD(1) [OF ok] fresh by simp
  have l: "j < Suc ?n" if "(j, u) \<in> insert (?n, t) (set ?q)" for j u
    using that pool_okD(2) [OF ok, of j u] by auto
  have e: "\<exists>g. hash_is C u g" if "(j, u) \<in> insert (?n, t) (set ?q)" for j u
    using that h pool_okD(4) [OF ok, of j u] by auto
  show ?thesis
    using d l e index sorted_queue_emplace [OF pool_okD(3) [OF ok]] pool_okD(5) [OF ok] by (intro pool_okI) simp_all
qed

lemma pool_ok_found:
  assumes "pool_ok C p" and "map_of (m_txsHash p) h = Some i"
  obtains t where "map_of (m_txsQueue p) i = Some t" and "(i, t) \<in> set (m_txsQueue p)" and "hash_is C t h"
  using assms pool_ok_index [OF assms(1), of h i] pool_okD(1) [OF assms(1)] by (auto intro: map_of_is_SomeI)

lemma pool_ok_remove:
  assumes ok: "pool_ok C p" and i: "map_of (m_txsHash p) h = Some i"
  shows "pool_ok C (p\<lparr>m_txsQueue := queue_erase i (m_txsQueue p), m_txsHash := amap_del h (m_txsHash p), m_known := m_known p - {h}\<rparr>)"
proof -
  obtain t where t: "(i, t) \<in> set (m_txsQueue p)" "hash_is C t h"
    using pool_ok_found [OF ok i] by blast
  have d: "distinct (map fst (m_txsQueue p))"
    using ok by (simp add: pool_ok_def)
  have "map_of (amap_del h (m_txsHash p)) g = Some j \<longleftrightarrow>
      (\<exists>u. (j, u) \<in> set (queue_erase i (m_txsQueue p)) \<and> hash_is C u g)" for g j
  proof -
    have "j = i \<longleftrightarrow> g = h" if j: "(j, u) \<in> set (m_txsQueue p)" "hash_is C u g" for u
    proof
      assume "j = i"
      then have "u = t"
        using d j t by (metis eq_key_imp_eq_value)
      then show "g = h"
        using j t hash_is_unique by blast
    next
      assume "g = h"
      then show "j = i"
        using i j pool_ok_index [OF ok, of h j] by auto
    qed
    then show ?thesis
      using pool_ok_index [OF ok, of g j] by (auto simp: queue_erase_def)
  qed
  moreover have "j < m_nextNode p" "\<exists>g. hash_is C u g" if "(j, u) \<in> set (queue_erase i (m_txsQueue p))" for j u
    using that pool_okD(2,4) [OF ok, of j u] by (auto simp: queue_erase_def)
  moreover have "distinct (map fst (queue_erase i (m_txsQueue p)))"
    "sorted (map (\<lambda>x. m_importTime (snd x)) (queue_erase i (m_txsQueue p)))"
    using pool_okD(1,3) [OF ok] by (simp_all add: queue_erase_def distinct_map_filter sorted_filter)
  moreover have "m_known p - {h} = dom (map_of (amap_del h (m_txsHash p)))"
    using pool_okD(5) [OF ok] by simp
  ultimately show ?thesis
    by (intro pool_okI) simp_all
qed

lemma pool_ok_frame:
  assumes "pool_ok C p" and "m_txsQueue p' = m_txsQueue p" and "m_nextNode p' = m_nextNode p"
    and "m_txsHash p' = m_txsHash p" and "m_known p' = m_known p"
  shows "pool_ok C p'"
  using assms by (simp add: pool_ok_def)

section \<open>Every method keeps the indices\<close>

lemma removeTrans_absent: "map_of (m_txsHash p) h = None \<Longrightarrow> removeTrans h b r p = (Inr False, p)"
  by (simp add: removeTrans_def run_simps)

lemma removeTrans_present:
  assumes "map_of (m_txsHash p) h = Some i" and "map_of (m_txsQueue p) i = Some t"
  shows "removeTrans h b r p = (Inr True, p\<lparr>m_events := m_events p @ (case r of Some x \<Rightarrow> if b then [RpcCallback t x] else [] | None \<Rightarrow> []),
    m_txsQueue := queue_erase i (m_txsQueue p), m_txsHash := amap_del h (m_txsHash p), m_known := m_known p - {h},
    m_transactionKnownBy := amap_del h (m_transactionKnownBy p)\<rparr>)"
  using assms by (cases r) (auto simp: removeTrans_def removeTransactionKnowBy_def run_simps seqM_def whenM_def)

lemma removeTrans_sound [sound_rules]: "sound (pool_ok C) DanglingIterator (removeTrans h b r)"
  unfolding sound_def
proof (intro allI impI)
  fix p
  assume ok: "pool_ok C p"
  show "pool_ok C (snd (removeTrans h b r p)) \<and> fst (removeTrans h b r p) \<noteq> Inl DanglingIterator"
  proof (cases "map_of (m_txsHash p) h")
    case None
    then show ?thesis
      using ok by (simp add: removeTrans_absent)
  next
    case (Some i)
    then obtain t where "map_of (m_txsQueue p) i = Some t"
      using pool_ok_found [OF ok] by blast
    then show ?thesis
      using Some by (simp add: removeTrans_present) (rule pool_ok_frame [OF pool_ok_remove [OF ok Some]]; simp)
  qed
qed

lemma insert_tx_sound [sound_rules]: "sound (pool_ok C) DanglingIterator (insert_tx C t)"
  unfolding sound_def
proof (intro allI impI)
  fix p
  assume ok: "pool_ok C p"
  show "pool_ok C (snd (insert_tx C t p)) \<and> fst (insert_tx C t p) \<noteq> Inl DanglingIterator"
  proof (cases "tx_sha3 C t True")
    case (Inr r)
    obtain h t' where "r = (h, t')"
      by (cases r)
    then show ?thesis
      using ok Inr pool_ok_insert [OF ok hash_is_memo [of C t h t']]
      by (simp add: insert_tx_def liftP_def run_simps)
  qed (simp add: insert_tx_def liftP_def bindM_def run_simps ok)
qed

lemma sound_field:
  assumes "\<And>p. m_txsQueue (f p) = m_txsQueue p" "\<And>p. m_nextNode (f p) = m_nextNode p"
    "\<And>p. m_txsHash (f p) = m_txsHash p" "\<And>p. m_known (f p) = m_known p"
  shows "sound (pool_ok C) e (modifyM f)"
  using assms pool_ok_frame by (intro sound_modify) blast

lemma on_nonce_sound:
  assumes "\<And>n. fst (m n) \<noteq> Inl e"
  shows "sound (pool_ok C) e (on_nonce m)"
  unfolding sound_def
proof (intro allI impI)
  fix p
  assume "pool_ok C p"
  then show "pool_ok C (snd (on_nonce m p)) \<and> fst (on_nonce m p) \<noteq> Inl e"
    using assms [of "m_txNonceCheck p"] by (auto simp: on_nonce_def split: prod.splits elim: pool_ok_frame)
qed

lemma nonce_check_sound [sound_rules]: "sound (pool_ok C) e (isBlockLimitOrNonceOk C' ch t b)"
  by (auto simp: isBlockLimitOrNonceOk_def updateM_def split: prod.splits intro!: sound_rules on_nonce_sound)

lemma pool_nonce_sound [sound_rules]: "sound (pool_ok C) e (txPoolNonceCheck C' t)"
  by (auto simp: sound_def txPoolNonceCheck_def updateM_def isNonceOk_def Let_def elim: pool_ok_frame)

lemma updateCache_sound [sound_rules]: "sound (pool_ok C) DanglingIterator (on_nonce (updateCache C' ch b))"
  by (rule on_nonce_sound) (auto simp: updateCache_def catchM_def method_defs split: prod.splits sum.splits)

lemma verify_sound [sound_rules]: "sound (pool_ok C) DanglingIterator (verify_tx C' ch t pol b)"
  unfolding verify_tx_def by (intro sound_rules)

lemma import_sound [sound_rules]: "sound (pool_ok C) DanglingIterator (import_tx C ch now t ik)"
  unfolding import_tx_def Let_def by (intro sound_rules sound_field) simp_all

lemma import_bytes_sound [sound_rules]: "sound (pool_ok C) DanglingIterator (import_bytes C ch now bs ik)"
  unfolding import_bytes_def by (auto split: sum.splits intro!: sound_rules)

lemma submit_sound [sound_rules]: "sound (pool_ok C) DanglingIterator (submit C ch now t)"
  unfolding submit_def by (intro sound_rules sound_throw) simp

lemma drop_sound [sound_rules]: "sound (pool_ok C) DanglingIterator (drop_tx h)"
  unfolding drop_tx_def by (intro sound_rules sound_field) simp_all

lemma drop_loop_sound [sound_rules]: "sound (pool_ok C) DanglingIterator (drop_loop C' block i ts b)"
  by (induction C' block i ts b rule: drop_loop.induct) (auto intro!: sound_rules)

lemma dropBlockTrans_sound [sound_rules]: "sound (pool_ok C) DanglingIterator (dropBlockTrans C' ch block)"
  unfolding dropBlockTrans_def dropTransactions_def by (intro sound_rules sound_field) simp_all

lemma top_loop_sound [sound_rules]: "sound (pool_ok C) DanglingIterator (top_loop C' ch limit u q a)"
  by (induction C' ch limit u q a rule: top_loop.induct) (auto intro!: sound_rules)

lemma top_sound [sound_rules]: "sound (pool_ok C) DanglingIterator (topTransactions C' ch limit avoid u)"
  unfolding topTransactions_def by (intro sound_rules sound_field) simp_all

lemma condition_not_dangling: "condition_loop cond limit q ret \<noteq> Inl DanglingIterator"
  by (induction cond limit q ret rule: condition_loop.induct) (auto split: option.splits)

lemma condition_sound [sound_rules]: "sound (pool_ok C) DanglingIterator (topTransactionsCondition limit cond)"
  by (simp add: sound_def topTransactionsCondition_def run_simps condition_not_dangling)

lemma clear_sound [sound_rules]: "sound (pool_ok C) e pool_clear"
  unfolding pool_clear_def by (rule sound_modify) (simp add: pool_ok_def)

section \<open>Sequences of calls\<close>

datatype pool_op =
    OpSubmit pool_chain nat transaction | OpImport pool_chain nat bytes if_dropped | OpImportTx pool_chain nat transaction if_dropped
  | OpDrop bytes | OpDropBlock pool_chain block | OpBadBlock block | OpTop pool_chain nat "bytes set" bool
  | OpTopIf nat "(transaction \<Rightarrow> bool) option" | OpKnownBy bytes bytes | OpLimit nat | OpBlockLimit "32 word" | OpClear

definition ignore :: "('s, 'e, 'a) action \<Rightarrow> ('s, 'e, unit) action" where
  "ignore m = bindM m (\<lambda>_. returnM ())"

fun pool_apply :: "crypto \<Rightarrow> pool_op \<Rightarrow> unit pool_method" where
  "pool_apply C (OpSubmit ch now t) = ignore (submit C ch now t)"
| "pool_apply C (OpImport ch now bs ik) = ignore (import_bytes C ch now bs ik)"
| "pool_apply C (OpImportTx ch now t ik) = ignore (import_tx C ch now t ik)"
| "pool_apply C (OpDrop h) = ignore (drop_tx h)"
| "pool_apply C (OpDropBlock ch b) = ignore (dropBlockTrans C ch b)"
| "pool_apply C (OpBadBlock b) = ignore (handleBadBlock b)"
| "pool_apply C (OpTop ch lim avoid u) = ignore (topTransactions C ch lim avoid u)"
| "pool_apply C (OpTopIf lim c) = ignore (topTransactionsCondition lim c)"
| "pool_apply C (OpKnownBy h n) = transactionIsKnownBy h n"
| "pool_apply C (OpLimit l) = setTxPoolLimit l"
| "pool_apply C (OpBlockLimit l) = setMaxBlockLimit l"
| "pool_apply C OpClear = pool_clear"

text \<open>A caller goes on after an exception.\<close>

definition pool_run :: "crypto \<Rightarrow> pool_op list \<Rightarrow> txpool \<Rightarrow> txpool" where
  "pool_run C ops p = fold (\<lambda>op p. snd (pool_apply C op p)) ops p"

lemma pool_apply_sound: "sound (pool_ok C) DanglingIterator (pool_apply C op)"
proof (cases op)
  case (OpBlockLimit l)
  then show ?thesis
    by (auto simp: setMaxBlockLimit_def modifyM_def intro!: on_nonce_sound)
qed (auto simp: ignore_def handleBadBlock_def transactionIsKnownBy_def setTxPoolLimit_def intro!: sound_rules sound_field)

lemma pool_run_ok: "pool_ok C p \<Longrightarrow> pool_ok C (pool_run C ops p)"
  unfolding pool_run_def
  by (induction ops arbitrary: p) (use pool_apply_sound in \<open>auto simp: sound_def\<close>)

lemma TxPool_ok: "TxPool C ch pid limit = Inr p \<Longrightarrow> pool_ok C p"
  by (auto simp: TxPool_def pool_ok_def split: if_splits prod.splits sum.splits)

section \<open>The bound of the queue\<close>

definition bounded :: "nat \<Rightarrow> nat \<Rightarrow> txpool \<Rightarrow> bool" where
  "bounded L n p \<longleftrightarrow> m_limit p = L \<and> length (m_txsQueue p) \<le> n"

lemma bounded_frame: "bounded L n p \<Longrightarrow> m_limit p' = m_limit p \<Longrightarrow> length (m_txsQueue p') \<le> length (m_txsQueue p) \<Longrightarrow> bounded L n p'"
  by (simp add: bounded_def)

lemma keeps_bounded:
  assumes "\<And>p. m_limit (f p) = m_limit p" "\<And>p. length (m_txsQueue (f p)) \<le> length (m_txsQueue p)"
  shows "keeps (bounded L n) (modifyM f)"
  using assms bounded_frame by (intro keeps_modify) blast

lemma keeps_bounded_nonce [keeps_rules]: "keeps (bounded L n) (on_nonce m)"
  by (auto simp: keeps_def on_nonce_def bounded_def split: prod.splits)

lemma keeps_bounded_pool_nonce [keeps_rules]: "keeps (bounded L n) (txPoolNonceCheck C t)"
  by (auto simp: keeps_def txPoolNonceCheck_def updateM_def isNonceOk_def Let_def bounded_def)

lemma removeTrans_bounded [keeps_rules]: "keeps (bounded L n) (removeTrans h b r)"
  unfolding removeTrans_def removeTransactionKnowBy_def
  by (intro keeps_rules keeps_bounded) (simp_all add: queue_erase_def)

lemma nonce_check_bounded [keeps_rules]: "keeps (bounded L n) (isBlockLimitOrNonceOk C ch t b)"
  unfolding isBlockLimitOrNonceOk_def by (intro keeps_rules)

lemma verify_bounded [keeps_rules]: "keeps (bounded L n) (verify_tx C ch t pol b)"
  unfolding verify_tx_def by (intro keeps_rules)

lemma insert_bounded: "bounded L n p \<Longrightarrow> bounded L (Suc n) (snd (insert_tx C t p))"
proof (cases "tx_sha3 C t True")
  case (Inr r)
  assume "bounded L n p"
  moreover have "length (queue_emplace x q) = Suc (length q)" for x q
    unfolding queue_emplace_def by (metis add_Suc_right length_Cons length_append takeWhile_dropWhile_id)
  ultimately show ?thesis
    by (cases r) (simp add: Inr insert_tx_def liftP_def run_simps bounded_def)
qed (simp add: insert_tx_def liftP_def bindM_def run_simps bounded_def)

lemma import_bounded [keeps_rules]: "keeps (bounded L L) (import_tx C ch now t ik)"
proof (rule keepsI)
  fix p
  assume p: "bounded L L p"
  let ?t = "t\<lparr>m_importTime := now\<rparr>"
  show "bounded L L (snd (import_tx C ch now t ik p))"
  proof (cases "length (m_txsQueue p) \<ge> m_limit p")
    case True
    then show ?thesis
      using p by (simp add: import_tx_def Let_def run_simps)
  next
    case False
    then obtain n where L: "L = Suc n" and n: "bounded L n p"
      using p by (cases L) (auto simp: bounded_def)
    obtain v p1 where v: "verify_tx C ch ?t Ignore False p = (v, p1)"
      by fastforce
    have p1: "bounded L n p1"
      using keepsD [OF verify_bounded n v] .
    show ?thesis
    proof (cases v)
      case (Inl e)
      then show ?thesis
        using False v p1 by (simp add: import_tx_def Let_def run_simps bindM_def L bounded_def)
    next
      case (Inr r)
      obtain ret u where r: "r = (ret, u)"
        by (cases r)
      obtain w p2 where w: "insert_tx C u p1 = (w, p2)"
        by fastforce
      have "bounded L L p2"
        using insert_bounded [OF p1, of C u] w by (simp add: L)
      then show ?thesis
        using False v p1 Inr r w
        by (cases w) (auto simp: import_tx_def Let_def run_simps bindM_def seqM_def whenM_def L bounded_def)
    qed
  qed
qed

lemma import_bytes_bounded [keeps_rules]: "keeps (bounded L L) (import_bytes C ch now bs ik)"
  unfolding import_bytes_def by (auto split: sum.splits intro!: keeps_rules)

lemma drop_loop_bounded [keeps_rules]: "keeps (bounded L n) (drop_loop C block i ts b)"
  by (induction C block i ts b rule: drop_loop.induct) (auto intro!: keeps_rules)

lemma top_loop_bounded [keeps_rules]: "keeps (bounded L n) (top_loop C ch limit u q a)"
  by (induction C ch limit u q a rule: top_loop.induct) (auto intro!: keeps_rules)

lemma submit_bounded [keeps_rules]: "keeps (bounded L L) (submit C ch now t)"
  unfolding submit_def by (intro keeps_rules)

lemma drop_bounded [keeps_rules]: "keeps (bounded L n) (drop_tx h)"
  unfolding drop_tx_def by (intro keeps_rules keeps_bounded) simp_all

lemma dropBlockTrans_bounded [keeps_rules]: "keeps (bounded L n) (dropBlockTrans C ch block)"
  unfolding dropBlockTrans_def dropTransactions_def by (intro keeps_rules keeps_bounded) simp_all

lemma top_bounded [keeps_rules]: "keeps (bounded L n) (topTransactions C ch limit avoid u)"
  unfolding topTransactions_def by (intro keeps_rules keeps_bounded) simp_all

lemma pool_apply_bounded: "(\<And>l. op \<noteq> OpLimit l) \<Longrightarrow> keeps (bounded L L) (pool_apply C op)"
  by (cases op)
    (auto simp: ignore_def handleBadBlock_def transactionIsKnownBy_def setMaxBlockLimit_def pool_clear_def topTransactionsCondition_def
      intro!: keeps_rules keeps_bounded)

lemma pool_run_bounded: "(\<And>l. OpLimit l \<notin> set ops) \<Longrightarrow> bounded L L p \<Longrightarrow> bounded L L (pool_run C ops p)"
  unfolding pool_run_def
proof (induction ops arbitrary: p)
  case (Cons op ops)
  have "bounded L L (snd (pool_apply C op p))"
    using Cons.prems pool_apply_bounded [of op L C] unfolding keeps_def by (metis list.set_intros(1))
  then show ?case
    using Cons.IH [of "snd (pool_apply C op p)"] Cons.prems(1) by simp
qed simp

definition hash_of :: "crypto \<Rightarrow> transaction \<Rightarrow> bytes" where
  "hash_of C t = (case tx_sha3 C t True of Inr (h, _) \<Rightarrow> h | Inl _ \<Rightarrow> [])"

lemma hash_of_eq: "hash_is C t h \<Longrightarrow> hash_of C t = h"
  by (simp add: hash_of_def hash_is_def)

lemma pool_ok_hash: "pool_ok C p \<Longrightarrow> (i, t) \<in> set (m_txsQueue p) \<Longrightarrow> hash_is C t (hash_of C t)"
  using pool_okD(4) hash_of_eq by fastforce

lemma pool_ok_known:
  assumes "pool_ok C p"
  shows "m_known p = hash_of C ` set (pendingList p)"
proof -
  have "h \<in> m_known p \<longleftrightarrow> (\<exists>i t. (i, t) \<in> set (m_txsQueue p) \<and> hash_is C t h)" for h
    using pool_okD(5) [OF assms] pool_ok_index [OF assms, of h] by (auto simp: dom_def)
  moreover have "(\<exists>i t. (i, t) \<in> set (m_txsQueue p) \<and> hash_is C t h) \<longleftrightarrow> h \<in> hash_of C ` snd ` set (m_txsQueue p)" for h
  proof
    assume "h \<in> hash_of C ` snd ` set (m_txsQueue p)"
    then obtain i t where "(i, t) \<in> set (m_txsQueue p)" "h = hash_of C t"
      by auto
    then show "\<exists>i t. (i, t) \<in> set (m_txsQueue p) \<and> hash_is C t h"
      using pool_ok_hash [OF assms] by blast
  qed (force simp: hash_of_eq)
  ultimately show ?thesis
    by (auto simp: pendingList_def)
qed

lemma pool_ok_distinct:
  assumes ok: "pool_ok C p"
  shows "distinct (map (hash_of C) (pendingList p))"
proof -
  have "x = y" if xy: "x \<in> set (m_txsQueue p)" "y \<in> set (m_txsQueue p)" "hash_of C (snd x) = hash_of C (snd y)" for x y
  proof -
    obtain i t j u where e: "x = (i, t)" "y = (j, u)"
      by (cases x, cases y)
    have "map_of (m_txsHash p) (hash_of C t) = Some i" "map_of (m_txsHash p) (hash_of C u) = Some j"
      using xy(1,2) pool_ok_hash [OF ok] pool_ok_index [OF ok] unfolding e by blast+
    then have "i = j"
      using xy(3) e by simp
    then show ?thesis
      using xy e pool_okD(1) [OF ok] by (metis eq_key_imp_eq_value)
  qed
  moreover have "distinct (m_txsQueue p)"
    using pool_okD(1) [OF ok] by (simp add: distinct_map)
  ultimately show ?thesis
    by (auto simp: pendingList_def distinct_map inj_on_def)
qed

text \<open>
  C9. After every sequence of calls on a new pool, whatever they return or throw, the pending transactions have
  pairwise different hashes and are in the order of their import times, the known hashes are exactly theirs, no more of them
  are pending than the limit unless the limit was changed, and no further call uses an iterator of the
  hash index whose node has left the queue.
\<close>

theorem txpool_consistent:
  assumes "TxPool C ch protocolId limit = Inr p0" and "p = pool_run C ops p0"
  shows "distinct (map (hash_of C) (pendingList p)) \<and> m_known p = hash_of C ` set (pendingList p)
    \<and> sorted (map m_importTime (pendingList p))
    \<and> ((\<forall>l. OpLimit l \<notin> set ops) \<longrightarrow> pendingSize p \<le> limit)
    \<and> fst (pool_apply C op p) \<noteq> Inl DanglingIterator"
proof -
  have ok: "pool_ok C p"
    using TxPool_ok [OF assms(1)] assms(2) pool_run_ok by simp
  moreover have "pendingSize p \<le> limit" if "\<forall>l. OpLimit l \<notin> set ops"
  proof -
    have "bounded limit limit p0"
      using assms(1) by (auto simp: TxPool_def bounded_def split: if_splits prod.splits sum.splits)
    then show ?thesis
      using that assms(2) pool_run_bounded [of ops limit p0 C] by (simp add: bounded_def pendingSize_def)
  qed
  ultimately show ?thesis
    using pool_ok_distinct [OF ok] pool_ok_known [OF ok] pool_okD(3) [OF ok] pool_apply_sound [of C op]
    by (simp add: sound_def pendingList_def comp_def)
qed

section \<open>The transactions for the next block\<close>

definition valid_tx :: "crypto \<Rightarrow> pool_chain \<Rightarrow> tx_nonce_check \<Rightarrow> transaction \<Rightarrow> bool" where
  "valid_tx C ch n t \<longleftrightarrow> m_nonce t \<noteq> Invalid256 \<and> isBlockLimitOk ch t n \<and> generateKey C t \<notin> nc_cache n"

lemma nonce_check_run: "isBlockLimitOrNonceOk C ch t False p = (Inr (valid_tx C ch (m_txNonceCheck p) t), p)"
  by (simp add: isBlockLimitOrNonceOk_def valid_tx_def on_nonce_def nonce_ok_def isNonceOk_def Let_def method_defs)

definition good_tx :: "crypto \<Rightarrow> pool_chain \<Rightarrow> tx_nonce_check \<Rightarrow> bytes set \<Rightarrow> transaction \<Rightarrow> bool" where
  "good_tx C ch n avoid t \<longleftrightarrow> valid_tx C ch n t \<and> hash_of C t \<notin> avoid"

lemma good_insert: "hash_of C t \<noteq> h \<Longrightarrow> good_tx C ch n (insert h avoid) t = good_tx C ch n avoid t"
  by (simp add: good_tx_def)

lemma set_hset_insert [simp]: "set (hset_insert h s) = insert h (set s)"
  by (simp only: hset_insert_def set_split_insert split: if_split) blast

text \<open>The loop stops after \<open>k\<close> nodes.\<close>

definition top_after :: "crypto \<Rightarrow> pool_chain \<Rightarrow> tx_nonce_check \<Rightarrow> bool \<Rightarrow> transaction list \<Rightarrow> top_acc \<Rightarrow> top_acc \<Rightarrow> bool" where
  "top_after C ch n u ts a b \<longleftrightarrow>
     top_ret b = top_ret a @ filter (good_tx C ch n (top_avoid a)) ts
     \<and> top_avoid b = top_avoid a \<union> (if u then hash_of C ` set (filter (good_tx C ch n (top_avoid a)) ts) else {})
     \<and> set (top_bad b) = set (top_bad a) \<union> hash_of C ` {t \<in> set ts. \<not> valid_tx C ch n t}"

lemma top_after_Cons_bad:
  "\<not> valid_tx C ch n t \<Longrightarrow> top_after C ch n u ts (a\<lparr>top_bad := hset_insert (hash_of C t) (top_bad a), top_keys := k\<rparr>) b
    \<Longrightarrow> top_after C ch n u (t # ts) a b"
  by (auto simp: top_after_def good_tx_def)

lemma top_after_Cons_skip:
  "valid_tx C ch n t \<Longrightarrow> hash_of C t \<in> top_avoid a \<Longrightarrow> top_after C ch n u ts a b \<Longrightarrow> top_after C ch n u (t # ts) a b"
  by (auto simp: top_after_def good_tx_def)

lemma top_after_Cons_take:
  assumes "valid_tx C ch n t" "hash_of C t \<notin> top_avoid a" "hash_of C t \<notin> hash_of C ` set ts"
    and "top_after C ch n u ts (a\<lparr>top_ret := top_ret a @ [t], top_avoid := (if u then insert (hash_of C t) (top_avoid a) else top_avoid a)\<rparr>) b"
  shows "top_after C ch n u (t # ts) a b"
proof -
  have "filter (good_tx C ch n (insert (hash_of C t) (top_avoid a))) ts = filter (good_tx C ch n (top_avoid a)) ts"
    using assms(3) by (intro filter_cong refl good_insert) (metis image_eqI)
  then show ?thesis
    using assms by (cases u) (auto simp: top_after_def good_tx_def)
qed

lemma top_loop_run:
  assumes "\<And>i t. (i, t) \<in> set q \<Longrightarrow> hash_is C t (hash_of C t)" and "distinct (map (hash_of C) (map snd q))"
    and "length (top_ret a) \<le> limit"
  shows "\<exists>k b. k \<le> length q \<and> top_loop C ch limit u q a p = (Inr b, p) \<and> top_after C ch (m_txNonceCheck p) u (take k (map snd q)) a b
    \<and> length (top_ret b) \<le> limit \<and> (k < length q \<longrightarrow> length (top_ret b) = limit)"
  using assms
proof (induction q arbitrary: a)
  case Nil
  then show ?case
    by (simp add: run_simps top_after_def)
next
  case (Cons x q)
  obtain i t where x: "x = (i, t)"
    by (cases x)
  let ?n = "m_txNonceCheck p" and ?h = "hash_of C t"
  have h: "tx_sha3 C t True = Inr (?h, t)"
    using Cons.prems(1) [of i t] by (simp add: x hash_is_def)
  have new: "?h \<notin> hash_of C ` set (take k (map snd q))" for k
    using Cons.prems(2) by (auto simp: x dest!: in_set_takeD)
  show ?case
  proof (cases "length (top_ret a) < limit")
    case False
    then have "top_loop C ch limit u (x # q) a p = (Inr a, p)" "top_after C ch ?n u (take 0 (map snd (x # q))) a a"
      by (simp_all add: x run_simps top_after_def)
    then show ?thesis
      using False Cons.prems(3) by (intro exI [of _ 0] exI [of _ a]) auto
  next
    case True
    have step: ?thesis if run: "top_loop C ch limit u (x # q) a p = top_loop C ch limit u q a' p"
      and len: "length (top_ret a') \<le> limit"
      and after: "\<And>k b. top_after C ch ?n u (take k (map snd q)) a' b \<Longrightarrow> top_after C ch ?n u (t # take k (map snd q)) a b" for a'
    proof -
      obtain k b where "k \<le> length q" "top_loop C ch limit u q a' p = (Inr b, p)" "top_after C ch ?n u (take k (map snd q)) a' b"
        "length (top_ret b) \<le> limit" "k < length q \<longrightarrow> length (top_ret b) = limit"
        using Cons.IH [of a'] Cons.prems(1,2) len by auto
      then show ?thesis
        using run after by (intro exI [of _ "Suc k"] exI [of _ b]) (simp add: x)
    qed
    consider "\<not> valid_tx C ch ?n t" | "valid_tx C ch ?n t" "?h \<in> top_avoid a" | "valid_tx C ch ?n t" "?h \<notin> top_avoid a"
      by blast
    then show ?thesis
    proof cases
      case 1
      then show ?thesis
        using True h Cons.prems(3)
        by (intro step [of "a\<lparr>top_bad := hset_insert ?h (top_bad a), top_keys := insert (generateKey C t) (top_keys a)\<rparr>"])
          (auto simp: x nonce_check_run run_simps liftP_def intro: top_after_Cons_bad)
    next
      case 2
      then show ?thesis
        using True h Cons.prems(3)
        by (intro step [of a]) (auto simp: x nonce_check_run run_simps liftP_def intro: top_after_Cons_skip)
    next
      case 3
      then show ?thesis
        using True h new
        by (intro step [of "a\<lparr>top_ret := top_ret a @ [t], top_avoid := (if u then insert ?h (top_avoid a) else top_avoid a)\<rparr>"])
          (simp add: x nonce_check_run run_simps liftP_def, simp, rule top_after_Cons_take, simp_all)
    qed
  qed
qed

lemma removeTrans_run:
  assumes ok: "pool_ok C p"
  obtains b p' where "removeTrans h False None p = (Inr b, p')" "pool_ok C p'"
    "m_txsQueue p' = filter (\<lambda>x. hash_of C (snd x) \<noteq> h) (m_txsQueue p)"
    "m_txNonceCheck p' = m_txNonceCheck p" "m_commonNonceCheck p' = m_commonNonceCheck p" "m_dropped p' = m_dropped p"
proof (cases "map_of (m_txsHash p) h")
  case None
  have "hash_of C t \<noteq> h" if "(i, t) \<in> set (m_txsQueue p)" for i t
    using None that pool_ok_hash [OF ok that] pool_ok_index [OF ok, of h i] by auto
  then have "filter (\<lambda>x. hash_of C (snd x) \<noteq> h) (m_txsQueue p) = m_txsQueue p"
    by (intro filter_True) fastforce
  then show ?thesis
    using that [of False p] None ok by (simp add: removeTrans_absent)
next
  case (Some i)
  obtain t where t: "map_of (m_txsQueue p) i = Some t" "(i, t) \<in> set (m_txsQueue p)" "hash_is C t h"
    using pool_ok_found [OF ok Some] by blast
  have "fst x \<noteq> i \<longleftrightarrow> hash_of C (snd x) \<noteq> h" if x: "x \<in> set (m_txsQueue p)" for x
  proof -
    obtain j u where e: "x = (j, u)"
      by (cases x)
    have "map_of (m_txsHash p) (hash_of C u) = Some j"
      using x e pool_ok_hash [OF ok] pool_ok_index [OF ok] by blast
    moreover have "u = t" if "j = i"
      using that x e t(1) pool_okD(1) [OF ok] by (metis map_of_is_SomeI option.inject)
    ultimately show ?thesis
      using Some t(3) hash_of_eq [of C t h] by (auto simp: e)
  qed
  then have q: "queue_erase i (m_txsQueue p) = filter (\<lambda>x. hash_of C (snd x) \<noteq> h) (m_txsQueue p)"
    unfolding queue_erase_def by (rule filter_cong [OF refl])
  have "sound (pool_ok C) DanglingIterator (removeTrans h False None)"
    by (rule removeTrans_sound)
  then have "pool_ok C (snd (removeTrans h False None p))"
    using ok by (simp add: sound_def)
  then show ?thesis
    using that q by (simp add: removeTrans_present [OF Some t(1)])
qed

lemma remove_loop_run:
  assumes "pool_ok C p"
  shows "\<exists>p'. forM hs (\<lambda>h. bindM (removeTrans h False None) (\<lambda>_. modifyM (\<lambda>p. p\<lparr>m_dropped := insert h (m_dropped p)\<rparr>))) p = (Inr (), p')
    \<and> m_txsQueue p' = filter (\<lambda>x. hash_of C (snd x) \<notin> set hs) (m_txsQueue p) \<and> m_dropped p' = m_dropped p \<union> set hs
    \<and> m_txNonceCheck p' = m_txNonceCheck p"
  using assms
proof (induction hs arbitrary: p)
  case Nil
  then show ?case
    by (simp add: run_simps)
next
  case (Cons h hs)
  obtain b p1 where r: "removeTrans h False None p = (Inr b, p1)" "pool_ok C p1"
    "m_txsQueue p1 = filter (\<lambda>x. hash_of C (snd x) \<noteq> h) (m_txsQueue p)" "m_txNonceCheck p1 = m_txNonceCheck p" "m_dropped p1 = m_dropped p"
    using removeTrans_run [OF Cons.prems] by metis
  let ?p = "p1\<lparr>m_dropped := insert h (m_dropped p1)\<rparr>"
  have "pool_ok C ?p"
    using r(2) by (rule pool_ok_frame) simp_all
  from Cons.IH [OF this] show ?case
    using r by (auto simp: bindM_def modifyM_def intro!: filter_cong)
qed

text \<open>
  C10. In every reachable state \<open>topTransactions\<close> scans a prefix of the pending transactions and returns, oldest import first, those
  whose block limit and nonce the chain still allows and that are not to be avoided, at most as many as the
  two limits allow; it stops early only when it has that many. Exactly the scanned transactions that are no longer
  valid leave the pool, and their hashes are recorded as dropped.
\<close>

theorem topTransactions_spec:
  assumes "TxPool C ch0 protocolId limit = Inr p0" and "p = pool_run C ops p0"
  shows "\<exists>k ret p'. topTransactions C ch lim avoid u p = (Inr (ret, avoid \<union> (if u then hash_of C ` set ret else {})), p')
    \<and> ret = filter (\<lambda>t. valid_tx C ch (m_txNonceCheck p) t \<and> hash_of C t \<notin> avoid) (take k (pendingList p))
    \<and> length ret \<le> min (m_limit p) lim \<and> (k < pendingSize p \<longrightarrow> length ret = min (m_limit p) lim)
    \<and> pendingList p' = filter (valid_tx C ch (m_txNonceCheck p)) (take k (pendingList p)) @ drop k (pendingList p)
    \<and> m_dropped p' = m_dropped p \<union> hash_of C ` {t \<in> set (take k (pendingList p)). \<not> valid_tx C ch (m_txNonceCheck p) t}"
proof -
  have ok: "pool_ok C p"
    using TxPool_ok [OF assms(1)] assms(2) pool_run_ok by simp
  let ?L = "min (m_limit p) lim" and ?q = "m_txsQueue p" and ?n = "m_txNonceCheck p" and ?ts = "pendingList p"
  let ?a = "\<lparr>top_ret = [], top_avoid = avoid, top_bad = [], top_keys = {}\<rparr>"
  have d: "distinct (map (hash_of C) ?ts)"
    by (rule pool_ok_distinct [OF ok])
  obtain k b where k: "k \<le> length ?q" and b: "top_loop C ch ?L u ?q ?a p = (Inr b, p)" "top_after C ch ?n u (take k ?ts) ?a b"
    and len: "length (top_ret b) \<le> ?L" "k < length ?q \<longrightarrow> length (top_ret b) = ?L"
    using top_loop_run [of ?q C ?a ?L ch u p] pool_ok_hash [OF ok] d by (auto simp: pendingList_def)
  obtain p1 where p1: "forM (top_bad b) (\<lambda>h. bindM (removeTrans h False None) (\<lambda>_. modifyM (\<lambda>p. p\<lparr>m_dropped := insert h (m_dropped p)\<rparr>))) p = (Inr (), p1)"
    "m_txsQueue p1 = filter (\<lambda>x. hash_of C (snd x) \<notin> set (top_bad b)) ?q" "m_dropped p1 = m_dropped p \<union> set (top_bad b)"
    using remove_loop_run [OF ok] by blast
  let ?p = "p1\<lparr>m_commonNonceCheck := m_commonNonceCheck p1 - top_keys b\<rparr>"
  have run: "topTransactions C ch lim avoid u p = (Inr (top_ret b, top_avoid b), ?p)"
    using b(1) p1(1) by (simp add: topTransactions_def run_simps bindM_def seqM_def modifyM_def returnM_def getM_def)
  have bad: "set (top_bad b) = hash_of C ` {t \<in> set (take k ?ts). \<not> valid_tx C ch ?n t}"
    using b(2) by (simp add: top_after_def)
  have ret: "top_ret b = filter (\<lambda>t. valid_tx C ch ?n t \<and> hash_of C t \<notin> avoid) (take k ?ts)"
    "top_avoid b = avoid \<union> (if u then hash_of C ` set (top_ret b) else {})"
    using b(2) by (simp_all add: top_after_def good_tx_def [abs_def])
  have inj: "hash_of C t \<in> set (top_bad b) \<longleftrightarrow> t \<in> set (take k ?ts) \<and> \<not> valid_tx C ch ?n t" if t: "t \<in> set ?ts" for t
    using d t unfolding bad distinct_map by (auto dest: in_set_takeD simp: inj_on_def)
  have disj: "t \<notin> set (drop k ?ts)" if "t \<in> set (take k ?ts)" for t
    using d that by (metis append_take_drop_id distinct_append distinct_map disjoint_iff)
  have "pendingList ?p = filter (\<lambda>t. hash_of C t \<notin> set (top_bad b)) ?ts"
    by (simp add: pendingList_def p1(2) filter_map comp_def)
  also have "\<dots> = filter (\<lambda>t. hash_of C t \<notin> set (top_bad b)) (take k ?ts) @ filter (\<lambda>t. hash_of C t \<notin> set (top_bad b)) (drop k ?ts)"
    by (metis append_take_drop_id filter_append)
  also have "\<dots> = filter (valid_tx C ch ?n) (take k ?ts) @ drop k ?ts"
    using inj disj by (intro arg_cong2 [where f = append] filter_cong filter_True) (auto dest: in_set_takeD in_set_dropD)
  finally have "pendingList ?p = filter (valid_tx C ch ?n) (take k ?ts) @ drop k ?ts" .
  then show ?thesis
    using run ret len p1(3) bad by (intro exI [of _ k] exI [of _ "top_ret b"] exI [of _ ?p]) (simp add: pendingSize_def)
qed

section \<open>The window of remembered nonces\<close>

definition block_keys :: "crypto \<Rightarrow> pool_chain \<Rightarrow> nat \<Rightarrow> string set" where
  "block_keys C ch i = (case pc_block ch i of Inl _ \<Rightarrow> {} | Inr ts \<Rightarrow> generateKey C ` set ts)"

abbreviation has_block :: "pool_chain \<Rightarrow> nat \<Rightarrow> bool" where
  "has_block ch i \<equiv> \<exists>ts. pc_block ch i = Inr ts"

lemma forget_keys_run:
  "forM ts (\<lambda>t. modifyM (\<lambda>n. n\<lparr>nc_cache := delCache_key (generateKey C t) (nc_cache n)\<rparr>)) n
     = (Inr (), n\<lparr>nc_cache := nc_cache n - generateKey C ` set ts\<rparr>)"
  by (induction ts arbitrary: n) (simp_all add: run_simps bindM_def modifyM_def delCache_key_def Diff_insert2 [symmetric])

lemma remember_keys_run:
  "forM ts (\<lambda>t. modifyM (\<lambda>n. n\<lparr>nc_cache := insertCache C t (nc_cache n)\<rparr>)) n
     = (Inr (), n\<lparr>nc_cache := nc_cache n \<union> generateKey C ` set ts\<rparr>)"
  by (induction ts arbitrary: n) (simp_all add: run_simps bindM_def modifyM_def insertCache_def)

lemma forget_block_run: "has_block ch i \<Longrightarrow> forget_block C ch i n = (Inr (), n\<lparr>nc_cache := nc_cache n - block_keys C ch i\<rparr>)"
  by (auto simp: forget_block_def block_keys_def run_simps forget_keys_run)

lemma remember_block_run: "has_block ch i \<Longrightarrow> remember_block C ch i n = (Inr (), n\<lparr>nc_cache := nc_cache n \<union> block_keys C ch i\<rparr>)"
  by (auto simp: remember_block_def block_keys_def run_simps remember_keys_run)

lemma forget_loop_run:
  "(\<And>i. i \<in> set is \<Longrightarrow> has_block ch i) \<Longrightarrow>
     forM is (forget_block C ch) n = (Inr (), n\<lparr>nc_cache := nc_cache n - (\<Union>i \<in> set is. block_keys C ch i)\<rparr>)"
  by (induction "is" arbitrary: n) (simp_all add: run_simps bindM_def forget_block_run Diff_Un Diff_eq Int_assoc)

lemma remember_blocks_run:
  "(\<And>i. i \<in> set is \<Longrightarrow> has_block ch i) \<Longrightarrow>
     forM is (remember_block C ch) n = (Inr (), n\<lparr>nc_cache := nc_cache n \<union> (\<Union>i \<in> set is. block_keys C ch i)\<rparr>)"
  by (induction "is" arbitrary: n) (simp_all add: run_simps bindM_def remember_block_run Un_assoc)

text \<open>The first block of the window that ends with block \<open>e\<close>.\<close>

definition window_start :: "32 word \<Rightarrow> 32 word \<Rightarrow> 32 word" where
  "window_start limit e = (if e > limit then e - limit else 0)"

lemma unat_window_start: "unat (window_start limit e) = unat e - unat limit"
  by (simp add: window_start_def word_less_nat_alt unat_sub_if')

lemma unat_number: "0 \<le> k \<Longrightarrow> k < 2 ^ 32 - 1 \<Longrightarrow> unat (word_of_int k :: 32 word) = nat k"
  by (simp add: unat_eq_nat_uint uint_word_of_int)

lemma bind_getM: "bindM (getM f) k s = k (f s) s"
  by (simp add: bindM_def getM_def)

lemma bind_modifyM: "bindM (modifyM f) k s = k () (f s)"
  by (simp add: bindM_def modifyM_def)

lemma updateCache_run:
  fixes n :: tx_nonce_check and ch :: pool_chain
  defines "e \<equiv> nat (pc_number ch)" and "s \<equiv> window_start (m_maxBlockLimit n) (word_of_int (pc_number ch))"
  assumes range: "0 \<le> pc_number ch" "pc_number ch < 2 ^ 32 - 1"
    and blocks: "\<And>i. i \<le> e \<Longrightarrow> has_block ch i"
    and pre: "unat (m_endblk n) \<le> e"
  shows "updateCache C ch rebuild n = (Inr (), n\<lparr>m_endblk := word_of_int (pc_number ch), m_startblk := s,
    nc_cache := (if rebuild then {} else nc_cache n - (\<Union>i \<in> {unat (m_startblk n)..<unat s}. block_keys C ch i))
      \<union> (\<Union>i \<in> {max (Suc (if rebuild then 0 else unat (m_endblk n))) (unat s)..e}. block_keys C ch i)\<rparr>)"
proof -
  let ?e = "word_of_int (pc_number ch) :: 32 word"
  let ?pe = "if rebuild then 0 else m_endblk n"
  have e: "unat ?e = e"
    unfolding e_def by (rule unat_number [OF range])
  have m: "?e \<noteq> - 1"
  proof
    assume "?e = - 1"
    then have "unat ?e = 2 ^ 32 - 1"
      by (simp add: unsigned_minus_1_eq_mask mask_eq_exp_minus_1)
    then show False
      using e range by (simp add: e_def)
  qed
  have s: "unat s \<le> e"
    unfolding s_def unat_window_start e by simp
  have "e < 2 ^ 32 - 1"
    using range by (simp add: e_def nat_less_iff)
  then have "unat ?pe < 2 ^ 32 - 1"
    using pre by (simp split: if_split)
  then have "unat (?pe + 1) = Suc (unat ?pe)"
    by (simp add: unat_word_ariths(1) del: unat_1)
  then have f: "unat (max (?pe + 1) s) = max (Suc (unat ?pe)) (unat s)"
    by (simp add: max_def word_le_nat_alt)
  have mod: "n\<lparr>m_endblk := ?e, m_startblk := (if ?e > m_maxBlockLimit n then ?e - m_maxBlockLimit n else 0)\<rparr>
      = n\<lparr>m_endblk := ?e, m_startblk := s\<rparr>"
    by (simp add: s_def window_start_def)
  have old: "forM [unat (m_startblk n)..<unat s] (forget_block C ch) x
      = (Inr (), x\<lparr>nc_cache := nc_cache x - (\<Union>i \<in> {unat (m_startblk n)..<unat s}. block_keys C ch i)\<rparr>)" for x
    using s blocks by (subst forget_loop_run) auto
  have walk: "forM [k..<Suc e] (remember_block C ch) x = (Inr (), x\<lparr>nc_cache := nc_cache x \<union> (\<Union>i \<in> {k..e}. block_keys C ch i)\<rparr>)" for k x
    using blocks by (subst remember_blocks_run) (auto simp: atLeastLessThanSuc_atLeastAtMost simp del: upt_Suc)
  have new: "remember_loop C ch (max (?pe + 1) s) ?e x
      = (Inr (), x\<lparr>nc_cache := nc_cache x \<union> (\<Union>i \<in> {max (Suc (unat ?pe)) (unat s)..e}. block_keys C ch i)\<rparr>)" for x
    unfolding remember_loop_def f e if_not_P [OF m] by (simp only: seqM_def bindM_def walk returnM_def prod.case sum.case)
  let ?m = "if rebuild then modifyM (\<lambda>n. n\<lparr>nc_cache := {}\<rparr>) else forM [unat (m_startblk n)..<unat s] (forget_block C ch)"
  have first: "bindM ?m k x = k () (x\<lparr>nc_cache := if rebuild then {} else nc_cache x - (\<Union>i \<in> {unat (m_startblk n)..<unat s}. block_keys C ch i)\<rparr>)"
    for k :: "unit \<Rightarrow> (tx_nonce_check, pool_error, unit) action" and x
    by (simp add: old modifyM_def bindM_def)
  have N: "m_startblk (n\<lparr>m_endblk := ?e, m_startblk := s\<rparr>) = s"
    by simp
  show ?thesis
    by (simp only: updateCache_def catchM_def Let_def seqM_def bind_getM bind_modifyM mod N first new prod.case sum.case)
      (simp add: if_distrib [of unat])
qed

lemma window_update:
  fixes K :: "nat \<Rightarrow> 'a set"
  assumes apart: "\<And>i j. i < j \<Longrightarrow> j \<le> i + l \<Longrightarrow> j \<le> e \<Longrightarrow> K i \<inter> K j = {}" and pe: "pe \<le> e"
  shows "((\<Union>i \<in> {max 1 (pe - l)..pe}. K i) - (\<Union>i \<in> {pe - l..<e - l}. K i)) \<union> (\<Union>i \<in> {max (Suc pe) (e - l)..e}. K i)
    = (\<Union>i \<in> {max 1 (e - l)..e}. K i)"
proof (intro set_eqI iffI)
  fix x
  assume "x \<in> (\<Union>i \<in> {max 1 (e - l)..e}. K i)"
  then obtain j where j: "x \<in> K j" "1 \<le> j" "e - l \<le> j" "j \<le> e"
    by auto
  show "x \<in> ((\<Union>i \<in> {max 1 (pe - l)..pe}. K i) - (\<Union>i \<in> {pe - l..<e - l}. K i)) \<union> (\<Union>i \<in> {max (Suc pe) (e - l)..e}. K i)"
  proof (cases "j \<le> pe")
    case True
    have "x \<notin> K i" if i: "i \<in> {pe - l..<e - l}" for i
    proof -
      have "j \<le> i + l" "i < j"
        using i j True by auto
      then show ?thesis
        using j apart [of i j] by blast
    qed
    then show ?thesis
      using True j pe by auto
  next
    case False
    then show ?thesis
      using j by auto
  qed
next
  fix x
  assume "x \<in> ((\<Union>i \<in> {max 1 (pe - l)..pe}. K i) - (\<Union>i \<in> {pe - l..<e - l}. K i)) \<union> (\<Union>i \<in> {max (Suc pe) (e - l)..e}. K i)"
  then consider i where "x \<in> K i" "max 1 (pe - l) \<le> i" "i \<le> pe" "x \<notin> (\<Union>i \<in> {pe - l..<e - l}. K i)"
    | i where "x \<in> K i" "max (Suc pe) (e - l) \<le> i" "i \<le> e"
    by auto
  then show "x \<in> (\<Union>i \<in> {max 1 (e - l)..e}. K i)"
  proof cases
    case 1
    then have "\<not> i < e - l"
      by auto
    then show ?thesis
      using 1 pe by auto
  qed auto
qed

text \<open>
  C11. While no sender uses a nonce twice within the block limit, the incremental update of the nonce cache after the chain
  has grown, by one block or by many, succeeds and gives exactly the object that a rebuild from the chain gives: the keys
  of the transactions in the last blocks of the window, the genesis block apart.
\<close>

theorem updateCache_incremental:
  assumes "0 \<le> pc_number ch" "pc_number ch < 2 ^ 32 - 1" and "\<And>i. i \<le> nat (pc_number ch) \<Longrightarrow> \<exists>ts. pc_block ch i = Inr ts"
    and "int (unat (m_endblk n)) \<le> pc_number ch"
    and "m_startblk n = (if m_endblk n > m_maxBlockLimit n then m_endblk n - m_maxBlockLimit n else 0)"
    and "nc_cache n = (\<Union>i \<in> {max 1 (unat (m_startblk n))..unat (m_endblk n)}. block_keys C ch i)"
    and "\<And>i j. i < j \<Longrightarrow> j \<le> i + unat (m_maxBlockLimit n) \<Longrightarrow> j \<le> nat (pc_number ch) \<Longrightarrow> block_keys C ch i \<inter> block_keys C ch j = {}"
  shows "updateCache C ch False n = updateCache C ch True n \<and> fst (updateCache C ch False n) = Inr ()
    \<and> nc_cache (snd (updateCache C ch False n))
      = (\<Union>i \<in> {max 1 (nat (pc_number ch) - unat (m_maxBlockLimit n))..nat (pc_number ch)}. block_keys C ch i)"
proof -
  let ?e = "nat (pc_number ch)" and ?l = "unat (m_maxBlockLimit n)" and ?pe = "unat (m_endblk n)"
  have pe: "?pe \<le> ?e"
    using assms(4) by linarith
  have ps: "unat (m_startblk n) = ?pe - ?l"
    unfolding assms(5) window_start_def [symmetric] by (rule unat_window_start)
  have s: "unat (window_start (m_maxBlockLimit n) (word_of_int (pc_number ch))) = ?e - ?l"
    unfolding unat_window_start unat_number [OF assms(1,2)] ..
  let ?W = "\<Union>i \<in> {max 1 (?e - ?l)..?e}. block_keys C ch i"
  let ?n = "n\<lparr>m_endblk := word_of_int (pc_number ch), m_startblk := window_start (m_maxBlockLimit n) (word_of_int (pc_number ch)), nc_cache := ?W\<rparr>"
  have W: "((\<Union>i \<in> {max 1 (?pe - ?l)..?pe}. block_keys C ch i) - (\<Union>i \<in> {?pe - ?l..<?e - ?l}. block_keys C ch i))
      \<union> (\<Union>i \<in> {max (Suc ?pe) (?e - ?l)..?e}. block_keys C ch i) = ?W"
    by (rule window_update [OF assms(7) pe])
  have "updateCache C ch False n = (Inr (), ?n)"
    using updateCache_run [OF assms(1,2,3) pe, of C False] unfolding s ps assms(6) by (simp only: if_False W)
  moreover have "updateCache C ch True n = (Inr (), ?n)"
    using updateCache_run [OF assms(1,2,3) pe, of C True] unfolding s by (simp only: if_True Un_empty_left One_nat_def)
  ultimately show ?thesis
    by simp
qed

section \<open>No replay\<close>

lemma tx_sender_memo: "tx_safeSender C (t\<lparr>m_hashWith := h\<rparr>) = tx_safeSender C t"
proof (cases "hash_bool (m_sender t)")
  case False
  show ?thesis
  proof (cases "m_vrs t")
    case (Some v)
    then show ?thesis
      using False by (cases "tx_encode t False") (simp_all add: tx_safeSender_def tx_sender_def tx_sha3_def tx_encode_memo Let_def)
  qed (simp add: tx_safeSender_def tx_sender_def)
qed (simp add: tx_safeSender_def tx_sender_def)

lemma tx_encode_time: "tx_encode (t\<lparr>m_importTime := now\<rparr>) b = tx_encode t b"
  by (simp add: tx_encode_def tx_fields_def)

lemma tx_sender_time: "tx_safeSender C (t\<lparr>m_importTime := now\<rparr>) = tx_safeSender C t"
proof (cases "hash_bool (m_sender t)")
  case False
  show ?thesis
  proof (cases "m_vrs t")
    case (Some v)
    then show ?thesis
      using False by (cases "tx_encode t False") (simp_all add: tx_safeSender_def tx_sender_def tx_sha3_def tx_encode_time Let_def)
  qed (simp add: tx_safeSender_def tx_sender_def)
qed (simp add: tx_safeSender_def tx_sender_def)

lemma generateKey_memo: "tx_sha3 C t True = Inr (h, t') \<Longrightarrow> generateKey C t' = generateKey C t"
  by (auto simp: tx_sha3_def Let_def bindE_eq_Inr generateKey_def tx_sender_memo split: if_splits)

lemma verify_invalid:
  assumes "generateKey C t \<in> nc_cache (m_txNonceCheck p)" and "verify_tx C ch t pol False p = (Inr (r, t'), p')"
  shows "r \<noteq> Success"
proof (cases "tx_sha3 C t True")
  case (Inl e)
  then show ?thesis
    using assms(2) by (simp add: verify_tx_def liftP_def bindM_def liftM_def)
next
  case (Inr x)
  obtain h u where x: "x = (h, u)"
    by (cases x)
  have "\<not> valid_tx C ch (m_txNonceCheck p) u"
    using assms(1) generateKey_memo [OF Inr [unfolded x]] by (simp add: valid_tx_def)
  then show ?thesis
    using assms(2) by (auto simp: verify_tx_def Inr x liftP_def bindM_def liftM_def getM_def returnM_def nonce_check_run split: if_splits)
qed

definition refused :: "pool_error + import_result \<times> transaction \<Rightarrow> bool" where
  "refused r = (case r of Inl _ \<Rightarrow> True | Inr (v, _) \<Rightarrow> v \<noteq> Success)"

lemma import_refused:
  assumes "generateKey C t \<in> nc_cache (m_txNonceCheck p)"
  shows "refused (fst (import_tx C ch now t ik p))"
proof -
  let ?t = "t\<lparr>m_importTime := now\<rparr>"
  have k: "generateKey C ?t \<in> nc_cache (m_txNonceCheck p)"
    using assms by (simp add: generateKey_def tx_sender_time)
  obtain v p1 where v: "verify_tx C ch ?t Ignore False p = (v, p1)"
    by fastforce
  show ?thesis
  proof (cases v)
    case (Inl e)
    then show ?thesis
      using v by (simp add: import_tx_def Let_def bindM_def getM_def returnM_def refused_def)
  next
    case (Inr x)
    obtain r u where x: "x = (r, u)"
      by (cases x)
    have "r \<noteq> Success"
      using verify_invalid [OF k, of ch Ignore r u p1] v Inr x by simp
    then show ?thesis
      using v Inr x by (simp add: import_tx_def Let_def bindM_def getM_def returnM_def seqM_def whenM_def refused_def)
  qed
qed

lemma removeTrans_known:
  assumes ok: "pool_ok C p"
  shows "\<exists>b p'. removeTrans h c r p = (Inr b, p') \<and> pool_ok C p' \<and> m_known p' = m_known p - {h} \<and> m_txNonceCheck p' = m_txNonceCheck p"
proof (cases "map_of (m_txsHash p) h")
  case None
  then have "h \<notin> m_known p"
    using pool_okD(5) [OF ok] by auto
  then show ?thesis
    using ok None by (intro exI [of _ False] exI [of _ p]) (simp add: removeTrans_absent)
next
  case (Some i)
  obtain t where t: "map_of (m_txsQueue p) i = Some t"
    using pool_ok_found [OF ok Some] by blast
  have "pool_ok C (snd (removeTrans h c r p))"
    using removeTrans_sound ok unfolding sound_def by blast
  then show ?thesis
    using removeTrans_present [OF Some t, of c r] by (intro exI [of _ True]) simp
qed

lemma drop_loop_run:
  assumes "pool_ok C p" and "\<And>t. t \<in> set ts \<Longrightarrow> \<exists>r. tx_sha3 C t True = Inr r" and "\<exists>r. header_hash C (m_blockHeader b) = Inr r"
  shows "\<exists>c p'. drop_loop C b i ts s p = (Inr c, p') \<and> pool_ok C p' \<and> m_known p' = m_known p - hash_of C ` set ts
    \<and> m_txNonceCheck p' = m_txNonceCheck p"
  using assms
proof (induction ts arbitrary: i s p)
  case (Cons t ts)
  obtain h u where h: "tx_sha3 C t True = Inr (h, u)"
    using Cons.prems(2) [of t] by auto
  then have hh: "hash_of C t = h"
    by (simp add: hash_of_def)
  obtain bh where bh: "header_hash C (m_blockHeader b) = Inr bh"
    using assms(3) by blast
  define r where "r = (if i < length (m_transactionReceipts b)
    then Some (projr (constructTransactionReceipt C t (m_transactionReceipts b ! i) b i)) else None)"
  obtain c p1 where p1: "removeTrans h True r p = (Inr c, p1)" "pool_ok C p1" "m_known p1 = m_known p - {h}" "m_txNonceCheck p1 = m_txNonceCheck p"
    using removeTrans_known [OF Cons.prems(1)] by blast
  have "\<exists>c p'. drop_loop C b (Suc i) ts (if c' = False then False else s) p1 = (Inr c, p') \<and> pool_ok C p'
      \<and> m_known p' = m_known p1 - hash_of C ` set ts \<and> m_txNonceCheck p' = m_txNonceCheck p1" for c'
    using Cons.IH [OF p1(2), of "Suc i"] Cons.prems(2,3) by simp
  moreover have "drop_loop C b i (t # ts) s p = drop_loop C b (Suc i) ts (if c = False then False else s) p1"
    using h bh p1(1)
    by (cases bh; cases "i < length (m_transactionReceipts b)")
      (simp_all add: bindM_def liftM_def liftP_def returnM_def constructTransactionReceipt_def r_def)
  ultimately show ?case
    using p1(3,4) hh by (metis (no_types, lifting) Diff_insert2 image_insert list.simps(15) Diff_insert)
qed (simp add: returnM_def)

text \<open>
  C8. When the pool of any run is told of a block that has just become the head of the chain, the call succeeds, none of the block's transactions is pending any more, and no transaction with
  the sender and nonce of one of them can be imported again, whatever its other fields are.
\<close>

theorem dropBlockTrans_no_replay:
  assumes "TxPool C ch0 protocolId limit = Inr p0" and "p = pool_run C ops p0" and "n = m_txNonceCheck p"
    and "1 \<le> pc_number ch" "pc_number ch < 2 ^ 32 - 1" and "\<And>i. i \<le> nat (pc_number ch) \<Longrightarrow> \<exists>ts. pc_block ch i = Inr ts"
    and "int (unat (m_endblk n)) < pc_number ch" and "pc_block ch (nat (pc_number ch)) = Inr (m_transactions block)"
    and "\<And>t. t \<in> set (m_transactions block) \<Longrightarrow> \<exists>r. tx_sha3 C t True = Inr r" and "\<exists>r. header_hash C (m_blockHeader block) = Inr r"
    and "t \<in> set (m_transactions block)"
  shows "\<exists>c p'. dropBlockTrans C ch block p = (Inr c, p') \<and> hash_of C t \<notin> hash_of C ` set (pendingList p')
    \<and> (\<forall>u now ik. tx_safeSender C u = tx_safeSender C t \<and> m_nonce u = m_nonce t \<longrightarrow> refused (fst (import_tx C ch now u ik p')))"
proof -
  let ?e = "nat (pc_number ch)" and ?s = "window_start (m_maxBlockLimit n) (word_of_int (pc_number ch))"
  have ok: "pool_ok C p"
    using TxPool_ok [OF assms(1)] assms(2) pool_run_ok by simp
  have pe: "unat (m_endblk n) \<le> ?e" "Suc (unat (m_endblk n)) \<le> ?e"
    using assms(7) by linarith+
  have z: "0 \<le> pc_number ch"
    using assms(4) by simp
  obtain n1 where run: "updateCache C ch False n = (Inr (), n1)" and cache: "block_keys C ch ?e \<subseteq> nc_cache n1"
  proof
    show "updateCache C ch False n = (Inr (), n\<lparr>m_endblk := word_of_int (pc_number ch), m_startblk := ?s,
        nc_cache := nc_cache n - (\<Union>i \<in> {unat (m_startblk n)..<unat ?s}. block_keys C ch i)
          \<union> (\<Union>i \<in> {max (Suc (unat (m_endblk n))) (unat ?s)..?e}. block_keys C ch i)\<rparr>)"
      using updateCache_run [OF z assms(5,6) pe(1), of C False] by (simp only: if_False)
    have "?e \<in> {max (Suc (unat (m_endblk n))) (unat ?s)..?e}"
      using pe(2) by (simp add: unat_window_start unat_number [OF z assms(5)])
    then show "block_keys C ch ?e \<subseteq> nc_cache (n\<lparr>m_endblk := word_of_int (pc_number ch), m_startblk := ?s,
        nc_cache := nc_cache n - (\<Union>i \<in> {unat (m_startblk n)..<unat ?s}. block_keys C ch i)
          \<union> (\<Union>i \<in> {max (Suc (unat (m_endblk n))) (unat ?s)..?e}. block_keys C ch i)\<rparr>)"
      by auto
  qed
  let ?p = "p\<lparr>m_txNonceCheck := n1\<rparr>"
  have ok1: "pool_ok C ?p"
    using ok by (rule pool_ok_frame) simp_all
  have "\<exists>c p1. drop_loop C block 0 (m_transactions block) True ?p = (Inr c, p1) \<and> pool_ok C p1
      \<and> m_known p1 = m_known ?p - hash_of C ` set (m_transactions block) \<and> m_txNonceCheck p1 = m_txNonceCheck ?p"
    by (rule drop_loop_run [OF ok1 assms(9,10)])
  then obtain c p1 where p1: "drop_loop C block 0 (m_transactions block) True ?p = (Inr c, p1)" "pool_ok C p1"
    "m_known p1 = m_known ?p - hash_of C ` set (m_transactions block)" "m_txNonceCheck p1 = m_txNonceCheck ?p"
    by (elim exE conjE)
  let ?q = "p1\<lparr>m_commonNonceCheck := delCache_txs C (m_transactions block) (m_commonNonceCheck p1)\<rparr>"
  have "on_nonce (updateCache C ch False) p = (Inr (), ?p)"
    using run by (simp add: on_nonce_def assms(3) split: prod.splits)
  then have drop: "dropBlockTrans C ch block p = (Inr c, ?q)"
    using p1(1) length_pos_if_in_set [OF assms(11)]
    by (simp add: dropBlockTrans_def dropTransactions_def seqM_def bindM_def modifyM_def returnM_def)
  have "pool_ok C ?q"
    using p1(2) by (rule pool_ok_frame) simp_all
  then have gone: "hash_of C t \<notin> hash_of C ` set (pendingList ?q)"
    using pool_ok_known [of C ?q] p1(3) assms(11) by auto
  have "generateKey C t \<in> nc_cache (m_txNonceCheck ?q)"
    using cache p1(4) assms(8,11) by (auto simp: block_keys_def)
  then have "refused (fst (import_tx C ch now u ik ?q))" if "tx_safeSender C u = tx_safeSender C t" "m_nonce u = m_nonce t" for u now ik
    using that by (intro import_refused) (simp add: generateKey_def)
  then show ?thesis
    using drop gone by blast
qed

section \<open>A run\<close>

text \<open>A valid transaction is accepted and becomes pending.\<close>

lemma import_accepts:
  assumes ok: "pool_ok C p" and "length (m_txsQueue p) < m_limit p" and h: "tx_sha3 C (t\<lparr>m_importTime := now\<rparr>) True = Inr (h, u)"
    and "h \<notin> m_known p" "h \<notin> m_dropped p" and "valid_tx C ch (m_txNonceCheck p) u" and "generateKey C u \<notin> m_commonNonceCheck p"
  shows "import_tx C ch now t ik p = (Inr (Success, u), p\<lparr>m_known := insert h (m_known p),
    m_txsQueue := queue_emplace (m_nextNode p, u) (m_txsQueue p), m_nextNode := Suc (m_nextNode p),
    m_txsHash := amap_set h (m_nextNode p) (m_txsHash p), m_commonNonceCheck := insert (generateKey C u) (m_commonNonceCheck p),
    m_events := m_events p @ [OnReady]\<rparr>)"
proof -
  have new: "map_of (m_txsHash p) h = None"
    using assms(4) pool_okD(5) [OF ok] by auto
  have "verify_tx C ch (t\<lparr>m_importTime := now\<rparr>) Ignore False p = (Inr (Success, u), p)"
    using assms by (simp add: verify_tx_def liftP_def bindM_def liftM_def getM_def returnM_def nonce_check_run
        txPoolNonceCheck_def isNonceOk_def updateM_def Let_def)
  moreover have "tx_sha3 C u True = Inr (h, u)"
    using hash_is_memo [OF h] by (simp add: hash_is_def)
  ultimately show ?thesis
    using assms(2) new
    by (simp add: import_tx_def insert_tx_def Let_def bindM_def getM_def returnM_def seqM_def whenM_def modifyM_def liftM_def liftP_def insertCache_def)
qed

definition toy_chain :: pool_chain where
  "toy_chain = \<lparr>pc_number = 0, pc_block = (\<lambda>i. Inr [])\<rparr>"

definition toy_longer_chain :: pool_chain where
  "toy_longer_chain = \<lparr>pc_number = 1, pc_block = (\<lambda>i. Inr (if i = 1 then m_transactions toy_block else []))\<rparr>"

definition toy_pool :: txpool where
  "toy_pool = \<lparr>m_limit = 5, m_txsQueue = [], m_nextNode = 0, m_txsHash = [], m_known = {}, m_dropped = {}, m_transactionKnownBy = [],
     m_txNonceCheck = \<lparr>nc_cache = {}, m_startblk = 0, m_endblk = 0, m_maxBlockLimit = 1000\<rparr>, m_commonNonceCheck = {}, m_events = []\<rparr>"

lemma toy_pool_new: "TxPool toy_crypto toy_chain 1 5 = Inr toy_pool"
proof -
  have "updateCache toy_crypto toy_chain True \<lparr>nc_cache = {}, m_startblk = 0, m_endblk = 0, m_maxBlockLimit = 1000\<rparr>
      = (Inr (), \<lparr>nc_cache = {}, m_startblk = 0, m_endblk = 0, m_maxBlockLimit = 1000\<rparr>)"
    by (subst updateCache_run) (simp_all add: toy_chain_def window_start_def)
  then show ?thesis
    by (simp add: TxPool_def TransactionNonceCheck_def toy_pool_def)
qed

abbreviation toy_pending :: transaction where
  "toy_pending \<equiv> toy_tx\<lparr>m_sender := right160 (hash_of_nat 32 65)\<rparr>"

lemma toy_pending_hash: "\<exists>r. tx_sha3 toy_crypto (toy_pending\<lparr>m_importTime := now\<rparr>) True = Inr r"
  by (simp add: tx_sha3_def tx_encode_time tx_canonical_codec(1) [OF toy_tx_canonical] Let_def)

lemma toy_import:
  obtains u p where "import_tx toy_crypto toy_chain 7 toy_pending Ignore toy_pool = (Inr (Success, u), p)" and "pendingList p = [u]"
    "m_txNonceCheck p = m_txNonceCheck toy_pool" "m_limit p = 5" "valid_tx toy_crypto toy_chain (m_txNonceCheck toy_pool) u"
proof -
  obtain h u where h: "tx_sha3 toy_crypto (toy_pending\<lparr>m_importTime := 7\<rparr>) True = Inr (h, u)"
    using toy_pending_hash [of 7] by auto
  then have u: "m_nonce u = 3" "m_blockLimit u = 100"
    by (auto simp: tx_sha3_def Let_def bindE_eq_Inr toy_tx_def split: if_splits)
  have "valid_tx toy_crypto toy_chain (m_txNonceCheck toy_pool) u"
    by (simp add: valid_tx_def isBlockLimitOk_def u as_u256_def toy_chain_def toy_pool_def Invalid256_def)
  moreover have "pool_ok toy_crypto toy_pool"
    by (rule TxPool_ok [OF toy_pool_new])
  ultimately show ?thesis
    using that [of u] import_accepts [OF _ _ h, of toy_pool toy_chain Ignore] by (simp add: toy_pool_def pendingList_def queue_emplace_def)
qed

abbreviation toy_ops :: "pool_op list" where
  "toy_ops \<equiv> [OpImportTx toy_chain 7 toy_pending Ignore]"

lemma pendingSize_eq: "pendingSize p = length (pendingList p)"
  by (simp add: pendingSize_def pendingList_def)

lemma toy_run:
  obtains u where "pendingList (pool_run toy_crypto toy_ops toy_pool) = [u]" "valid_tx toy_crypto toy_chain (m_txNonceCheck toy_pool) u"
    "m_txNonceCheck (pool_run toy_crypto toy_ops toy_pool) = m_txNonceCheck toy_pool" "m_limit (pool_run toy_crypto toy_ops toy_pool) = 5"
proof -
  obtain u p where "import_tx toy_crypto toy_chain 7 toy_pending Ignore toy_pool = (Inr (Success, u), p)" "pendingList p = [u]"
    "m_txNonceCheck p = m_txNonceCheck toy_pool" "m_limit p = 5" "valid_tx toy_crypto toy_chain (m_txNonceCheck toy_pool) u"
    by (rule toy_import)
  then show ?thesis
    using that by (simp add: pool_run_def ignore_def bindM_def returnM_def)
qed

theorem txpool_consistent_witness:
  "\<exists>p. p = pool_run toy_crypto toy_ops toy_pool \<and> pendingSize p = 1 \<and> pendingSize p \<le> 5
    \<and> distinct (map (hash_of toy_crypto) (pendingList p)) \<and> m_known p = hash_of toy_crypto ` set (pendingList p)
    \<and> sorted (map m_importTime (pendingList p)) \<and> fst (pool_apply toy_crypto (OpDrop (hash_zero 32)) p) \<noteq> Inl DanglingIterator"
proof -
  obtain u where "pendingList (pool_run toy_crypto toy_ops toy_pool) = [u]"
    by (rule toy_run)
  then have "pendingSize (pool_run toy_crypto toy_ops toy_pool) = 1"
    by (simp add: pendingSize_eq)
  then show ?thesis
    using txpool_consistent [OF toy_pool_new refl, of toy_ops "OpDrop (hash_zero 32)"] by auto
qed

theorem topTransactions_spec_witness:
  "\<exists>u p'. topTransactions toy_crypto toy_chain 3 {} False (pool_run toy_crypto toy_ops toy_pool) = (Inr ([u], {}), p') \<and> pendingList p' = [u]"
proof -
  let ?p = "pool_run toy_crypto toy_ops toy_pool"
  obtain u where u: "pendingList ?p = [u]" "valid_tx toy_crypto toy_chain (m_txNonceCheck ?p) u" "m_limit ?p = 5"
    using toy_run by metis
  then have size: "pendingSize ?p = 1"
    by (simp add: pendingSize_eq)
  from topTransactions_spec [OF toy_pool_new refl, where ops = toy_ops and ch = toy_chain and lim = 3 and avoid = "{}" and u = False]
  obtain k ret p' where k: "topTransactions toy_crypto toy_chain 3 {} False ?p = (Inr (ret, {}), p')"
    "ret = filter (\<lambda>t. valid_tx toy_crypto toy_chain (m_txNonceCheck ?p) t \<and> hash_of toy_crypto t \<notin> {}) (take k [u])"
    "k < 1 \<longrightarrow> length ret = 3" "pendingList p' = filter (valid_tx toy_crypto toy_chain (m_txNonceCheck ?p)) (take k [u]) @ drop k [u]"
    unfolding u(1,3) size by auto
  have "0 < k"
    using k(2,3) by (cases k) auto
  then have "ret = [u]" "pendingList p' = [u]"
    using k(2,4) u(2) by (cases k; simp)+
  then show ?thesis
    using k(1) by blast
qed

lemma toy_nonce: "m_txNonceCheck toy_pool = \<lparr>nc_cache = {}, m_startblk = 0, m_endblk = 0, m_maxBlockLimit = 1000\<rparr>"
  by (simp add: toy_pool_def)

lemma toy_longer: "pc_number toy_longer_chain = 1" "pc_block toy_longer_chain i = Inr (if i = 1 then m_transactions toy_block else [])"
  by (simp_all add: toy_longer_chain_def)

lemma toy_keys: "i \<noteq> 1 \<Longrightarrow> block_keys toy_crypto toy_longer_chain i = {}"
  "block_keys toy_crypto toy_longer_chain 1 = {generateKey toy_crypto toy_pending}"
  by (simp_all add: block_keys_def toy_longer toy_block_def)

theorem updateCache_incremental_witness:
  "updateCache toy_crypto toy_longer_chain False (m_txNonceCheck toy_pool) = updateCache toy_crypto toy_longer_chain True (m_txNonceCheck toy_pool)
    \<and> nc_cache (snd (updateCache toy_crypto toy_longer_chain False (m_txNonceCheck toy_pool))) = {generateKey toy_crypto toy_pending}"
proof -
  have "block_keys toy_crypto toy_longer_chain i \<inter> block_keys toy_crypto toy_longer_chain j = {}" if "i < j" "j \<le> 1" for i j
    using that toy_keys(1) [of i] by simp
  then show ?thesis
    using updateCache_incremental [of toy_longer_chain "m_txNonceCheck toy_pool" toy_crypto] by (simp add: toy_nonce toy_longer toy_keys toy_keys(2) [unfolded One_nat_def]) metis
qed

theorem dropBlockTrans_no_replay_witness:
  "\<exists>c p'. dropBlockTrans toy_crypto toy_longer_chain toy_block (pool_run toy_crypto toy_ops toy_pool) = (Inr c, p')
    \<and> hash_of toy_crypto toy_pending \<notin> hash_of toy_crypto ` set (pendingList p')
    \<and> refused (fst (import_tx toy_crypto toy_longer_chain 9 (toy_pending\<lparr>m_gas := 1\<rparr>) Retry p'))"
proof -
  obtain n where n: "m_txNonceCheck (pool_run toy_crypto toy_ops toy_pool) = m_txNonceCheck toy_pool"
    by (rule toy_run)
  have txs: "m_transactions toy_block = [toy_pending]" "m_blockHeader toy_block = toy_header"
    by (simp_all add: toy_block_def)
  have h: "\<exists>r. tx_sha3 toy_crypto toy_pending True = Inr r"
    using toy_pending_hash [of 0] by (simp add: toy_tx_def transaction_null_def)
  have s: "tx_safeSender toy_crypto (toy_pending\<lparr>m_gas := 1\<rparr>) = tx_safeSender toy_crypto toy_pending"
    by (simp add: tx_safeSender_def tx_sender_def hash_bool_def right160_def hash_eval)
  have "\<exists>c p'. dropBlockTrans toy_crypto toy_longer_chain toy_block (pool_run toy_crypto toy_ops toy_pool) = (Inr c, p')
    \<and> hash_of toy_crypto toy_pending \<notin> hash_of toy_crypto ` set (pendingList p')
    \<and> (\<forall>u now ik. tx_safeSender toy_crypto u = tx_safeSender toy_crypto toy_pending \<and> m_nonce u = m_nonce toy_pending
        \<longrightarrow> refused (fst (import_tx toy_crypto toy_longer_chain now u ik p')))"
    by (rule dropBlockTrans_no_replay [OF toy_pool_new refl refl]) (use h toy_header_hash in \<open>auto simp: n toy_nonce toy_longer txs\<close>)
  then show ?thesis
    using s by fastforce
qed

end
