(* ===== verification/RaftEngine.thy ===== *)
theory RaftEngine
  imports ConsensusBase TableFactory
begin

text \<open>
  The Raft engine: the messages of \<open>libconsensus/raft/Common.h\<close> and the engine of \<open>libconsensus/raft/RaftEngine.h\<close> and
  \<open>.cpp\<close>. The engine thread runs \<open>workLoop\<close>: one step is one pass of the loop of the role it is in, with the loop's local variables
  kept in \<open>r_loop\<close>. The sealer thread calls \<open>commit\<close>, which waits on a condition variable in the middle, so it is three steps.
  Other threads deliver packets and report blocks. Every step takes its readings of the clock at one instant \<open>now\<close>, in nanoseconds.
\<close>

section \<open>Messages\<close>

definition RaftVoteReqPacket :: nat where [simp]: "RaftVoteReqPacket = 0"
definition RaftVoteRespPacket :: nat where [simp]: "RaftVoteRespPacket = 1"
definition RaftHeartBeatPacket :: nat where [simp]: "RaftHeartBeatPacket = 2"
definition RaftHeartBeatRespPacket :: nat where [simp]: "RaftHeartBeatRespPacket = 3"
definition RaftPacketCount :: nat where [simp]: "RaftPacketCount = 4"

datatype raft_role = EN_STATE_LEADER | EN_STATE_FOLLOWER | EN_STATE_CANDIDATE

text \<open>The flag of a vote response is any byte the peer sends.\<close>

definition VOTE_RESP_REJECT :: nat where [simp]: "VOTE_RESP_REJECT = 0"
definition VOTE_RESP_LEADER_REJECT :: nat where [simp]: "VOTE_RESP_LEADER_REJECT = 1"
definition VOTE_RESP_LASTTERM_ERROR :: nat where [simp]: "VOTE_RESP_LASTTERM_ERROR = 2"
definition VOTE_RESP_OUTDATED :: nat where [simp]: "VOTE_RESP_OUTDATED = 3"
definition VOTE_RESP_FIRST_VOTE :: nat where [simp]: "VOTE_RESP_FIRST_VOTE = 4"
definition VOTE_RESP_DISCARD :: nat where [simp]: "VOTE_RESP_DISCARD = 5"
definition VOTE_RESP_GRANTED :: nat where [simp]: "VOTE_RESP_GRANTED = 6"

datatype handle_vote_result = TO_LEADER | TO_FOLLOWER | NONE

text \<open>The receive time and the endpoint of a packet are never read.\<close>

record raft_packet =
  rp_nodeIdx :: nat
  rp_nodeId :: bytes
  rp_packetType :: nat
  rp_data :: bytes

definition RaftMsgPacket :: raft_packet where
  "RaftMsgPacket = \<lparr>rp_nodeIdx = 0, rp_nodeId = hash_zero 64, rp_packetType = RaftVoteReqPacket, rp_data = []\<rparr>"

definition raft_packet_encode :: "raft_packet \<Rightarrow> rlp_error + bytes" where
  "raft_packet_encode p =
     bindE (append_all (\<lambda>f. f) [append_unsigned (int (rp_packetType p)), append_data (rp_data p) False] rlpstream_new) rlp_out"

text \<open>The packet type is narrowed to a byte.\<close>

definition raft_packet_decode :: "bytes \<Rightarrow> raft_packet \<Rightarrow> rlp_error + raft_packet" where
  "raft_packet_decode bs p =
     bindE (bindE (rlp_open (cropped bs 0 1) VeryStrict) (toInt 32 4)) (\<lambda>ty.
     bindE (bindE (rlp_open (drop 1 bs) VeryStrict) (toBytes LaissezFaire)) (\<lambda>dat.
       Inr (p\<lparr>rp_packetType := ty mod 2 ^ 8, rp_data := dat\<rparr>)))"

record raft_msg =
  rm_idx :: nat
  rm_term :: nat
  rm_height :: int
  rm_blockHash :: bytes

record raft_vote_req = raft_msg +
  vr_candidate :: nat
  vr_lastLeaderTerm :: nat
  vr_lastBlockNumber :: int

record raft_vote_resp = raft_msg +
  vp_voteFlag :: nat
  vp_lastLeaderTerm :: nat

record raft_heartbeat = raft_msg +
  hb_leader :: nat
  hb_uncommitedBlock :: bytes
  hb_uncommitedBlockNumber :: int

record raft_heartbeat_resp = raft_msg +
  hr_uncommitedBlockHash :: bytes

text \<open>\<open>streamRLPFields\<close>: the built-in integers are converted to \<open>unsigned\<close> by the stream.\<close>

definition raft_msg_fields :: "'a raft_msg_scheme \<Rightarrow> (rlpstream \<Rightarrow> rlp_error + rlpstream) list" where
  "raft_msg_fields m =
     [append_bigint (rm_idx m), append_unsigned (int (rm_term m)), append_unsigned (rm_height m), append_hash (rm_blockHash m) False False]"

definition vote_req_fields :: "raft_vote_req \<Rightarrow> (rlpstream \<Rightarrow> rlp_error + rlpstream) list" where
  "vote_req_fields m = raft_msg_fields m @
     [append_bigint (vr_candidate m), append_unsigned (int (vr_lastLeaderTerm m)), append_unsigned (vr_lastBlockNumber m)]"

definition vote_resp_fields :: "raft_vote_resp \<Rightarrow> (rlpstream \<Rightarrow> rlp_error + rlpstream) list" where
  "vote_resp_fields m = raft_msg_fields m @ [append_unsigned (int (vp_voteFlag m)), append_unsigned (int (vp_lastLeaderTerm m))]"

definition heartbeat_fields :: "raft_heartbeat \<Rightarrow> (rlpstream \<Rightarrow> rlp_error + rlpstream) list" where
  "heartbeat_fields m = raft_msg_fields m @
     [append_bigint (hb_leader m), append_data (hb_uncommitedBlock m) False, append_unsigned (hb_uncommitedBlockNumber m)]"

definition heartbeat_resp_fields :: "raft_heartbeat_resp \<Rightarrow> (rlpstream \<Rightarrow> rlp_error + rlpstream) list" where
  "heartbeat_resp_fields m = raft_msg_fields m @ [append_hash (hr_uncommitedBlockHash m) False False]"

definition raft_msg_populate :: "bytes \<Rightarrow> rlp_error + nat \<times> nat \<times> int \<times> bytes" where
  "raft_msg_populate r =
     bindE (bindE (rlp_at r 0) (toInt 256 Strict)) (\<lambda>i.
     bindE (bindE (rlp_at r 1) (toInt 64 Strict)) (\<lambda>t.
     bindE (bindE (rlp_at r 2) (toInt 64 Strict)) (\<lambda>h.
     bindE (bindE (rlp_at r 3) (toHash 32 VeryStrict)) (\<lambda>b.
       Inr (i, t, as_int64 h, b)))))"

definition vote_req_populate :: "bytes \<Rightarrow> rlp_error + raft_vote_req" where
  "vote_req_populate r =
     bindE (raft_msg_populate r) (\<lambda>(i, t, h, b).
     bindE (bindE (rlp_at r 4) (toInt 256 Strict)) (\<lambda>c.
     bindE (bindE (rlp_at r 5) (toInt 64 Strict)) (\<lambda>l.
     bindE (bindE (rlp_at r 6) (toInt 64 Strict)) (\<lambda>n.
       Inr \<lparr>rm_idx = i, rm_term = t, rm_height = h, rm_blockHash = b, vr_candidate = c, vr_lastLeaderTerm = l,
            vr_lastBlockNumber = as_int64 n\<rparr>))))"

definition vote_resp_populate :: "bytes \<Rightarrow> rlp_error + raft_vote_resp" where
  "vote_resp_populate r =
     bindE (raft_msg_populate r) (\<lambda>(i, t, h, b).
     bindE (bindE (rlp_at r 4) (toInt 8 Strict)) (\<lambda>f.
     bindE (bindE (rlp_at r 5) (toInt 64 Strict)) (\<lambda>l.
       Inr \<lparr>rm_idx = i, rm_term = t, rm_height = h, rm_blockHash = b, vp_voteFlag = f, vp_lastLeaderTerm = l\<rparr>)))"

definition heartbeat_populate :: "bytes \<Rightarrow> rlp_error + raft_heartbeat" where
  "heartbeat_populate r =
     bindE (raft_msg_populate r) (\<lambda>(i, t, h, b).
     bindE (bindE (rlp_at r 4) (toInt 256 Strict)) (\<lambda>l.
     bindE (bindE (rlp_at r 5) (toBytes LaissezFaire)) (\<lambda>u.
     bindE (bindE (rlp_at r 6) (toInt 64 Strict)) (\<lambda>n.
       Inr \<lparr>rm_idx = i, rm_term = t, rm_height = h, rm_blockHash = b, hb_leader = l, hb_uncommitedBlock = u,
            hb_uncommitedBlockNumber = as_int64 n\<rparr>))))"

definition heartbeat_resp_populate :: "bytes \<Rightarrow> rlp_error + raft_heartbeat_resp" where
  "heartbeat_resp_populate r =
     bindE (raft_msg_populate r) (\<lambda>(i, t, h, b).
     bindE (bindE (rlp_at r 4) (toHash 32 Strict)) (\<lambda>u.
       Inr \<lparr>rm_idx = i, rm_term = t, rm_height = h, rm_blockHash = b, hr_uncommitedBlockHash = u\<rparr>))"

text \<open>\<open>req.populate(RLP(ref(packet.data))[0])\<close>.\<close>

definition raft_open :: "(bytes \<Rightarrow> rlp_error + 'm) \<Rightarrow> raft_packet \<Rightarrow> rlp_error + 'm" where
  "raft_open populate p = bindE (rlp_open (rp_data p) VeryStrict) (\<lambda>d. bindE (rlp_at d 0) populate)"

record vote_state =
  vs_vote :: nat
  vs_unVote :: nat
  vs_lastTermErr :: nat
  vs_firstVote :: nat
  vs_discardedVote :: nat
  vs_outdated :: nat

definition VoteState :: vote_state where
  "VoteState = \<lparr>vs_vote = 0, vs_unVote = 0, vs_lastTermErr = 0, vs_firstVote = 0, vs_discardedVote = 0, vs_outdated = 0\<rparr>"

definition totalVoteCount :: "vote_state \<Rightarrow> nat" where
  "totalVoteCount v = vs_vote v + vs_unVote v + vs_lastTermErr v + vs_firstVote v + vs_discardedVote v + vs_outdated v"

section \<open>State\<close>

datatype raft_error = Consensus consensus_error | AssertFailed | Deadlock

definition liftC :: "consensus_error + 'a \<Rightarrow> raft_error + 'a" where
  "liftC r = (case r of Inl e \<Rightarrow> Inl (Consensus e) | Inr x \<Rightarrow> Inr x)"

lemma liftC_simps [simp, result_simps]: "liftC (Inr x) = Inr x" "liftC (Inl e) = Inl (Consensus e)"
  by (simp_all add: liftC_def)

text \<open>Besides the surroundings of every engine: the C library's random numbers, the table of members and a lexical cast.\<close>

record 'w raft_env = "'w env" +
  std_rand :: "'w \<Rightarrow> nat \<times> 'w"
  std_srand :: "nat \<Rightarrow> 'w \<Rightarrow> 'w"
  rs_select :: "'w \<Rightarrow> bytes \<Rightarrow> int \<Rightarrow> string \<Rightarrow> string \<Rightarrow> storage_error + entries option"
  lexical_cast_int :: "string \<Rightarrow> int option"

text \<open>Where the engine thread is: at the head of \<open>workLoop\<close>, or in the loop of a role with its local variables.\<close>

datatype raft_loop = AtTop | InLeader "(bytes, nat) amap" | InFollower | InCandidate vote_state

record 'w raft = "'w consensus" +
  m_electTimeout :: nat
  m_minElectTimeout :: nat
  m_maxElectTimeout :: nat
  m_minElectTimeoutInit :: nat
  m_maxElectTimeoutInit :: nat
  m_minElectTimeoutBoundary :: nat
  m_maxElectTimeoutBoundary :: nat
  m_lastElectTime :: int
  m_heartbeatTimeout :: nat
  m_heartbeatInterval :: nat
  m_heartbeatCount :: nat
  m_lastHeartbeatTime :: int
  m_lastHeartbeatReset :: int
  m_increaseTime :: nat
  m_msgQueue :: "raft_packet list"
  m_state :: raft_role
  m_firstVote :: nat
  m_term :: nat
  m_lastLeaderTerm :: nat
  m_leader :: nat
  m_vote :: nat
  m_memberBlock :: "(bytes, int \<times> bytes) amap"
  m_cfgErr :: bool
  m_storage :: bool
  m_lastObtainMinerNum :: int
  m_lastBlockTime :: nat
  m_uncommittedBlock :: block
  m_uncommittedBlockNumber :: int
  m_commitReady :: bool
  m_waitingForCommitting :: bool
  m_commitFingerPrint :: "(bytes, bytes set) amap"
  r_commitLocked :: bool
  r_loop :: raft_loop

type_synonym ('w, 'a) reng = "('w raft, raft_error, 'a) action"

abbreviation InvalidIndex :: nat where "InvalidIndex \<equiv> Invalid256"
definition s_heartBeatIntervalRatio :: nat where [simp]: "s_heartBeatIntervalRatio = 4"

text \<open>\<open>unsigned\<close> has 32 bits, \<open>size_t\<close> 64.\<close>

definition sub32 :: "nat \<Rightarrow> nat \<Rightarrow> nat" where
  "sub32 a b = nat ((int a - int b) mod 2 ^ 32)"

definition dec64 :: "nat \<Rightarrow> nat" where
  "dec64 a = nat ((int a - 1) mod 2 ^ 64)"

definition inc64 :: "nat \<Rightarrow> nat" where
  "inc64 a = Suc a mod 2 ^ 64"

text \<open>\<open>bool(Block)\<close>.\<close>

definition block_bool :: "block \<Rightarrow> bool" where
  "block_bool b \<longleftrightarrow> m_timestamp (m_blockHeader b) \<noteq> UINT64_MAX"

section \<open>Timeouts\<close>

definition resetElectTimeout :: "'w raft_env \<Rightarrow> int \<Rightarrow> 'w raft \<Rightarrow> 'w raft" where
  "resetElectTimeout E now s =
     (case std_rand E (world s) of (r, w) \<Rightarrow>
        s\<lparr>world := w, m_lastElectTime := now,
          m_electTimeout := (m_minElectTimeout s
            + (r mod 100 * sub32 (m_maxElectTimeout s) (m_minElectTimeout s)) mod 2 ^ 32 div 100) mod 2 ^ 32\<rparr>)"

definition checkElectTimeout :: "int \<Rightarrow> 'w raft \<Rightarrow> bool" where
  "checkElectTimeout now s \<longleftrightarrow> now - m_lastElectTime s \<ge> int (m_electTimeout s) * 1000000"

text \<open>\<open>duration_cast<milliseconds>\<close> rounds toward zero.\<close>

definition millis :: "int \<Rightarrow> int" where
  "millis d = (if d \<ge> 0 then d div 1000000 else - (- d div 1000000))"

definition checkHeartbeatTimeout :: "int \<Rightarrow> 'w raft \<Rightarrow> bool" where
  "checkHeartbeatTimeout now s \<longleftrightarrow> millis (now - m_lastHeartbeatReset s) \<ge> int (m_heartbeatTimeout s)"

definition increaseElectTime :: "'w raft \<Rightarrow> 'w raft" where
  "increaseElectTime s =
     (if (m_maxElectTimeout s + m_increaseTime s) mod 2 ^ 32 > m_maxElectTimeoutBoundary s
      then s\<lparr>m_maxElectTimeout := m_maxElectTimeoutBoundary s\<rparr>
      else s\<lparr>m_maxElectTimeout := (m_maxElectTimeout s + m_increaseTime s) mod 2 ^ 32,
             m_minElectTimeout := (m_minElectTimeout s + m_increaseTime s) mod 2 ^ 32\<rparr>)"

definition recoverElectTime :: "'w raft \<Rightarrow> 'w raft" where
  "recoverElectTime s = s\<lparr>m_maxElectTimeout := m_maxElectTimeoutInit s, m_minElectTimeout := m_minElectTimeoutInit s\<rparr>"

definition clearFirstVoteCache :: "'w raft \<Rightarrow> 'w raft" where
  "clearFirstVoteCache s =
     (if m_firstVote s \<noteq> Invalid256 then
        let c = (m_heartbeatCount s + 1) mod 2 ^ 32 in
        if c \<ge> 2 * s_heartBeatIntervalRatio then s\<lparr>m_heartbeatCount := 0, m_firstVote := InvalidIndex\<rparr>
        else s\<lparr>m_heartbeatCount := c\<rparr>
      else s)"

section \<open>Roles\<close>

definition switchToLeader :: "'w raft \<Rightarrow> 'w raft" where
  "switchToLeader s = recoverElectTime (s\<lparr>m_leader := m_idx s, m_state := EN_STATE_LEADER\<rparr>)"

text \<open>The method locks \<open>m_commitMutex\<close>, which is not recursive.\<close>

definition switchToFollower :: "'w raft_env \<Rightarrow> int \<Rightarrow> nat \<Rightarrow> ('w, unit) reng" where
  "switchToFollower E now leader =
     seqM (modifyM (\<lambda>s. s\<lparr>m_leader := leader, m_state := EN_STATE_FOLLOWER, m_heartbeatCount := 0\<rparr>))
    (bindM (getM r_commitLocked) (\<lambda>locked.
       if locked then throwM Deadlock
       else
         seqM (modifyM (\<lambda>s. if m_waitingForCommitting s
                then s\<lparr>m_uncommittedBlock := block_new, m_uncommittedBlockNumber := 0, m_commitReady := True\<rparr> else s))
              (modifyM (resetElectTimeout E now))))"

definition switchToCandidate :: "'w raft_env \<Rightarrow> int \<Rightarrow> 'w raft \<Rightarrow> 'w raft" where
  "switchToCandidate E now s =
     resetElectTimeout E now (s\<lparr>m_term := inc64 (m_term s), m_leader := InvalidIndex, m_state := EN_STATE_CANDIDATE\<rparr>)"

definition isMajorityVote :: "nat \<Rightarrow> 'w raft \<Rightarrow> bool" where
  "isMajorityVote votes s \<longleftrightarrow> votes \<ge> m_nodeNum s - m_f s"

definition wonElection :: "nat \<Rightarrow> 'w raft \<Rightarrow> bool" where
  "wonElection votes s \<longleftrightarrow> votes \<ge> m_nodeNum s - m_f s"

section \<open>Members and configuration\<close>

fun add_miners :: "'w raft_env \<Rightarrow> int \<Rightarrow> entry list \<Rightarrow> bytes list \<Rightarrow> bytes list option" where
  "add_miners E cur [] ml = Some ml"
| "add_miners E cur (e # es) ml =
     (if getField ''type'' e = ''miner''
      then (case lexical_cast_int E (getField ''enable_num'' e) of
              None \<Rightarrow> None
            | Some n \<Rightarrow>
                if n \<le> cur
                then (case hash_of_string 64 (getField ''node_id'' e) of
                        Inl _ \<Rightarrow> None
                      | Inr h \<Rightarrow> add_miners E cur es (if h \<in> set ml then ml else ml @ [h]))
                else add_miners E cur es ml)
      else add_miners E cur es ml)"

fun remove_observers :: "'w raft_env \<Rightarrow> int \<Rightarrow> entry list \<Rightarrow> bytes list \<Rightarrow> bytes list option" where
  "remove_observers E cur [] ml = Some ml"
| "remove_observers E cur (e # es) ml =
     (if getField ''type'' e = ''observer''
      then (case lexical_cast_int E (getField ''enable_num'' e) of
              None \<Rightarrow> None
            | Some n \<Rightarrow>
                if n \<le> cur
                then (case hash_of_string 64 (getField ''node_id'' e) of
                        Inl _ \<Rightarrow> None
                      | Inr h \<Rightarrow> remove_observers E cur es (remove1 h ml))
                else remove_observers E cur es ml)
      else remove_observers E cur es ml)"

text \<open>An exception, a null result or a failed cast leaves the members as they were.\<close>

definition updateMinerList :: "'w raft_env \<Rightarrow> 'w raft \<Rightarrow> 'w raft" where
  "updateMinerList E s =
     (let cur = m_number (m_highestBlock s) in
      if \<not> m_storage s \<or> cur = m_lastObtainMinerNum s then s
      else case rs_select E (world s) (hashOf (crypt E) (m_highestBlock s)) cur ''_sys_miners_'' ''node'' of
        Inr (Some nodes) \<Rightarrow>
          (case add_miners E cur (m_entries nodes) (m_minerList s) of
             None \<Rightarrow> s
           | Some ml \<Rightarrow>
               (case remove_observers E cur (m_entries nodes) ml of
                  None \<Rightarrow> s
                | Some ml' \<Rightarrow> s\<lparr>m_minerList := sort ml', m_lastObtainMinerNum := cur\<rparr>))
      | _ \<Rightarrow> s)"

definition getIndexByMiner :: "bytes \<Rightarrow> 'w raft \<Rightarrow> nat option" where
  "getIndexByMiner nodeId s = find (\<lambda>i. m_minerList s ! i = nodeId) [0..<length (m_minerList s)]"

definition getNodeIdByIndex :: "nat \<Rightarrow> 'w raft \<Rightarrow> bytes option" where
  "getNodeIdByIndex i s = (let n = getMinerByIndex i s in if n = hash_zero 64 then None else Some n)"

definition resetConfig :: "'w raft_env \<Rightarrow> int \<Rightarrow> ('w, unit) reng" where
  "resetConfig E now =
     seqM (modifyM (updateMinerList E))
    (bindM (getM (\<lambda>s. s)) (\<lambda>s.
       let nodeNum = length (m_minerList s) in
       if nodeNum = 0 then modifyM (\<lambda>s. s\<lparr>m_cfgErr := True\<rparr>)
       else case getIndexByMiner (m_pub s) s of
         None \<Rightarrow> modifyM (\<lambda>s. s\<lparr>m_cfgErr := True\<rparr>)
       | Some nodeIdx \<Rightarrow>
           if nodeNum \<noteq> m_nodeNum s \<or> nodeIdx \<noteq> m_idx s
           then seqM (modifyM (\<lambda>s. s\<lparr>m_accountType := MinerAccount, m_nodeNum := nodeNum mod 2 ^ 16, m_idx := nodeIdx mod 2 ^ 16,
                        m_f := (nodeNum mod 2 ^ 16 - 1) div 2, m_cfgErr := False\<rparr>))
               (seqM (switchToFollower E now InvalidIndex) (modifyM (resetElectTimeout E now)))
           else modifyM (\<lambda>s. s\<lparr>m_accountType := MinerAccount, m_cfgErr := False\<rparr>)))"

definition initRaftEnv :: "'w raft_env \<Rightarrow> int \<Rightarrow> ('w, unit) reng" where
  "initRaftEnv E now =
     seqM (resetConfig E now)
    (seqM (modifyM (\<lambda>s. let mn = m_minElectTimeout s; mx = m_maxElectTimeout s; d = sub32 mx mn in
             s\<lparr>m_minElectTimeoutInit := mn, m_maxElectTimeoutInit := mx, m_minElectTimeoutBoundary := mn,
               m_maxElectTimeoutBoundary := (mx + d div 2) mod 2 ^ 32, m_lastElectTime := now, m_lastHeartbeatTime := now,
               m_heartbeatTimeout := mn, m_heartbeatInterval := mn div s_heartBeatIntervalRatio, m_increaseTime := d div 4\<rparr>))
    (seqM (modifyM (resetElectTimeout E now))
          (modifyM (\<lambda>s. s\<lparr>world := std_srand E (nat (millis now) mod 2 ^ 32) (world s)\<rparr>))))"

definition raft_start :: "'w raft_env \<Rightarrow> int \<Rightarrow> ('w, unit) reng" where
  "raft_start E now = seqM (initRaftEnv E now) (modifyM base_start)"

text \<open>The second half of \<open>reportBlock\<close> takes \<open>m_commitMutex\<close>.\<close>

definition reportBlock :: "'w raft_env \<Rightarrow> int \<Rightarrow> block \<Rightarrow> ('w, unit) reng" where
  "reportBlock E now b =
     bindM (getM (\<lambda>s. s)) (\<lambda>s.
       if bc_number E (world s) = 0 \<or> m_number (m_highestBlock s) < m_number (m_blockHeader b)
       then (case bc_getBlockByNumber E (world s) (bc_number E (world s)) of
               None \<Rightarrow> seqM (modifyM (\<lambda>s. s\<lparr>m_lastBlockTime := nat (millis now)\<rparr>)) (throwM (Consensus NullBlock))
             | Some hb \<Rightarrow>
                 seqM (modifyM (\<lambda>s. s\<lparr>m_lastBlockTime := nat (millis now), m_highestBlock := m_blockHeader hb\<rparr>))
                (if r_commitLocked s then throwM Deadlock
                 else
                   seqM (modifyM (\<lambda>s. s\<lparr>m_commitFingerPrint := amap_del (hashOf (crypt E) (m_blockHeader (m_uncommittedBlock s))) (m_commitFingerPrint s),
                           m_uncommittedBlock := block_new, m_uncommittedBlockNumber := 0,
                           m_consensusBlockNumber := (if m_number (m_highestBlock s) \<ge> m_consensusBlockNumber s
                             then m_number (m_highestBlock s) + 1 else m_consensusBlockNumber s)\<rparr>))
                        (resetConfig E now)))
       else returnM ())"

section \<open>Sending\<close>

definition transDataToMessage :: "(rlpstream \<Rightarrow> rlp_error + rlpstream) list \<Rightarrow> nat \<Rightarrow> raft_error + bytes" where
  "transDataToMessage flds packetType =
     liftC (liftRlp (bindE (pbft_wrap flds) (\<lambda>dat. raft_packet_encode (RaftMsgPacket\<lparr>rp_data := dat, rp_packetType := packetType\<rparr>))))"

definition broadcastMsg :: "'w raft_env \<Rightarrow> bytes \<Rightarrow> ('w, unit) reng" where
  "broadcastMsg E msg =
     bindM (getM (\<lambda>s. sessions E (world s))) (\<lambda>ss.
       forM ss (\<lambda>node. modifyM (\<lambda>s. if getIndexByMiner node s = None then s else emit (Send node msg) s)))"

text \<open>Only the first session of the node is used.\<close>

definition sendResponse :: "'w raft_env \<Rightarrow> bytes \<Rightarrow> nat \<Rightarrow> (rlpstream \<Rightarrow> rlp_error + rlpstream) list \<Rightarrow> ('w, bool) reng" where
  "sendResponse E node packetType flds =
     bindM (getM (\<lambda>s. node \<in> set (sessions E (world s)) \<and> getIndexByMiner node s \<noteq> None)) (\<lambda>found.
       if found
       then bindM (liftM (transDataToMessage flds packetType)) (\<lambda>msg. seqM (modifyM (emit (Send node msg))) (returnM True))
       else returnM False)"

definition generateVoteReq :: "'w raft_env \<Rightarrow> 'w raft \<Rightarrow> raft_vote_req" where
  "generateVoteReq E s =
     \<lparr>rm_idx = m_idx s, rm_term = m_term s, rm_height = m_number (m_highestBlock s), rm_blockHash = hashOf (crypt E) (m_highestBlock s),
      vr_candidate = m_idx s, vr_lastLeaderTerm = m_lastLeaderTerm s,
      vr_lastBlockNumber = (if block_bool (m_uncommittedBlock s) then bc_number E (world s) + 1 else bc_number E (world s))\<rparr>"

definition broadcastVoteReq :: "'w raft_env \<Rightarrow> ('w, unit) reng" where
  "broadcastVoteReq E =
     bindM (getM (generateVoteReq E)) (\<lambda>req.
     bindM (liftM (transDataToMessage (vote_req_fields req) RaftVoteReqPacket)) (broadcastMsg E))"

definition generateHeartbeat :: "'w raft_env \<Rightarrow> 'w raft \<Rightarrow> raft_error + raft_heartbeat" where
  "generateHeartbeat E s =
     bindE (if block_bool (m_uncommittedBlock s)
            then bindE (liftC (liftEth (block_encode (crypt E) (m_uncommittedBlock s)))) (\<lambda>(bs, _). Inr (bs, m_consensusBlockNumber s))
            else Inr ([], 0)) (\<lambda>(bs, n).
       Inr \<lparr>rm_idx = m_idx s, rm_term = m_term s, rm_height = m_number (m_highestBlock s),
            rm_blockHash = hashOf (crypt E) (m_highestBlock s), hb_leader = m_idx s, hb_uncommitedBlock = bs, hb_uncommitedBlockNumber = n\<rparr>)"

definition broadcastHeartbeat :: "'w raft_env \<Rightarrow> int \<Rightarrow> ('w, unit) reng" where
  "broadcastHeartbeat E now =
     bindM (getM (\<lambda>s. millis (now - m_lastHeartbeatTime s) \<ge> int (m_heartbeatInterval s))) (\<lambda>due.
       whenM due
         (seqM (modifyM (\<lambda>s. s\<lparr>m_lastHeartbeatTime := now\<rparr>))
         (bindM (getM (generateHeartbeat E)) (\<lambda>hb.
          bindM (liftM hb) (\<lambda>hb.
          bindM (liftM (transDataToMessage (heartbeat_fields hb) RaftHeartBeatPacket)) (\<lambda>msg.
          seqM (broadcastMsg E msg) (modifyM clearFirstVoteCache)))))))"

section \<open>Handlers\<close>

definition vote_resp :: "'w raft_env \<Rightarrow> 'w raft \<Rightarrow> nat \<Rightarrow> raft_vote_resp" where
  "vote_resp E s flag =
     \<lparr>rm_idx = m_idx s, rm_term = m_term s, rm_height = m_number (m_highestBlock s), rm_blockHash = hashOf (crypt E) (m_highestBlock s),
      vp_voteFlag = flag, vp_lastLeaderTerm = m_lastLeaderTerm s\<rparr>"

definition send_vote :: "'w raft_env \<Rightarrow> bytes \<Rightarrow> raft_vote_resp \<Rightarrow> ('w, unit) reng" where
  "send_vote E node resp = bindM (sendResponse E node RaftVoteRespPacket (vote_resp_fields resp)) (\<lambda>_. returnM ())"

text \<open>A leader that receives a request with a term not above its own only changes the flag of the response and goes on.
  The response keeps the last leader term read at the start.\<close>

definition handleVoteRequest :: "'w raft_env \<Rightarrow> int \<Rightarrow> bytes \<Rightarrow> raft_vote_req \<Rightarrow> ('w, bool) reng" where
  "handleVoteRequest E now node req =
     bindM (getM (\<lambda>s. s)) (\<lambda>s.
       if rm_term req \<le> m_term s \<and> m_state s \<noteq> EN_STATE_LEADER
       then seqM (send_vote E node (vote_resp E s (if rm_term req = m_term s then VOTE_RESP_DISCARD else VOTE_RESP_REJECT))) (returnM False)
       else if vr_lastLeaderTerm req < m_lastLeaderTerm s
       then seqM (send_vote E node (vote_resp E s VOTE_RESP_LASTTERM_ERROR)) (returnM False)
       else if vr_lastBlockNumber req < (if block_bool (m_uncommittedBlock s) then bc_number E (world s) + 1 else bc_number E (world s))
       then seqM (send_vote E node (vote_resp E s VOTE_RESP_OUTDATED)) (returnM False)
       else if m_firstVote s = InvalidIndex
       then seqM (modifyM (\<lambda>s. s\<lparr>m_firstVote := vr_candidate req\<rparr>))
           (seqM (send_vote E node (vote_resp E s VOTE_RESP_FIRST_VOTE)) (returnM False))
       else
         seqM (modifyM (\<lambda>s. s\<lparr>m_term := rm_term req, m_leader := InvalidIndex, m_vote := vr_candidate req, m_firstVote := vr_candidate req\<rparr>))
        (seqM (send_vote E node ((vote_resp E s VOTE_RESP_GRANTED)\<lparr>rm_term := rm_term req\<rparr>))
        (seqM (modifyM (resetElectTimeout E now)) (returnM True))))"

definition handleVoteResponse :: "raft_vote_resp \<Rightarrow> vote_state \<Rightarrow> ('w, handle_vote_result \<times> vote_state) reng" where
  "handleVoteResponse resp v =
     bindM (getM (\<lambda>s. s)) (\<lambda>s.
       if rm_term resp < dec64 (m_term s) then returnM (NONE, v)
       else if vp_voteFlag resp = VOTE_RESP_REJECT then
         (let v = v\<lparr>vs_unVote := vs_unVote v + 1\<rparr> in
          if isMajorityVote (vs_unVote v) s then seqM (modifyM increaseElectTime) (returnM (TO_FOLLOWER, v)) else returnM (NONE, v))
       else if vp_voteFlag resp = VOTE_RESP_LEADER_REJECT then
         seqM (modifyM (\<lambda>s. increaseElectTime (s\<lparr>m_term := rm_term resp, m_lastLeaderTerm := vp_lastLeaderTerm resp\<rparr>)))
           (returnM (TO_FOLLOWER, v))
       else if vp_voteFlag resp = VOTE_RESP_LASTTERM_ERROR then
         (let v = v\<lparr>vs_lastTermErr := vs_lastTermErr v + 1\<rparr> in
          if isMajorityVote (vs_lastTermErr v) s then seqM (modifyM increaseElectTime) (returnM (TO_FOLLOWER, v)) else returnM (NONE, v))
       else if vp_voteFlag resp = VOTE_RESP_FIRST_VOTE then
         (let v = v\<lparr>vs_firstVote := vs_firstVote v + 1\<rparr> in
          if isMajorityVote (vs_firstVote v) s
          then seqM (modifyM (\<lambda>s. s\<lparr>m_term := dec64 (m_term s)\<rparr>)) (returnM (TO_FOLLOWER, v)) else returnM (NONE, v))
       else if vp_voteFlag resp = VOTE_RESP_DISCARD then returnM (NONE, v\<lparr>vs_discardedVote := vs_discardedVote v + 1\<rparr>)
       else if vp_voteFlag resp = VOTE_RESP_OUTDATED then returnM (NONE, v\<lparr>vs_outdated := vs_outdated v + 1\<rparr>)
       else if vp_voteFlag resp = VOTE_RESP_GRANTED then
         (let v = v\<lparr>vs_vote := vs_vote v + 1\<rparr> in returnM (if isMajorityVote (vs_vote v) s then TO_LEADER else NONE, v))
       else returnM (NONE, v))"

definition heartbeat_resp :: "'w raft_env \<Rightarrow> 'w raft \<Rightarrow> bytes \<Rightarrow> raft_heartbeat_resp" where
  "heartbeat_resp E s h =
     \<lparr>rm_idx = m_idx s, rm_term = m_term s, rm_height = m_number (m_highestBlock s), rm_blockHash = hashOf (crypt E) (m_highestBlock s),
      hr_uncommitedBlockHash = h\<rparr>"

text \<open>The three tests for stepping down, one after the other.\<close>

definition step_down :: "raft_heartbeat \<Rightarrow> 'w raft \<Rightarrow> bool \<times> 'w raft" where
  "step_down hb s =
     (let adopt = (\<lambda>s. s\<lparr>m_term := rm_term hb, m_vote := InvalidIndex\<rparr>);
          (d1, s1) = (if rm_term hb > m_lastLeaderTerm s then (True, adopt s) else (False, s));
          (d2, s2) = (if rm_term hb > m_term s1 then (True, adopt s1) else (d1, s1))
      in if m_state s2 = EN_STATE_CANDIDATE \<and> rm_term hb \<ge> m_term s2 then (True, adopt s2) else (d2, s2))"

definition handleHeartbeat :: "'w raft_env \<Rightarrow> int \<Rightarrow> bytes \<Rightarrow> raft_heartbeat \<Rightarrow> ('w, bool) reng" where
  "handleHeartbeat E now node hb =
     bindM (getM (\<lambda>s. s)) (\<lambda>s.
       if rm_term hb < m_term s \<and> rm_term hb \<le> m_lastLeaderTerm s then returnM False
       else if length (hb_uncommitedBlock hb) \<noteq> 0 \<and> hb_uncommitedBlockNumber hb - 1 \<noteq> m_number (m_highestBlock s) then returnM False
       else
         bindM (if length (hb_uncommitedBlock hb) \<noteq> 0
                then bindM (liftM (liftC (liftEth (block_decode (crypt E) (hb_uncommitedBlock hb) block_new)))) (\<lambda>b.
                  seqM (modifyM (\<lambda>s. s\<lparr>m_uncommittedBlock := b, m_uncommittedBlockNumber := hb_uncommitedBlockNumber hb\<rparr>))
                    (returnM (hashOf (crypt E) (m_blockHeader b))))
                else returnM (hash_zero 32)) (\<lambda>h.
         bindM (sendResponse E node RaftHeartBeatRespPacket (heartbeat_resp_fields (heartbeat_resp E s h))) (\<lambda>_.
         bindM (updateM (step_down hb)) (\<lambda>stepDown.
         seqM (modifyM clearFirstVoteCache)
        (seqM (modifyM (\<lambda>s. s\<lparr>m_lastLeaderTerm := rm_term hb\<rparr>))
        (seqM (modifyM (resetElectTimeout E now)) (returnM stepDown)))))))"

section \<open>Execution and commit\<close>

definition raft_checkBlockValid :: "'w raft_env \<Rightarrow> nat \<Rightarrow> block \<Rightarrow> 'w raft \<Rightarrow> consensus_error + unit" where
  "raft_checkBlockValid E now b s =
     bindE (base_checkBlockValid (env.truncate E) now b s) (\<lambda>_.
       if m_minerList s \<noteq> m_sealerList (m_blockHeader b) then Inl BlockMinerListWrong else Inr ())"

definition execBlock :: "'w raft_env \<Rightarrow> int \<Rightarrow> block \<Rightarrow> ('w raft, consensus_error, block \<times> nat) action" where
  "execBlock E now b =
     bindM (getM (raft_checkBlockValid E (nat (millis now)) b)) (\<lambda>r.
     bindM (liftM r) (\<lambda>_.
     seqM (modifyM (emit (NoteSealingBlockNumber (m_number (m_blockHeader b)))))
       (base_executeBlock (env.truncate E) b)))"

definition checkAndSave :: "'w raft_env \<Rightarrow> int \<Rightarrow> block \<Rightarrow> nat \<Rightarrow> ('w, unit) reng" where
  "checkAndSave E now b ctx =
     seqM (modifyM (emit (CommitBlock b)))
    (bindM (\<lambda>s. case bc_commitBlock E b (Some ctx) (world s) of (r, w) \<Rightarrow> (liftC r, s\<lparr>world := w\<rparr>)) (\<lambda>ret.
     seqM (modifyM (if ret = OK then dropHandledTransactions b else emit (HandleBadBlock b)))
       (resetConfig E now)))"

definition checkAndExecute :: "'w raft_env \<Rightarrow> int \<Rightarrow> block \<Rightarrow> ('w, bool) reng" where
  "checkAndExecute E now b s =
     (case execBlock E now b s of
        (Inl _, s1) \<Rightarrow> (Inr False, s1)
      | (Inr (b', ctx), s1) \<Rightarrow> seqM (checkAndSave E now b' ctx) (returnM True) s1)"

text \<open>\<open>commit\<close>: storing the block, beginning to wait, and what follows once \<open>m_commitReady\<close> holds.\<close>

definition commit_store :: "block \<Rightarrow> ('w, unit) reng" where
  "commit_store b = modifyM (\<lambda>s. s\<lparr>m_uncommittedBlock := b, m_uncommittedBlockNumber := m_consensusBlockNumber s\<rparr>)"

definition commit_wait :: "('w, unit) reng" where
  "commit_wait = modifyM (\<lambda>s. s\<lparr>m_waitingForCommitting := True, m_commitReady := False\<rparr>)"

definition commit_wake :: "'w raft_env \<Rightarrow> int \<Rightarrow> block \<Rightarrow> ('w, bool) reng" where
  "commit_wake E now b =
     seqM (modifyM (\<lambda>s. s\<lparr>m_commitReady := False, m_waitingForCommitting := False\<rparr>))
    (bindM (getM (\<lambda>s. s)) (\<lambda>s.
       if \<not> block_bool (m_uncommittedBlock s)
       then if m_uncommittedBlockNumber s = 0 then returnM False else throwM AssertFailed
       else
         seqM (modifyM (\<lambda>s. s\<lparr>m_uncommittedBlock := block_new, m_uncommittedBlockNumber := 0\<rparr>))
           (if m_state s \<noteq> EN_STATE_LEADER then returnM False else checkAndExecute E now b)))"

definition u256_of :: "int \<Rightarrow> nat" where
  "u256_of i = nat (i mod 2 ^ 256)"

definition shouldSeal :: "'w raft_env \<Rightarrow> 'w raft \<Rightarrow> bool" where
  "shouldSeal E s \<longleftrightarrow>
     m_state s = EN_STATE_LEADER \<and> \<not> m_cfgErr s \<and> m_accountType s = MinerAccount
     \<and> list_all (\<lambda>(_, (h, _)). u256_of h \<le> u256_of (m_number (m_highestBlock s))) (m_memberBlock s)
     \<and> 1 + length (filter (\<lambda>(_, (h, bh)). u256_of h = u256_of (m_number (m_highestBlock s)) \<and> bh = hashOf (crypt E) (m_highestBlock s)) (m_memberBlock s))
         \<ge> m_nodeNum s - m_f s
     \<and> \<not> block_bool (m_uncommittedBlock s)"

section \<open>The engine thread\<close>

text \<open>\<open>tryPop\<close>: the first packet, or none when the queue stays empty for the waiting time.\<close>

definition tryPop :: "('w, raft_packet option) reng" where
  "tryPop = updateM (\<lambda>s. case m_msgQueue s of [] \<Rightarrow> (None, s) | p # q \<Rightarrow> (Some p, s\<lparr>m_msgQueue := q\<rparr>))"

definition liftPacket :: "rlp_error + 'a \<Rightarrow> ('w, 'a) reng" where
  "liftPacket r = liftM (liftC (liftRlp r))"

text \<open>The acknowledgement of a heartbeat: first the member's height and the count of recent acknowledgements,\<close>

definition note_ack :: "int \<Rightarrow> bytes \<Rightarrow> raft_heartbeat_resp \<Rightarrow> (bytes, nat) amap \<Rightarrow> ('w, (bytes, nat) amap) reng" where
  "note_ack now node resp log =
     seqM (modifyM (\<lambda>s. s\<lparr>m_memberBlock := amap_set node (rm_height resp, rm_blockHash resp) (m_memberBlock s)\<rparr>))
    (bindM (getM (\<lambda>s. s)) (\<lambda>s.
       let log = amap_set node (case map_of log node of None \<Rightarrow> 1 | Some n \<Rightarrow> (n + 1) mod 2 ^ 32) log in
       if length (filter (\<lambda>(_, n). n > 0) log) + 1 \<ge> m_nodeNum s - m_f s
       then seqM (modifyM (\<lambda>s. s\<lparr>m_lastHeartbeatReset := now\<rparr>)) (returnM (map (\<lambda>(k, n). (k, n - 1)) log))
       else returnM log))"

text \<open>A call with \<open>m_commitMutex\<close> locked; the lock is given back on return and by an exception.\<close>

definition commit_locked :: "('w, 'a) reng \<Rightarrow> ('w, 'a) reng" where
  "commit_locked m s =
     (case m (s\<lparr>r_commitLocked := True\<rparr>) of
        (Inl Deadlock, s') \<Rightarrow> (Inl Deadlock, s')
      | (r, s') \<Rightarrow> (r, s'\<lparr>r_commitLocked := False\<rparr>))"

text \<open>then the vote for the block that waits to be committed, under \<open>m_commitMutex\<close>.\<close>

definition note_fingerprint :: "'w raft_env \<Rightarrow> int \<Rightarrow> bytes \<Rightarrow> raft_heartbeat_resp \<Rightarrow> ('w, unit) reng" where
  "note_fingerprint E now node resp =
     bindM (getM (\<lambda>s. s)) (\<lambda>s.
       if \<not> block_bool (m_uncommittedBlock s) then returnM ()
       else if m_uncommittedBlockNumber s \<noteq> m_consensusBlockNumber s
       then modifyM (\<lambda>s. s\<lparr>m_uncommittedBlock := block_new, m_uncommittedBlockNumber := 0\<rparr>)
       else
         let h = hashOf (crypt E) (m_blockHeader (m_uncommittedBlock s)) in
         if hr_uncommitedBlockHash resp \<noteq> h then returnM ()
         else
           let votes = insert node (case map_of (m_commitFingerPrint s) h of None \<Rightarrow> {} | Some v \<Rightarrow> v) in
           seqM (modifyM (\<lambda>s. s\<lparr>m_commitFingerPrint := amap_set h votes (m_commitFingerPrint s)\<rparr>))
             (if card votes + 1 \<ge> m_nodeNum s - m_f s
              then if m_waitingForCommitting s then modifyM (\<lambda>s. s\<lparr>m_commitReady := True\<rparr>)
                   else
                     bindM (commit_locked (checkAndExecute E now (m_uncommittedBlock s))) (\<lambda>_.
                     bindM (getM m_uncommittedBlock) (reportBlock E now))
              else returnM ()))"

text \<open>The packets a leader handles.\<close>

definition leader_packet :: "'w raft_env \<Rightarrow> int \<Rightarrow> (bytes, nat) amap \<Rightarrow> raft_packet \<Rightarrow> ('w, bool \<times> (bytes, nat) amap) reng" where
  "leader_packet E now log p =
     (if rp_packetType p = RaftVoteReqPacket then
        bindM (liftPacket (raft_open vote_req_populate p)) (\<lambda>req.
        bindM (handleVoteRequest E now (rp_nodeId p) req) (\<lambda>b.
          if b then seqM (switchToFollower E now InvalidIndex) (returnM (False, log)) else returnM (True, log)))
      else if rp_packetType p = RaftHeartBeatPacket then
        bindM (liftPacket (raft_open heartbeat_populate p)) (\<lambda>hb.
        bindM (handleHeartbeat E now (rp_nodeId p) hb) (\<lambda>b.
          if b then seqM (switchToFollower E now (hb_leader hb)) (returnM (False, log)) else returnM (True, log)))
      else if rp_packetType p = RaftHeartBeatRespPacket then
        bindM (liftPacket (raft_open heartbeat_resp_populate p)) (\<lambda>resp.
        bindM (getM m_term) (\<lambda>term.
          if rm_term resp \<noteq> term then returnM (True, log)
          else
            bindM (note_ack now (rp_nodeId p) resp log) (\<lambda>log.
            seqM (note_fingerprint E now (rp_nodeId p) resp) (returnM (True, log)))))
      else returnM (True, log))"

definition runAsLeaderImp :: "'w raft_env \<Rightarrow> int \<Rightarrow> (bytes, nat) amap \<Rightarrow> ('w, bool \<times> (bytes, nat) amap) reng" where
  "runAsLeaderImp E now log =
     bindM (getM (\<lambda>s. s)) (\<lambda>s.
       if m_state s \<noteq> EN_STATE_LEADER then returnM (False, log)
       else if m_nodeNum s > 1 \<and> checkHeartbeatTimeout now s then seqM (modifyM (switchToCandidate E now)) (returnM (False, log))
       else
         seqM (broadcastHeartbeat E now)
        (bindM tryPop (\<lambda>ret. case ret of None \<Rightarrow> returnM (True, log) | Some p \<Rightarrow> leader_packet E now log p)))"

definition runAsCandidateImp :: "'w raft_env \<Rightarrow> int \<Rightarrow> vote_state \<Rightarrow> ('w, bool \<times> vote_state) reng" where
  "runAsCandidateImp E now v =
     bindM (getM (\<lambda>s. s)) (\<lambda>s.
       if checkElectTimeout now s
       then if isMajorityVote (totalVoteCount v) s
            then seqM (modifyM (switchToCandidate E now)) (returnM (False, v))
            else seqM (modifyM increaseElectTime)
                (seqM (modifyM (\<lambda>s. s\<lparr>m_term := dec64 (m_term s)\<rparr>))
                (seqM (switchToFollower E now InvalidIndex) (returnM (False, v))))
       else
         bindM tryPop (\<lambda>ret.
           case ret of None \<Rightarrow> returnM (True, v)
           | Some p \<Rightarrow>
               if rp_packetType p = RaftVoteReqPacket then
                 bindM (liftPacket (raft_open vote_req_populate p)) (\<lambda>req.
                 bindM (handleVoteRequest E now (rp_nodeId p) req) (\<lambda>b.
                   if b then seqM (switchToFollower E now InvalidIndex) (returnM (False, v)) else returnM (True, v)))
               else if rp_packetType p = RaftVoteRespPacket then
                 bindM (liftPacket (raft_open vote_resp_populate p)) (\<lambda>resp.
                 bindM (handleVoteResponse resp v) (\<lambda>(r, v).
                   if r = TO_LEADER then seqM (modifyM switchToLeader) (returnM (False, v))
                   else if r = TO_FOLLOWER then seqM (switchToFollower E now InvalidIndex) (returnM (False, v))
                   else returnM (True, v)))
               else if rp_packetType p = RaftHeartBeatPacket then
                 bindM (liftPacket (raft_open heartbeat_populate p)) (\<lambda>hb.
                 bindM (handleHeartbeat E now (rp_nodeId p) hb) (\<lambda>b.
                   if b then seqM (switchToFollower E now (hb_leader hb)) (returnM (False, v)) else returnM (True, v)))
               else returnM (True, v)))"

definition runAsFollowerImp :: "'w raft_env \<Rightarrow> int \<Rightarrow> ('w, bool) reng" where
  "runAsFollowerImp E now =
     bindM (getM (\<lambda>s. s)) (\<lambda>s.
       if m_state s \<noteq> EN_STATE_FOLLOWER then returnM False
       else if checkElectTimeout now s then seqM (modifyM (switchToCandidate E now)) (returnM False)
       else
         bindM tryPop (\<lambda>ret.
           case ret of None \<Rightarrow> returnM True
           | Some p \<Rightarrow>
               if rp_packetType p = RaftVoteReqPacket then
                 bindM (liftPacket (raft_open vote_req_populate p)) (\<lambda>req.
                 bindM (handleVoteRequest E now (rp_nodeId p) req) (\<lambda>b. returnM (\<not> b)))
               else if rp_packetType p = RaftHeartBeatPacket then
                 bindM (liftPacket (raft_open heartbeat_populate p)) (\<lambda>hb.
                 seqM (modifyM (\<lambda>s. if m_leader s = Invalid256 then s\<lparr>m_leader := hb_leader hb\<rparr> else s))
                (bindM (handleHeartbeat E now (rp_nodeId p) hb) (\<lambda>b.
                   seqM (whenM b (modifyM (\<lambda>s. s\<lparr>m_leader := hb_leader hb\<rparr>))) (returnM True))))
               else returnM True))"

text \<open>The beginnings of \<open>runAsLeader\<close> and \<open>runAsCandidate\<close>.\<close>

definition enterLeader :: "int \<Rightarrow> ('w, raft_loop) reng" where
  "enterLeader now =
     seqM (modifyM (\<lambda>s. s\<lparr>m_firstVote := InvalidIndex, m_lastLeaderTerm := m_term s, m_lastHeartbeatReset := now, m_lastHeartbeatTime := now\<rparr>))
       (returnM (InLeader []))"

definition enterCandidate :: "'w raft_env \<Rightarrow> ('w, raft_loop) reng" where
  "enterCandidate E =
     seqM (broadcastVoteReq E)
    (seqM (modifyM (\<lambda>s. s\<lparr>m_vote := m_idx s, m_firstVote := m_idx s\<rparr>))
    (bindM (getM (wonElection 1)) (\<lambda>won.
       if won then seqM (modifyM switchToLeader) (returnM AtTop)
       else returnM (InCandidate (VoteState\<lparr>vs_vote := 1\<rparr>)))))"

text \<open>One pass of the engine thread.\<close>

definition engine_step :: "'w raft_env \<Rightarrow> int \<Rightarrow> ('w, unit) reng" where
  "engine_step E now =
     bindM (getM (\<lambda>s. s)) (\<lambda>s.
     bindM (case r_loop s of
              AtTop \<Rightarrow>
                if m_cfgErr s \<or> m_accountType s \<noteq> MinerAccount then returnM AtTop
                else (case m_state s of
                        EN_STATE_LEADER \<Rightarrow> enterLeader now
                      | EN_STATE_FOLLOWER \<Rightarrow> returnM InFollower
                      | EN_STATE_CANDIDATE \<Rightarrow> enterCandidate E)
            | InLeader log \<Rightarrow> bindM (runAsLeaderImp E now log) (\<lambda>(b, log). returnM (if b then InLeader log else AtTop))
            | InFollower \<Rightarrow> bindM (runAsFollowerImp E now) (\<lambda>b. returnM (if b then InFollower else AtTop))
            | InCandidate v \<Rightarrow> bindM (runAsCandidateImp E now v) (\<lambda>(b, v). returnM (if b then InCandidate v else AtTop))) (\<lambda>l.
       modifyM (\<lambda>s. s\<lparr>r_loop := l\<rparr>)))"

section \<open>Receiving\<close>

definition isValidReq :: "bytes \<Rightarrow> bytes \<Rightarrow> 'w raft \<Rightarrow> nat option" where
  "isValidReq buffer sender s =
     (if length buffer \<le> 0 then None
      else case getIndexByMiner sender s of
        None \<Rightarrow> None
      | Some i \<Rightarrow> (case getNodeIdByIndex (m_idx s) s of None \<Rightarrow> None | Some n \<Rightarrow> if sender = n then None else Some i))"

definition onRecvRaftMessage :: "bytes \<Rightarrow> bytes \<Rightarrow> ('w, unit) reng" where
  "onRecvRaftMessage buffer sender =
     modifyM (\<lambda>s. case isValidReq buffer sender s of
       None \<Rightarrow> s
     | Some i \<Rightarrow>
         (case raft_packet_decode buffer RaftMsgPacket of
            Inl _ \<Rightarrow> s
          | Inr p \<Rightarrow>
              if rp_packetType p < RaftPacketCount
              then s\<lparr>m_msgQueue := m_msgQueue s @ [p\<lparr>rp_nodeIdx := i, rp_nodeId := sender\<rparr>]\<rparr> else s))"

definition reachBlockIntervalTime :: "nat \<Rightarrow> nat \<Rightarrow> 'w raft \<Rightarrow> bool" where
  "reachBlockIntervalTime interval now s \<longleftrightarrow> nat ((int now - int (m_lastBlockTime s)) mod 2 ^ 64) \<ge> interval"

end
