(* ===== verification/RaftSafety.thy ===== *)
theory RaftSafety
  imports RaftEngine
begin

text \<open>
  What the Raft engine guarantees. Messages with terms and heights below \<open>2^32\<close> survive the wire; whatever happens to the engine, the election timeout
  stays between the configured bounds; the engine thread commits a block only after a majority acknowledged it. The network of nodes
  for the run of theory \<open>RaftElection\<close> is defined at the end.
\<close>

section \<open>The wire format\<close>

lemma enc_int_type: "n < 4 \<Longrightarrow> length (enc_int n) = 1"
proof -
  have "length (enc_int 0) = 1" "length (enc_int 1) = 1" "length (enc_int 2) = 1" "length (enc_int 3) = 1"
    by code_simp+
  moreover assume "n < 4"
  then have "n \<in> {0, 1, 2, 3}"
    by auto
  ultimately show ?thesis
    by blast
qed

lemma raft_packet_wire:
  assumes "rp_packetType p < 4" "length (rp_data p) < 2 ^ 60"
  shows "\<exists>out. raft_packet_encode p = Inr out \<and> out \<noteq> []
    \<and> raft_packet_decode out q = Inr (q\<lparr>rp_packetType := rp_packetType p, rp_data := rp_data p\<rparr>)"
proof -
  let ?t = "rp_packetType p" and ?d = "rp_data p"
  have b: "rlp_size_ok (length ?d)"
    using assms(2) by (simp add: rlp_size_ok_def)
  have u: "u256 ?t"
    using assms(1) by (intro u256_less [of _ 8]) simp_all
  have one: "length (enc_int ?t) = 1"
    using assms(1) by (rule enc_int_type)
  have "nat (int ?t mod 2 ^ 32) = ?t"
    using assms(1) by simp
  then have "emits (append_unsigned (int ?t)) (enc_int ?t)"
    using emits_append_unsigned [of "int ?t"] by simp
  then have em: "list_all2 emits [append_unsigned (int ?t), append_data ?d False] [enc_int ?t, enc_data ?d]"
    using emits_append_data [OF b] by simp
  have "raft_packet_encode p = Inr (enc_int ?t @ enc_data ?d)"
    using append_all_flat [OF em, of "[]"] by (simp add: raft_packet_encode_def rlpstream_new_def rlp_out_def)
  moreover have "cropped (enc_int ?t @ enc_data ?d) 0 1 = enc_int ?t" "drop 1 (enc_int ?t @ enc_data ?d) = enc_data ?d"
    using one by (simp_all add: cropped_def)
  moreover have "toInt 32 4 (enc_int ?t) = Inr ?t"
    using assms(1) by (intro toInt_enc_int) simp_all
  ultimately show ?thesis
    using one assms(1) rlp_item_open [OF rlp_item_enc_int [OF u]] rlp_item_open [OF rlp_item_enc_data [OF b]] toBytes_enc_data [OF b]
    by (auto simp: raft_packet_decode_def simp del: VeryStrict_def LaissezFaire_def One_nat_def)
qed

text \<open>The four fields every message begins with.\<close>

definition raft_wf :: "'a raft_msg_scheme \<Rightarrow> bool" where
  "raft_wf m \<longleftrightarrow> u256 (rm_idx m) \<and> rm_term m < 2 ^ 32 \<and> 0 \<le> rm_height m \<and> rm_height m < 2 ^ 32 \<and> length (rm_blockHash m) = 32"

definition raft_items :: "'a raft_msg_scheme \<Rightarrow> bytes list" where
  "raft_items m = [enc_int (rm_idx m), enc_int (rm_term m), enc_int (nat (rm_height m)), enc_data (rm_blockHash m)]"

lemma emits_append_small: "0 \<le> i \<Longrightarrow> i < 2 ^ 32 \<Longrightarrow> emits (append_unsigned i) (enc_int (nat i))"
  using emits_append_unsigned [of i] by simp

lemma u256_32: "n < 2 ^ 32 \<Longrightarrow> u256 n"
  by (erule u256_less) simp

lemma length_enc_int_32: "n < 2 ^ 32 \<Longrightarrow> length (enc_int n) \<le> 41"
  by (intro length_enc_int_le u256_32)

lemma raft_items_emitted:
  assumes "raft_wf m"
  shows "list_all2 emits (raft_msg_fields m) (raft_items m)" "list_all rlp_item (raft_items m)" "length (concat (raft_items m)) \<le> 164"
proof -
  have s: "rlp_size_ok 32"
    by (simp add: rlp_size_ok_def)
  have t: "emits (append_unsigned (int (rm_term m))) (enc_int (rm_term m))"
    using assms emits_append_small [of "int (rm_term m)"] by (simp add: raft_wf_def)
  have h: "emits (append_unsigned (rm_height m)) (enc_int (nat (rm_height m)))" and hn: "nat (rm_height m) < 2 ^ 32"
    using assms by (auto simp: raft_wf_def nat_less_iff intro: emits_append_small)
  show "list_all2 emits (raft_msg_fields m) (raft_items m)"
    using assms s t h by (simp add: raft_msg_fields_def raft_items_def raft_wf_def emits_append_u256 emits_append_hash)
  show "list_all rlp_item (raft_items m)"
    using assms s u256_32 hn by (simp add: raft_items_def raft_wf_def)
  show "length (concat (raft_items m)) \<le> 164"
    using assms s hn length_enc_int_le [of "rm_idx m"] length_enc_int_32 [of "rm_term m"] length_enc_int_32 [of "nat (rm_height m)"]
      length_enc_data_le [of "rm_blockHash m"]
    by (simp add: raft_items_def raft_wf_def)
qed

lemma toInt_64_32: "n < 2 ^ 32 \<Longrightarrow> toInt 64 Strict (enc_int n) = Inr n"
  by (intro toInt_enc_int) simp_all

lemma raft_populate_items:
  assumes "raft_wf m" "\<And>i. i < 4 \<Longrightarrow> rlp_at r i = Inr (raft_items m ! i)"
  shows "raft_msg_populate r = Inr (rm_idx m, rm_term m, rm_height m, rm_blockHash m)"
proof -
  have s: "rlp_size_ok 32"
    by (simp add: rlp_size_ok_def)
  have f: "rlp_at r 0 = Inr (enc_int (rm_idx m))" "rlp_at r 1 = Inr (enc_int (rm_term m))"
    "rlp_at r 2 = Inr (enc_int (nat (rm_height m)))" "rlp_at r 3 = Inr (enc_data (rm_blockHash m))"
    using assms(2) by (simp_all add: raft_items_def)
  have hn: "nat (rm_height m) < 2 ^ 32"
    using assms(1) by (auto simp: raft_wf_def nat_less_iff)
  have "as_int64 (nat (rm_height m)) = rm_height m"
    using as_int64_small [OF hn] assms(1) by (simp add: raft_wf_def)
  then show ?thesis
    using assms(1) s toInt_64_32 [of "rm_term m"] toInt_64_32 [OF hn]
    by (simp add: raft_msg_populate_def f toInt_u256 toHash_enc_data raft_wf_def del: Strict_def VeryStrict_def One_nat_def)
qed

lemma raft_wire:
  assumes em: "list_all2 emits fs es" and it: "list_all rlp_item es" and len: "length (concat es) < 2 ^ 59" and ty: "ty < 4"
    and pop: "\<And>r. (\<And>i. i < length es \<Longrightarrow> rlp_at r i = Inr (es ! i)) \<Longrightarrow> populate r = Inr m"
  shows "\<exists>out p. transDataToMessage fs ty = Inr out \<and> out \<noteq> [] \<and> raft_packet_decode out RaftMsgPacket = Inr p
    \<and> rp_packetType p = ty \<and> raft_open populate (p\<lparr>rp_nodeIdx := i, rp_nodeId := n\<rparr>) = Inr m"
proof -
  have ok: "rlp_size_ok (length (concat es) + 9)" and ok1: "rlp_size_ok (length (concat es))"
    using len by (simp_all add: rlp_size_ok_def)
  let ?d = "enc_list (enc_data (concat es))"
  have ok2: "rlp_size_ok (length (enc_data (concat es)))"
    using length_enc_data_le [OF ok1] len by (simp add: rlp_size_ok_def)
  have w: "pbft_wrap fs = Inr ?d"
    by (rule pbft_wrap_items [OF em ok])
  have l: "length ?d < 2 ^ 60"
    using length_enc_list_le [OF ok2] length_enc_data_le [OF ok1] len by simp
  obtain out where out: "raft_packet_encode (RaftMsgPacket\<lparr>rp_data := ?d, rp_packetType := ty\<rparr>) = Inr out" "out \<noteq> []"
    "raft_packet_decode out RaftMsgPacket = Inr (RaftMsgPacket\<lparr>rp_packetType := ty, rp_data := ?d\<rparr>)"
    using raft_packet_wire [of "RaftMsgPacket\<lparr>rp_data := ?d, rp_packetType := ty\<rparr>" RaftMsgPacket] ty l by auto
  have "populate (enc_data (concat es)) = Inr m"
    using pbft_unwrap_items(3) [OF it ok] by (intro pop) simp
  then have "raft_open populate p = Inr m" if "rp_data p = ?d" for p
    using that pbft_unwrap_items(1,2) [OF it ok] by (simp add: raft_open_def del: VeryStrict_def)
  then show ?thesis
    using out w by (auto simp: transDataToMessage_def liftC_def liftRlp_def liftEth_def liftR_def)
qed

lemma vote_req_wire:
  assumes wf: "raft_wf m" and "u256 (vr_candidate m)" "vr_lastLeaderTerm m < 2 ^ 32" "0 \<le> vr_lastBlockNumber m" "vr_lastBlockNumber m < 2 ^ 32"
  shows "\<exists>out p. transDataToMessage (vote_req_fields m) RaftVoteReqPacket = Inr out \<and> out \<noteq> [] \<and> raft_packet_decode out RaftMsgPacket = Inr p
    \<and> rp_packetType p = RaftVoteReqPacket \<and> raft_open vote_req_populate (p\<lparr>rp_nodeIdx := i, rp_nodeId := n\<rparr>) = Inr m"
proof -
  let ?es = "raft_items m @ [enc_int (vr_candidate m), enc_int (vr_lastLeaderTerm m), enc_int (nat (vr_lastBlockNumber m))]"
  have n: "nat (vr_lastBlockNumber m) < 2 ^ 32"
    using assms(4,5) by (simp add: nat_less_iff)
  have len: "length (raft_items m) = 4"
    by (simp add: raft_items_def)
  have em: "list_all2 emits (vote_req_fields m) ?es"
    unfolding vote_req_fields_def
    using raft_items_emitted(1) [OF wf] emits_append_u256 [OF assms(2)] emits_append_small [of "int (vr_lastLeaderTerm m)"]
      emits_append_small [OF assms(4,5)] assms(3) by (intro list_all2_appendI) simp_all
  have it: "list_all rlp_item ?es"
    using raft_items_emitted(2) [OF wf] assms(2,3) n u256_32 by simp
  have lb: "length (concat ?es) < 2 ^ 59"
    using raft_items_emitted(3) [OF wf] length_enc_int_le [OF assms(2)] length_enc_int_32 [OF assms(3)] length_enc_int_32 [OF n] by simp
  have "vote_req_populate r = Inr m" if r: "\<And>i. i < length ?es \<Longrightarrow> rlp_at r i = Inr (?es ! i)" for r
  proof -
    have f: "rlp_at r 4 = Inr (enc_int (vr_candidate m))" "rlp_at r 5 = Inr (enc_int (vr_lastLeaderTerm m))"
      "rlp_at r 6 = Inr (enc_int (nat (vr_lastBlockNumber m)))"
      using r [of 4] r [of 5] r [of 6] len by (simp_all add: nth_append)
    have "raft_msg_populate r = Inr (rm_idx m, rm_term m, rm_height m, rm_blockHash m)"
      using r len by (intro raft_populate_items [OF wf]) (simp add: nth_append)
    moreover have "as_int64 (nat (vr_lastBlockNumber m)) = vr_lastBlockNumber m"
      using as_int64_small [OF n] assms(4) by simp
    ultimately show ?thesis
      using f assms(2) toInt_64_32 [OF assms(3)] toInt_64_32 [OF n] by (simp add: vote_req_populate_def toInt_u256 del: Strict_def)
  qed
  then show ?thesis
    by (intro raft_wire [OF em it lb]) simp_all
qed

lemma vote_resp_wire:
  assumes wf: "raft_wf m" and "vp_voteFlag m < 2 ^ 8" "vp_lastLeaderTerm m < 2 ^ 32"
  shows "\<exists>out p. transDataToMessage (vote_resp_fields m) RaftVoteRespPacket = Inr out \<and> out \<noteq> [] \<and> raft_packet_decode out RaftMsgPacket = Inr p
    \<and> rp_packetType p = RaftVoteRespPacket \<and> raft_open vote_resp_populate (p\<lparr>rp_nodeIdx := i, rp_nodeId := n\<rparr>) = Inr m"
proof -
  let ?es = "raft_items m @ [enc_int (vp_voteFlag m), enc_int (vp_lastLeaderTerm m)]"
  have n: "vp_voteFlag m < 2 ^ 32"
    using assms(2) by simp
  have len: "length (raft_items m) = 4"
    by (simp add: raft_items_def)
  have em: "list_all2 emits (vote_resp_fields m) ?es"
    unfolding vote_resp_fields_def
    using raft_items_emitted(1) [OF wf] emits_append_small [of "int (vp_voteFlag m)"] emits_append_small [of "int (vp_lastLeaderTerm m)"] n assms(3)
    by (intro list_all2_appendI) simp_all
  have it: "list_all rlp_item ?es"
    using raft_items_emitted(2) [OF wf] assms(3) n u256_32 by simp
  have lb: "length (concat ?es) < 2 ^ 59"
    using raft_items_emitted(3) [OF wf] length_enc_int_32 [OF assms(3)] length_enc_int_32 [OF n] by simp
  have "vote_resp_populate r = Inr m" if r: "\<And>i. i < length ?es \<Longrightarrow> rlp_at r i = Inr (?es ! i)" for r
  proof -
    have f: "rlp_at r 4 = Inr (enc_int (vp_voteFlag m))" "rlp_at r 5 = Inr (enc_int (vp_lastLeaderTerm m))"
      using r [of 4] r [of 5] len by (simp_all add: nth_append)
    have "raft_msg_populate r = Inr (rm_idx m, rm_term m, rm_height m, rm_blockHash m)"
      using r len by (intro raft_populate_items [OF wf]) (simp add: nth_append)
    moreover have "toInt 8 Strict (enc_int (vp_voteFlag m)) = Inr (vp_voteFlag m)"
      using assms(2) by (intro toInt_enc_int) simp_all
    ultimately show ?thesis
      using f toInt_64_32 [OF assms(3)] by (simp add: vote_resp_populate_def del: Strict_def)
  qed
  then show ?thesis
    by (intro raft_wire [OF em it lb]) simp_all
qed

lemma heartbeat_resp_wire:
  assumes wf: "raft_wf m" and "length (hr_uncommitedBlockHash m) = 32"
  shows "\<exists>out p. transDataToMessage (heartbeat_resp_fields m) RaftHeartBeatRespPacket = Inr out \<and> out \<noteq> [] \<and> raft_packet_decode out RaftMsgPacket = Inr p
    \<and> rp_packetType p = RaftHeartBeatRespPacket \<and> raft_open heartbeat_resp_populate (p\<lparr>rp_nodeIdx := i, rp_nodeId := n\<rparr>) = Inr m"
proof -
  let ?es = "raft_items m @ [enc_data (hr_uncommitedBlockHash m)]"
  have s: "rlp_size_ok 32"
    by (simp add: rlp_size_ok_def)
  have len: "length (raft_items m) = 4"
    by (simp add: raft_items_def)
  have em: "list_all2 emits (heartbeat_resp_fields m) ?es"
    unfolding heartbeat_resp_fields_def
    using raft_items_emitted(1) [OF wf] s assms(2) by (intro list_all2_appendI) (simp_all add: emits_append_hash)
  have it: "list_all rlp_item ?es"
    using raft_items_emitted(2) [OF wf] s assms(2) by simp
  have lb: "length (concat ?es) < 2 ^ 59"
    using raft_items_emitted(3) [OF wf] length_enc_data_le [of "hr_uncommitedBlockHash m"] s assms(2) by simp
  have "heartbeat_resp_populate r = Inr m" if r: "\<And>i. i < length ?es \<Longrightarrow> rlp_at r i = Inr (?es ! i)" for r
  proof -
    have f: "rlp_at r 4 = Inr (enc_data (hr_uncommitedBlockHash m))"
      using r [of 4] len by (simp add: nth_append)
    have "raft_msg_populate r = Inr (rm_idx m, rm_term m, rm_height m, rm_blockHash m)"
      using r len by (intro raft_populate_items [OF wf]) (simp add: nth_append)
    then show ?thesis
      using f s assms(2) by (simp add: heartbeat_resp_populate_def toHash_enc_data del: Strict_def)
  qed
  then show ?thesis
    by (intro raft_wire [OF em it lb]) simp_all
qed

section \<open>Runs of one node\<close>

text \<open>What happens to an engine: a pass of its thread, a message, a new block, and the three parts of the sealer's \<open>commit\<close>. An exception
  keeps the changes made before it.\<close>

datatype raft_op = RStep int | RRecv bytes bytes | RReport int block | RStore block | RWait | RWake int block

fun raft_apply :: "'w raft_env \<Rightarrow> raft_op \<Rightarrow> 'w raft \<Rightarrow> 'w raft" where
  "raft_apply E (RStep now) s = snd (engine_step E now s)"
| "raft_apply E (RRecv buf from) s = snd (onRecvRaftMessage buf from s)"
| "raft_apply E (RReport now b) s = snd (reportBlock E now b s)"
| "raft_apply E (RStore b) s = snd (commit_store b s)"
| "raft_apply E RWait s = snd (commit_wait s)"
| "raft_apply E (RWake now b) s = snd (commit_wake E now b s)"

definition raft_run :: "'w raft_env \<Rightarrow> raft_op list \<Rightarrow> 'w raft \<Rightarrow> 'w raft" where
  "raft_run E ops s = fold (raft_apply E) ops s"

lemma raft_run_inv: "(\<And>op s. I s \<Longrightarrow> I (raft_apply E op s)) \<Longrightarrow> I s \<Longrightarrow> I (raft_run E ops s)"
  unfolding raft_run_def by (induction ops arbitrary: s) simp_all

section \<open>The election timeout\<close>

text \<open>The timers, which few methods change.\<close>

definition timers :: "'w raft \<Rightarrow> nat list" where
  "timers s = [m_electTimeout s, m_minElectTimeout s, m_maxElectTimeout s, m_minElectTimeoutInit s, m_maxElectTimeoutInit s,
     m_maxElectTimeoutBoundary s, m_increaseTime s]"

definition elect_ok :: "nat \<Rightarrow> nat \<Rightarrow> 'w raft \<Rightarrow> bool" where
  "elect_ok mn mx s \<longleftrightarrow>
     m_minElectTimeoutInit s = mn \<and> m_maxElectTimeoutInit s = mx \<and> m_maxElectTimeoutBoundary s = mx + (mx - mn) div 2 \<and> m_increaseTime s = (mx - mn) div 4
     \<and> mn \<le> m_minElectTimeout s \<and> m_minElectTimeout s \<le> m_maxElectTimeout s \<and> m_maxElectTimeout s \<le> mx + (mx - mn) div 2
     \<and> mn \<le> m_electTimeout s \<and> m_electTimeout s \<le> mx + (mx - mn) div 2"

definition elect_cfg :: "nat \<Rightarrow> nat \<Rightarrow> bool" where
  "elect_cfg mn mx \<longleftrightarrow> mn \<le> mx \<and> 100 * (mx + (mx - mn) div 2) < 2 ^ 32"

lemma elect_frame: "timers s' = timers s \<Longrightarrow> elect_ok mn mx s \<Longrightarrow> elect_ok mn mx s'"
  by (simp add: timers_def elect_ok_def)

lemma elect_modify: "(\<And>s. timers (f s) = timers s) \<Longrightarrow> keeps (elect_ok mn mx) (modifyM f)"
  by (rule keeps_modify) (rule elect_frame)

lemma elect_update: "(\<And>s. timers (snd (f s)) = timers s) \<Longrightarrow> keeps (elect_ok mn mx) (updateM f)"
  by (rule keeps_update) (rule elect_frame)

lemma timers_upd [simp]:
  "timers (s\<lparr>m_leader := x0\<rparr>) = timers s" "timers (s\<lparr>m_state := x1\<rparr>) = timers s"
  "timers (s\<lparr>m_heartbeatCount := x2\<rparr>) = timers s" "timers (s\<lparr>m_uncommittedBlock := x3\<rparr>) = timers s"
  "timers (s\<lparr>m_uncommittedBlockNumber := x4\<rparr>) = timers s" "timers (s\<lparr>m_commitReady := x5\<rparr>) = timers s"
  "timers (s\<lparr>m_waitingForCommitting := x6\<rparr>) = timers s" "timers (s\<lparr>m_term := x7\<rparr>) = timers s"
  "timers (s\<lparr>m_vote := x8\<rparr>) = timers s" "timers (s\<lparr>m_firstVote := x9\<rparr>) = timers s"
  "timers (s\<lparr>m_lastLeaderTerm := x10\<rparr>) = timers s" "timers (s\<lparr>m_lastHeartbeatTime := x11\<rparr>) = timers s"
  "timers (s\<lparr>m_lastHeartbeatReset := x12\<rparr>) = timers s" "timers (s\<lparr>m_msgQueue := x13\<rparr>) = timers s"
  "timers (s\<lparr>m_memberBlock := x14\<rparr>) = timers s" "timers (s\<lparr>m_commitFingerPrint := x15\<rparr>) = timers s"
  "timers (s\<lparr>r_commitLocked := x16\<rparr>) = timers s" "timers (s\<lparr>r_loop := x17\<rparr>) = timers s"
  "timers (s\<lparr>m_cfgErr := x18\<rparr>) = timers s" "timers (s\<lparr>m_accountType := x19\<rparr>) = timers s"
  "timers (s\<lparr>m_nodeNum := x20\<rparr>) = timers s" "timers (s\<lparr>m_idx := x21\<rparr>) = timers s"
  "timers (s\<lparr>m_f := x22\<rparr>) = timers s" "timers (s\<lparr>m_lastBlockTime := x23\<rparr>) = timers s"
  "timers (s\<lparr>m_highestBlock := x24\<rparr>) = timers s" "timers (s\<lparr>m_consensusBlockNumber := x25\<rparr>) = timers s"
  "timers (s\<lparr>world := x26\<rparr>) = timers s"
  by (simp_all add: timers_def)

lemma elect_emit [simp]: "timers (emit e s) = timers s"
  by (simp add: timers_def emit_def)

lemma sub32_le: "a \<le> b \<Longrightarrow> b < 2 ^ 32 \<Longrightarrow> sub32 b a = b - a"
  unfolding sub32_def of_nat_diff [symmetric] by (subst mod_pos_pos_trivial) auto

lemma drawn_timeout:
  assumes "a \<le> b" "100 * b < 2 ^ 32"
  shows "a \<le> (a + (r mod 100 * sub32 b a) mod 2 ^ 32 div 100) mod 2 ^ 32" and "(a + (r mod 100 * sub32 b a) mod 2 ^ 32 div 100) mod 2 ^ 32 \<le> b"
proof -
  have "sub32 b a = b - a"
    using assms by (intro sub32_le) simp_all
  moreover have le: "r mod 100 * (b - a) \<le> 100 * (b - a)"
    by (rule mult_right_mono) (simp_all add: less_imp_le)
  have d: "(r mod 100 * (b - a)) div 100 \<le> b - a"
    using div_le_mono [OF le, of 100] by simp
  moreover have "(a + (r mod 100 * (b - a)) div 100) mod 2 ^ 32 = a + (r mod 100 * (b - a)) div 100"
    using d assms by (intro mod_less) linarith
  moreover have "r mod 100 * (b - a) < 2 ^ 32"
    using assms(2) le by (simp add: diff_mult_distrib2)
  ultimately show "a \<le> (a + (r mod 100 * sub32 b a) mod 2 ^ 32 div 100) mod 2 ^ 32" "(a + (r mod 100 * sub32 b a) mod 2 ^ 32 div 100) mod 2 ^ 32 \<le> b"
    using assms by (simp_all add: le_diff_conv2 add.commute)
qed

lemma elect_reset: "elect_cfg mn mx \<Longrightarrow> elect_ok mn mx s \<Longrightarrow> elect_ok mn mx (resetElectTimeout E now s)"
  using drawn_timeout [of "m_minElectTimeout s" "m_maxElectTimeout s" "fst (std_rand E (world s))"]
  by (auto simp: resetElectTimeout_def elect_ok_def elect_cfg_def case_prod_beta)

lemma elect_increase:
  assumes "elect_cfg mn mx" "elect_ok mn mx s"
  shows "elect_ok mn mx (increaseElectTime s)"
proof -
  define B where "B = mx + (mx - mn) div 2"
  have i: "m_increaseTime s \<le> B" "100 * B < 2 ^ 32" "m_minElectTimeout s \<le> m_maxElectTimeout s" "m_maxElectTimeout s \<le> B"
    using assms by (auto simp: elect_ok_def elect_cfg_def B_def)
  then have "m_maxElectTimeout s + m_increaseTime s < 2 ^ 32"
    by linarith
  with i(3) have "(m_maxElectTimeout s + m_increaseTime s) mod 2 ^ 32 = m_maxElectTimeout s + m_increaseTime s"
    "(m_minElectTimeout s + m_increaseTime s) mod 2 ^ 32 = m_minElectTimeout s + m_increaseTime s"
    by simp_all
  then show ?thesis
    using assms by (simp add: increaseElectTime_def elect_ok_def elect_cfg_def)
qed

lemma elect_recover: "elect_cfg mn mx \<Longrightarrow> elect_ok mn mx s \<Longrightarrow> elect_ok mn mx (recoverElectTime s)"
  by (auto simp: recoverElectTime_def elect_ok_def elect_cfg_def)

text \<open>The methods that do not touch the timers, and those that draw a new timeout.\<close>

lemma elect_first_vote [simp]: "timers (clearFirstVoteCache s) = timers s"
  by (simp add: clearFirstVoteCache_def timers_def Let_def)

lemma elect_members [simp]: "timers (updateMinerList E s) = timers s"
  by (auto simp: updateMinerList_def timers_def Let_def split: sum.splits option.splits)

lemma elect_leader: "elect_cfg mn mx \<Longrightarrow> elect_ok mn mx s \<Longrightarrow> elect_ok mn mx (switchToLeader s)"
  unfolding switchToLeader_def by (intro elect_recover) (auto elim: elect_frame [rotated] simp: timers_def)

lemma elect_candidate: "elect_cfg mn mx \<Longrightarrow> elect_ok mn mx s \<Longrightarrow> elect_ok mn mx (switchToCandidate E now s)"
  unfolding switchToCandidate_def by (intro elect_reset) (auto elim: elect_frame [rotated] simp: timers_def)

lemmas elect_rules = keeps_rules keeps_modify [of "elect_ok _ _", OF elect_reset] keeps_modify [of "elect_ok _ _", OF elect_increase]
  keeps_modify [of "elect_ok _ _", OF elect_leader] keeps_modify [of "elect_ok _ _", OF elect_candidate] elect_modify elect_update

lemma elect_follower: "elect_cfg mn mx \<Longrightarrow> keeps (elect_ok mn mx) (switchToFollower E now l)"
  unfolding switchToFollower_def by (intro elect_rules) simp_all

lemma elect_resetConfig: "elect_cfg mn mx \<Longrightarrow> keeps (elect_ok mn mx) (resetConfig E now)"
  unfolding resetConfig_def Let_def by (intro elect_rules elect_follower) simp_all

lemma elect_report: "elect_cfg mn mx \<Longrightarrow> keeps (elect_ok mn mx) (reportBlock E now b)"
  unfolding reportBlock_def by (intro elect_rules elect_resetConfig) simp_all

lemma elect_broadcast: "keeps (elect_ok mn mx) (broadcastMsg E m)"
  unfolding broadcastMsg_def by (intro elect_rules) simp_all

lemma elect_sendResponse: "keeps (elect_ok mn mx) (sendResponse E n ty fs)"
  unfolding sendResponse_def by (intro elect_rules) simp_all

lemma elect_voteReq: "keeps (elect_ok mn mx) (broadcastVoteReq E)"
  unfolding broadcastVoteReq_def by (intro elect_rules elect_broadcast)

lemma elect_heartbeat: "keeps (elect_ok mn mx) (broadcastHeartbeat E now)"
  unfolding broadcastHeartbeat_def by (intro elect_rules elect_broadcast) simp_all

lemma elect_handleVoteRequest: "elect_cfg mn mx \<Longrightarrow> keeps (elect_ok mn mx) (handleVoteRequest E now n r)"
  unfolding handleVoteRequest_def send_vote_def by (intro elect_rules elect_sendResponse) simp_all

lemma elect_handleVoteResponse: "elect_cfg mn mx \<Longrightarrow> keeps (elect_ok mn mx) (handleVoteResponse r v)"
  unfolding handleVoteResponse_def Let_def
  by (intro elect_rules) (auto intro!: keeps_modify elect_increase elim: elect_frame [rotated])

lemma elect_handleHeartbeat: "elect_cfg mn mx \<Longrightarrow> keeps (elect_ok mn mx) (handleHeartbeat E now n hb)"
  unfolding handleHeartbeat_def by (intro elect_rules elect_sendResponse) (simp_all add: step_down_def Let_def)

lemma elect_execBlock: "keeps (elect_ok mn mx) (execBlock E now b)"
proof -
  have "keeps (elect_ok mn mx) (base_executeBlock (env.truncate E) b)"
    unfolding base_executeBlock_def
    by (intro elect_rules) (auto simp: keeps_def Let_def elim: elect_frame [rotated] split: prod.splits)
  then show ?thesis
    unfolding execBlock_def by (intro elect_rules) simp_all
qed

lemma elect_checkAndSave: "elect_cfg mn mx \<Longrightarrow> keeps (elect_ok mn mx) (checkAndSave E now b ctx)"
  unfolding checkAndSave_def
  by (intro keeps_seq keeps_bind elect_modify elect_resetConfig)
    (auto simp: keeps_def dropHandledTransactions_def elim: elect_frame [rotated] split: prod.splits)

lemma elect_checkAndExecute: "elect_cfg mn mx \<Longrightarrow> keeps (elect_ok mn mx) (checkAndExecute E now b)"
  using elect_execBlock [of mn mx E now b] elect_checkAndSave [of mn mx E now]
  by (auto simp: keeps_def checkAndExecute_def seqM_def bindM_def returnM_def split: prod.splits sum.splits) (metis snd_conv)+

lemma elect_commit_locked: "keeps (elect_ok mn mx) m \<Longrightarrow> keeps (elect_ok mn mx) (commit_locked m)"
proof (rule keepsI)
  fix s :: "'a raft" assume k: "keeps (elect_ok mn mx) m" and "elect_ok mn mx s"
  then have i: "elect_ok mn mx (s\<lparr>r_commitLocked := True\<rparr>)"
    by (auto elim: elect_frame [rotated])
  obtain r s' where m: "m (s\<lparr>r_commitLocked := True\<rparr>) = (r, s')"
    by (cases "m (s\<lparr>r_commitLocked := True\<rparr>)") simp
  have "elect_ok mn mx s'"
    by (rule keepsD [OF k i m])
  then show "elect_ok mn mx (snd (commit_locked m s))"
    by (auto simp: commit_locked_def m elim: elect_frame [rotated] split: sum.splits raft_error.splits)
qed

lemma elect_tryPop: "keeps (elect_ok mn mx) tryPop"
  unfolding tryPop_def by (intro elect_update) (auto split: list.splits)

lemma elect_leader_pass: "elect_cfg mn mx \<Longrightarrow> keeps (elect_ok mn mx) (runAsLeaderImp E now log)"
  unfolding runAsLeaderImp_def leader_packet_def liftPacket_def note_ack_def note_fingerprint_def Let_def
  by (intro elect_rules elect_heartbeat elect_tryPop elect_handleVoteRequest elect_handleHeartbeat elect_follower elect_report
      elect_commit_locked elect_checkAndExecute) simp_all

lemma elect_candidate_pass: "elect_cfg mn mx \<Longrightarrow> keeps (elect_ok mn mx) (runAsCandidateImp E now v)"
  unfolding runAsCandidateImp_def liftPacket_def
  by (intro elect_rules elect_tryPop elect_handleVoteRequest elect_handleVoteResponse elect_handleHeartbeat elect_follower) simp_all

lemma elect_follower_pass: "elect_cfg mn mx \<Longrightarrow> keeps (elect_ok mn mx) (runAsFollowerImp E now)"
  unfolding runAsFollowerImp_def liftPacket_def
  by (intro elect_rules elect_tryPop elect_handleVoteRequest elect_handleHeartbeat) simp_all

lemma elect_step: "elect_cfg mn mx \<Longrightarrow> keeps (elect_ok mn mx) (engine_step E now)"
proof -
  assume c: "elect_cfg mn mx"
  have "keeps (elect_ok mn mx) (enterLeader now)" "keeps (elect_ok mn mx) (enterCandidate E)"
    unfolding enterLeader_def enterCandidate_def using c by (intro elect_rules elect_voteReq; simp)+
  with c show ?thesis
    unfolding engine_step_def
    by (intro keeps_bind_get keeps_bind elect_modify)
      (auto split: raft_loop.splits raft_role.splits intro!: elect_rules elect_leader_pass elect_candidate_pass elect_follower_pass)
qed

lemma elect_wake: "elect_cfg mn mx \<Longrightarrow> keeps (elect_ok mn mx) (commit_wake E now b)"
  unfolding commit_wake_def by (intro elect_rules elect_checkAndExecute) simp_all

lemma keeps_snd: "keeps I m \<Longrightarrow> I s \<Longrightarrow> I (snd (m s))"
  by (simp add: keeps_def)

lemma elect_apply: "elect_cfg mn mx \<Longrightarrow> elect_ok mn mx s \<Longrightarrow> elect_ok mn mx (raft_apply E op s)"
proof (cases op)
  case (RRecv buf sender)
  assume "elect_ok mn mx s"
  then show ?thesis
    by (auto simp: RRecv onRecvRaftMessage_def modifyM_def elim: elect_frame [rotated] split: option.splits sum.splits)
qed (auto simp: commit_store_def commit_wait_def modifyM_def elim: elect_frame [rotated]
    intro: keeps_snd [OF elect_step] keeps_snd [OF elect_report] keeps_snd [OF elect_wake])

lemma elect_start:
  assumes "elect_cfg (m_minElectTimeout s) (m_maxElectTimeout s)" "raft_start E now s = (Inr (), s')"
  shows "elect_ok (m_minElectTimeout s) (m_maxElectTimeout s) s'"
proof -
  let ?I = "\<lambda>t. m_minElectTimeout t = m_minElectTimeout s \<and> m_maxElectTimeout t = m_maxElectTimeout s"
  have "keeps ?I (switchToFollower E now l)" for l
    unfolding switchToFollower_def by (intro keeps_rules keeps_modify) (auto simp: resetElectTimeout_def split: prod.splits)
  moreover have "?I (updateMinerList E t)" if "?I t" for t
    using that elect_members [of E t] by (simp add: timers_def)
  ultimately have "keeps ?I (resetConfig E now)"
    unfolding resetConfig_def Let_def by (intro keeps_rules keeps_modify) (auto simp: resetElectTimeout_def split: prod.splits)
  then obtain r t where t: "resetConfig E now s = (r, t)" "?I t"
    by (cases "resetConfig E now s") (auto simp: keeps_def dest!: spec [of _ s])
  let ?mn = "m_minElectTimeout s" and ?mx = "m_maxElectTimeout s"
  have "?mn \<le> ?mx" "100 * (?mx + (?mx - ?mn) div 2) < 2 ^ 32"
    using assms(1) by (simp_all add: elect_cfg_def)
  then have le: "100 * ?mx < 2 ^ 32" and m: "(?mx + (?mx - ?mn) div 2) mod 2 ^ 32 = ?mx + (?mx - ?mn) div 2" "sub32 ?mx ?mn = ?mx - ?mn"
    by (simp, simp, simp add: sub32_le)
  obtain x w where x: "std_rand E (world t) = (x, w)"
    by (cases "std_rand E (world t)")
  have s': "timers s' = [(?mn + (x mod 100 * sub32 ?mx ?mn) mod 2 ^ 32 div 100) mod 2 ^ 32, ?mn, ?mx, ?mn, ?mx, ?mx + (?mx - ?mn) div 2, (?mx - ?mn) div 4]"
    using assms(2) t x m
    by (cases r) (auto simp: raft_start_def initRaftEnv_def seqM_def bindM_def modifyM_def Let_def base_start_def emit_def resetElectTimeout_def timers_def)
  show ?thesis
    using s' drawn_timeout [OF \<open>?mn \<le> ?mx\<close> le, of x] \<open>?mn \<le> ?mx\<close> by (auto simp: timers_def elect_ok_def)
qed

text \<open>C14. The election timeout of a started engine is never below the configured minimum and never above the configured maximum by more than half the
  difference of the two, whatever happens to the engine, if a hundred times that upper bound fits into 32 bits.\<close>

theorem election_timeout_bounds:
  assumes "m_minElectTimeout s \<le> m_maxElectTimeout s"
    and "100 * (m_maxElectTimeout s + (m_maxElectTimeout s - m_minElectTimeout s) div 2) < 2 ^ 32"
    and "raft_start E now s = (Inr (), s')"
  shows "m_minElectTimeout s \<le> m_electTimeout (raft_run E ops s')
    \<and> m_electTimeout (raft_run E ops s') \<le> m_maxElectTimeout s + (m_maxElectTimeout s - m_minElectTimeout s) div 2"
proof -
  have c: "elect_cfg (m_minElectTimeout s) (m_maxElectTimeout s)"
    using assms(1,2) by (simp add: elect_cfg_def)
  have "elect_ok (m_minElectTimeout s) (m_maxElectTimeout s) (raft_run E ops s')"
    using elect_apply [OF c] elect_start [OF c assms(3)] by (rule raft_run_inv)
  then show ?thesis
    by (simp add: elect_ok_def)
qed

section \<open>Commit needs a majority\<close>

text \<open>Since the effects had length \<open>n\<close> no block was committed, and unless \<open>c\<close> the waiting sealer of a leader was not told to commit.\<close>

definition quiet :: "nat \<Rightarrow> bool \<Rightarrow> 'w raft \<Rightarrow> bool" where
  "quiet n c s \<longleftrightarrow> n \<le> length (effects s) \<and> (\<forall>b. CommitBlock b \<notin> set (drop n (effects s)))
     \<and> (m_commitReady s \<longrightarrow> c \<or> m_state s \<noteq> EN_STATE_LEADER)"

definition hush :: "'w raft \<Rightarrow> effect list \<times> bool \<times> raft_role" where
  "hush s = (effects s, m_commitReady s, m_state s)"

lemma quiet_frame: "hush s' = hush s \<Longrightarrow> quiet n c s \<Longrightarrow> quiet n c s'"
  by (simp add: hush_def quiet_def)

lemma quiet_modify: "(\<And>s. hush (f s) = hush s) \<Longrightarrow> keeps (quiet n c) (modifyM f)"
  by (rule keeps_modify) (rule quiet_frame)

lemma quiet_update: "(\<And>s. hush (snd (f s)) = hush s) \<Longrightarrow> keeps (quiet n c) (updateM f)"
  by (rule keeps_update) (rule quiet_frame)

lemma quiet_send: "quiet n c s \<Longrightarrow> quiet n c (emit (Send x b) s)"
  by (auto simp: quiet_def emit_def)

lemma hush_simps [simp]: "hush (resetElectTimeout E now s) = hush s" "hush (increaseElectTime s) = hush s" "hush (clearFirstVoteCache s) = hush s"
  "hush (updateMinerList E s) = hush s"
  by (auto simp: hush_def resetElectTimeout_def increaseElectTime_def clearFirstVoteCache_def updateMinerList_def Let_def
      split: prod.splits sum.splits option.splits)

lemma hush_upd [simp]: "hush (s\<lparr>m_leader := a\<rparr>) = hush s" "hush (s\<lparr>m_heartbeatCount := b\<rparr>) = hush s" "hush (s\<lparr>m_uncommittedBlock := d\<rparr>) = hush s"
  "hush (s\<lparr>m_uncommittedBlockNumber := e\<rparr>) = hush s" "hush (s\<lparr>m_term := f\<rparr>) = hush s" "hush (s\<lparr>m_vote := g\<rparr>) = hush s"
  "hush (s\<lparr>m_firstVote := h\<rparr>) = hush s" "hush (s\<lparr>m_lastLeaderTerm := f\<rparr>) = hush s" "hush (s\<lparr>m_lastHeartbeatTime := i\<rparr>) = hush s"
  "hush (s\<lparr>m_lastHeartbeatReset := i\<rparr>) = hush s" "hush (s\<lparr>m_msgQueue := j\<rparr>) = hush s" "hush (s\<lparr>m_memberBlock := k\<rparr>) = hush s"
  "hush (s\<lparr>m_commitFingerPrint := l\<rparr>) = hush s" "hush (s\<lparr>m_nodeNum := f\<rparr>) = hush s" "hush (s\<lparr>m_idx := f\<rparr>) = hush s" "hush (s\<lparr>m_f := f\<rparr>) = hush s"
  "hush (s\<lparr>m_cfgErr := m\<rparr>) = hush s" "hush (s\<lparr>m_accountType := o'\<rparr>) = hush s" "hush (s\<lparr>r_loop := p\<rparr>) = hush s"
  by (simp_all add: hush_def)

lemmas quiet_rules = keeps_rules quiet_modify quiet_update

lemma quiet_follower: "keeps (quiet n c) (switchToFollower E now l)"
  by (rule keepsI)
    (auto simp: switchToFollower_def seqM_def bindM_def modifyM_def getM_def throwM_def quiet_def resetElectTimeout_def split: prod.splits if_splits)

lemma quiet_candidate: "quiet n c s \<Longrightarrow> quiet n c (switchToCandidate E now s)"
  by (auto simp: switchToCandidate_def quiet_def resetElectTimeout_def split: prod.splits)

lemma quiet_sendResponse: "keeps (quiet n c) (sendResponse E x ty fs)"
  unfolding sendResponse_def by (intro keeps_rules keeps_modify quiet_send)

lemma quiet_broadcast: "keeps (quiet n c) (broadcastMsg E m)"
  unfolding broadcastMsg_def by (intro keeps_rules keeps_modify) (simp add: quiet_send)

lemma quiet_heartbeat: "keeps (quiet n c) (broadcastHeartbeat E now)"
  unfolding broadcastHeartbeat_def by (intro quiet_rules quiet_broadcast) simp_all

lemma quiet_handleVoteRequest: "keeps (quiet n c) (handleVoteRequest E now x r)"
  unfolding handleVoteRequest_def send_vote_def by (intro quiet_rules quiet_sendResponse) simp_all

lemma quiet_handleHeartbeat: "keeps (quiet n c) (handleHeartbeat E now x hb)"
  unfolding handleHeartbeat_def by (intro quiet_rules quiet_sendResponse) (simp_all add: step_down_def Let_def)

text \<open>The nodes recorded for a block, and the test in the handler of an acknowledgement.\<close>

definition acks :: "bytes \<Rightarrow> 'w raft \<Rightarrow> bytes set" where
  "acks h s = (case map_of (m_commitFingerPrint s) h of None \<Rightarrow> {} | Some v \<Rightarrow> v)"

definition majority_acked :: "'w raft_env \<Rightarrow> bytes \<Rightarrow> raft_heartbeat_resp \<Rightarrow> 'w raft \<Rightarrow> bool" where
  "majority_acked E node resp s \<longleftrightarrow>
     (let h = hashOf (crypt E) (m_blockHeader (m_uncommittedBlock s)) in
      block_bool (m_uncommittedBlock s) \<and> m_uncommittedBlockNumber s = m_consensusBlockNumber s \<and> hr_uncommitedBlockHash resp = h
      \<and> card (insert node (acks h s)) + 1 \<ge> m_nodeNum s - m_f s)"

lemma fingerprint_quiet: "quiet n c s \<Longrightarrow> \<not> majority_acked E node resp s \<Longrightarrow> quiet n c (snd (note_fingerprint E now node resp s))"
  by (auto simp: note_fingerprint_def majority_acked_def acks_def Let_def bindM_def getM_def returnM_def seqM_def modifyM_def
      elim: quiet_frame [rotated])

definition ballot_box :: "'w raft \<Rightarrow> block \<times> int \<times> int \<times> (bytes, bytes set) amap \<times> nat \<times> nat \<times> nat" where
  "ballot_box s = (m_uncommittedBlock s, m_uncommittedBlockNumber s, m_consensusBlockNumber s, m_commitFingerPrint s, m_nodeNum s, m_f s, m_term s)"

lemma majority_acked_frame: "ballot_box s' = ballot_box s \<Longrightarrow> majority_acked E node resp s' = majority_acked E node resp s"
  by (simp add: ballot_box_def majority_acked_def acks_def)

lemma box_heartbeat: "keeps (\<lambda>t. quiet n c t \<and> ballot_box t = b \<and> m_msgQueue t = q) (broadcastHeartbeat E now)"
  unfolding broadcastHeartbeat_def broadcastMsg_def
  by (intro keeps_rules keeps_modify)
    (auto simp: quiet_send [unfolded emit_def] ballot_box_def clearFirstVoteCache_def Let_def emit_def elim: quiet_frame [rotated])

lemma box_ack: "keeps (\<lambda>t. quiet n c t \<and> ballot_box t = b) (note_ack now node resp log)"
  unfolding note_ack_def Let_def by (intro keeps_rules keeps_modify) (auto simp: ballot_box_def elim: quiet_frame [rotated])

text \<open>The handling of a packet by a leader.\<close>

lemma leader_packet_quiet: "rp_packetType p \<noteq> RaftHeartBeatRespPacket \<Longrightarrow> keeps (quiet n c) (leader_packet E now log p)"
  unfolding leader_packet_def liftPacket_def by (intro keeps_rules quiet_handleVoteRequest quiet_handleHeartbeat quiet_follower) simp_all

lemma leader_resp_quiet:
  assumes "quiet n c s" "ballot_box s = b" "\<not> majority_acked E (rp_nodeId p) resp s"
  shows "quiet n c (snd (bindM (note_ack now (rp_nodeId p) resp log) (\<lambda>log. seqM (note_fingerprint E now (rp_nodeId p) resp) (returnM (True, log))) s))"
proof -
  obtain r t where a: "note_ack now (rp_nodeId p) resp log s = (r, t)"
    by (cases "note_ack now (rp_nodeId p) resp log s")
  have t: "quiet n c t \<and> ballot_box t = b"
    using assms(1,2) by (intro keepsD [OF box_ack _ a]) simp
  with assms(2,3) have "quiet n c (snd (note_fingerprint E now (rp_nodeId p) resp t))"
    using majority_acked_frame [of t s] by (intro fingerprint_quiet) simp_all
  with a t show ?thesis
    by (auto simp: bindM_def seqM_def returnM_def split: sum.splits prod.splits)
qed

lemma bind_lift_ok: "bindM (liftM (Inr x)) f s = f x s"
  and bind_get_at: "bindM (getM g) h s = h (g s) s"
  by (simp_all add: bindM_def liftM_def getM_def)

lemma leader_packet_commits:
  assumes run: "leader_packet E now log p s = (r, s')" and q: "quiet n c s" and loud: "\<not> quiet n c s'"
  shows "rp_packetType p = RaftHeartBeatRespPacket" "\<exists>resp. raft_open heartbeat_resp_populate p = Inr resp \<and> rm_term resp = m_term s \<and> majority_acked E (rp_nodeId p) resp s"
proof -
  show type: "rp_packetType p = RaftHeartBeatRespPacket"
    using keepsD [OF leader_packet_quiet q run] loud by blast
  obtain resp where resp: "raft_open heartbeat_resp_populate p = Inr resp" "rm_term resp = m_term s"
    using run type loud q
    by (cases "raft_open heartbeat_resp_populate p")
      (auto simp: leader_packet_def bindM_def getM_def liftPacket_def liftM_def returnM_def split: if_splits)
  moreover have "leader_packet E now log p s
      = bindM (note_ack now (rp_nodeId p) resp log) (\<lambda>log. seqM (note_fingerprint E now (rp_nodeId p) resp) (returnM (True, log))) s"
    using type resp by (simp add: leader_packet_def liftPacket_def bind_lift_ok bind_get_at)
  then have "majority_acked E (rp_nodeId p) resp s"
    using leader_resp_quiet [OF q refl, of E p resp now log] run loud by (metis snd_conv)
  ultimately show "\<exists>resp. raft_open heartbeat_resp_populate p = Inr resp \<and> rm_term resp = m_term s \<and> majority_acked E (rp_nodeId p) resp s"
    by blast
qed

lemma leader_pass_commits:
  assumes run: "runAsLeaderImp E now log s = (r, s')" and q: "quiet n c s" and loud: "\<not> quiet n c s'"
  shows "\<exists>p q resp. m_msgQueue s = p # q \<and> rp_packetType p = RaftHeartBeatRespPacket \<and> raft_open heartbeat_resp_populate p = Inr resp
    \<and> rm_term resp = m_term s \<and> majority_acked E (rp_nodeId p) resp s"
proof -
  obtain r1 s1 where b: "broadcastHeartbeat E now s = (r1, s1)"
    by (cases "broadcastHeartbeat E now s")
  have s1: "quiet n c s1 \<and> ballot_box s1 = ballot_box s \<and> m_msgQueue s1 = m_msgQueue s"
    using q by (intro keepsD [OF box_heartbeat _ b]) simp
  have run': "seqM (broadcastHeartbeat E now) (bindM tryPop (\<lambda>ret. case ret of None \<Rightarrow> returnM (True, log) | Some p \<Rightarrow> leader_packet E now log p)) s = (r, s')"
    using run loud q quiet_candidate [OF q] unfolding runAsLeaderImp_def
    by (auto simp: bindM_def [of "getM _"] getM_def returnM_def modifyM_def seqM_def bindM_def [of "modifyM _"] split: if_splits)
  obtain p qs where q2: "m_msgQueue s = p # qs" and k: "leader_packet E now log p (s1\<lparr>m_msgQueue := qs\<rparr>) = (r, s')"
    using run' b s1 loud
    by (cases r1; cases "m_msgQueue s") (auto simp: seqM_def bindM_def tryPop_def updateM_def returnM_def)
  have s2: "quiet n c (s1\<lparr>m_msgQueue := qs\<rparr>)" "ballot_box (s1\<lparr>m_msgQueue := qs\<rparr>) = ballot_box s"
    using s1 by (auto simp: ballot_box_def elim: quiet_frame [rotated])
  show ?thesis
    using q2 leader_packet_commits [OF k s2(1) loud] s2(2) majority_acked_frame [OF s2(2)] by (auto simp: ballot_box_def)
qed

lemma follower_pass_quiet: "keeps (quiet n True) (runAsFollowerImp E now)"
  unfolding runAsFollowerImp_def liftPacket_def tryPop_def
  by (intro keeps_rules quiet_handleVoteRequest quiet_handleHeartbeat keeps_modify [of "quiet _ _", OF quiet_candidate] quiet_modify quiet_update)
    (auto split: list.splits)

lemma leader_quiet: "quiet n True s \<Longrightarrow> quiet n True (switchToLeader s)"
  by (simp add: quiet_def switchToLeader_def recoverElectTime_def)

lemma candidate_pass_quiet: "keeps (quiet n True) (runAsCandidateImp E now v)"
  unfolding runAsCandidateImp_def liftPacket_def tryPop_def handleVoteResponse_def Let_def
  by (intro keeps_rules quiet_handleVoteRequest quiet_handleHeartbeat quiet_follower keeps_modify [of "quiet _ _", OF quiet_candidate]
      keeps_modify [of "quiet _ _", OF leader_quiet] quiet_modify quiet_update) (auto split: list.splits)

lemma enter_quiet: "keeps (quiet n True) (enterLeader now)" "keeps (quiet n True) (enterCandidate E)"
  unfolding enterLeader_def enterCandidate_def broadcastVoteReq_def
  by (intro keeps_rules quiet_broadcast keeps_modify [of "quiet _ _", OF leader_quiet] quiet_modify; simp)+

lemma engine_step_loud:
  assumes step: "engine_step E now s = (r, s')" and q: "quiet n c s" and loud: "\<not> quiet n c s'" and c: "c \<or> (\<exists>log. r_loop s = InLeader log)"
  shows "\<exists>log r1 s1. r_loop s = InLeader log \<and> runAsLeaderImp E now log s = (r1, s1) \<and> \<not> quiet n c s1"
proof (cases "r_loop s")
  case (InLeader log)
  obtain r1 s1 where l: "runAsLeaderImp E now log s = (r1, s1)"
    by (cases "runAsLeaderImp E now log s")
  have "hush s' = hush s1"
    using step l InLeader by (auto simp: engine_step_def bindM_def getM_def modifyM_def returnM_def split: sum.splits prod.splits)
  then have "\<not> quiet n c s1"
    using loud quiet_frame by blast
  with l InLeader show ?thesis
    by blast
next
  case AtTop
  have "quiet n True (snd (engine_step E now s))" if "quiet n True s"
    using that AtTop unfolding engine_step_def bind_get_at
    by (intro keeps_snd [of "quiet n True"], intro keeps_bind quiet_modify) (cases "m_state s"; auto intro!: keeps_rules enter_quiet)+
  then show ?thesis
    using step q loud c AtTop by simp
next
  case InFollower
  have "quiet n True (snd (engine_step E now s))" if "quiet n True s"
    using that InFollower unfolding engine_step_def bind_get_at
    by (intro keeps_snd [of "quiet n True"], intro keeps_bind quiet_modify) (auto intro!: keeps_rules follower_pass_quiet)
  then show ?thesis
    using step q loud c InFollower by simp
next
  case (InCandidate v)
  have "quiet n True (snd (engine_step E now s))" if "quiet n True s"
    using that InCandidate unfolding engine_step_def bind_get_at
    by (intro keeps_snd [of "quiet n True"], intro keeps_bind quiet_modify) (auto intro!: keeps_rules candidate_pass_quiet)
  then show ?thesis
    using step q loud c InCandidate by simp
qed


section \<open>A network of nodes\<close>

text \<open>What a step has sent, with sender and receiver. A system has its nodes, the time and the messages on their way; a message
  is delivered at most once, after any delay and in any order. The nodes read one clock, which never goes back.\<close>

definition sent_by :: "'w raft \<Rightarrow> 'w raft \<Rightarrow> (bytes \<times> bytes \<times> bytes) list" where
  "sent_by s s' = concat (map (\<lambda>e. case e of Send n b \<Rightarrow> [(m_pub s, n, b)] | _ \<Rightarrow> []) (drop (length (effects s)) (effects s')))"

type_synonym 'w raft_system = "(nat \<Rightarrow> 'w raft) \<times> int \<times> (bytes \<times> bytes \<times> bytes) list"

inductive raft_net :: "'w raft_env \<Rightarrow> 'w raft_system \<Rightarrow> 'w raft_system \<Rightarrow> bool" for E where
  net_refl: "raft_net E c c"
| net_engine: "raft_net E c (N, T, ms) \<Longrightarrow> T \<le> now \<Longrightarrow> engine_step E now (N i) = (Inr (), s)
    \<Longrightarrow> raft_net E c (N(i := s), now, ms @ sent_by (N i) s)"
| net_deliver: "raft_net E c (N, T, xs @ (from, to, buf) # ys) \<Longrightarrow> m_pub (N i) = to \<Longrightarrow> onRecvRaftMessage buf from (N i) = (Inr (), s)
    \<Longrightarrow> raft_net E c (N(i := s), T, xs @ ys)"

end
