(* ===== verification/RaftElection.thy ===== *)
theory RaftElection
  imports RaftSafety "HOL-Library.Multiset"
begin

text \<open>
  A run of three nodes after which two of them are leaders of the same term. A candidate counts a granted vote of the term before its own, so a
  vote that arrives after the candidate has gone on to the next term is counted there, although the voter may have given its vote
  of that term to another node.
\<close>

section \<open>Three nodes\<close>

definition rpub :: "nat \<Rightarrow> bytes" where
  "rpub i = hash_of_nat 64 (Suc i)"

definition toy_raft_env :: "nat raft_env" where
  "toy_raft_env = \<lparr>crypt = toy_crypto, bc_number = (\<lambda>_. 0), bc_numberHash = (\<lambda>_ _. hash_zero 32), bc_getBlockByHash = (\<lambda>_ _. None),
     bc_getBlockByNumber = (\<lambda>_ _. None), bc_minerList = (\<lambda>_. []), bc_observerList = (\<lambda>_. []), bc_getSystemConfigByKey = (\<lambda>_ _ _. []),
     bc_commitBlock = (\<lambda>_ _ w. (Inr OK, w)), bv_executeBlock = (\<lambda>b _ w. (Inr (b, 0), w)), convert_to_size_t = (\<lambda>n. n mod 2 ^ 64),
     lexical_cast_uint64 = (\<lambda>_. None), db_insert = (\<lambda>_ _ w. (True, w)), db_lookup = (\<lambda>_ _. []), diskSpaceEnough = (\<lambda>_. True),
     sessions = (\<lambda>w. map rpub (filter (\<lambda>j. j \<noteq> w) [0, 1, 2])), isConnected = (\<lambda>_ _. True), std_rand = (\<lambda>w. (if w = 1 then 90 else 0, w)),
     std_srand = (\<lambda>_ w. w), rs_select = (\<lambda>_ _ _ _ _. Inr None), lexical_cast_int = (\<lambda>_. None)\<rparr>"

text \<open>The election timeouts drawn by the nodes, in milliseconds.\<close>

definition rto :: "nat \<Rightarrow> nat" where
  "rto i = (if i = 1 then 1900 else 1000)"

text \<open>When the nodes started, in nanoseconds.\<close>

definition started :: "nat \<Rightarrow> int" where
  "started i = (if i = 1 then 500000000 else 0)"

definition toy_head :: header where
  "toy_head = header_new\<lparr>m_number := 0, m_hash := hash_of_nat 32 1\<rparr>"

text \<open>Node \<open>i\<close>: the time of the last reset of the election timeout, role, term, first vote, vote, leader, queue, effects and loop.\<close>

definition nd :: "nat \<Rightarrow> int \<Rightarrow> raft_role \<Rightarrow> nat \<Rightarrow> nat \<Rightarrow> nat \<Rightarrow> nat \<Rightarrow> raft_packet list \<Rightarrow> raft_loop \<Rightarrow> effect list \<Rightarrow> nat raft" where
  "nd i L r t fv vt ld q lp ef =
     \<lparr>m_consensusBlockNumber = 0, m_highestBlock = toy_head, m_nodeNum = 3, m_f = 1, m_idx = i, m_protocolId = 1,
      m_accountType = MinerAccount, m_minerList = [rpub 0, rpub 1, rpub 2], m_allowFutureBlocks = True, m_startConsensusEngine = True,
      m_lastNodeList = [], m_secret = [], m_pub = rpub i, world = i, effects = ef,
      m_electTimeout = rto i, m_minElectTimeout = 1000, m_maxElectTimeout = 2000, m_minElectTimeoutInit = 1000, m_maxElectTimeoutInit = 2000,
      m_minElectTimeoutBoundary = 1000, m_maxElectTimeoutBoundary = 2500, m_lastElectTime = L, m_heartbeatTimeout = 1000,
      m_heartbeatInterval = 250, m_heartbeatCount = 0, m_lastHeartbeatTime = started i, m_lastHeartbeatReset = 0, m_increaseTime = 250,
      m_msgQueue = q, m_state = r, m_firstVote = fv, m_term = t, m_lastLeaderTerm = 0, m_leader = ld, m_vote = vt, m_memberBlock = [],
      m_cfgErr = False, m_storage = False, m_lastObtainMinerNum = 0, m_lastBlockTime = 0, m_uncommittedBlock = block_new,
      m_uncommittedBlockNumber = 0, m_commitReady = False, m_waitingForCommitting = False, m_commitFingerPrint = [], r_commitLocked = False,
      r_loop = lp\<rparr>"

lemma rpub_length [simp]: "length (rpub i) = 64"
  by (simp add: rpub_def)

lemma rpub_distinct: "rpub 0 \<noteq> rpub 1" "rpub 0 \<noteq> rpub 2" "rpub 1 \<noteq> rpub 2"
  by (simp_all add: rpub_def) code_simp+

lemma rpub_nonzero: "rpub 0 \<noteq> hash_zero 64" "rpub 1 \<noteq> hash_zero 64" "rpub 2 \<noteq> hash_zero 64"
  by code_simp+

lemma toy_env_sel [simp]: "crypt toy_raft_env = toy_crypto" "bc_number toy_raft_env w = 0" "std_rand toy_raft_env w = (if w = 1 then 90 else 0, w)"
  "sessions toy_raft_env w = map rpub (filter (\<lambda>j. j \<noteq> w) [0, 1, 2])"
  by (simp_all add: toy_raft_env_def)

lemma toy_head_hash [simp]: "hashOf C toy_head = hash_of_nat 32 1" "m_number toy_head = 0"
proof -
  have "hash_of_nat 32 1 \<noteq> hash_zero 32"
    by code_simp
  then show "hashOf C toy_head = hash_of_nat 32 1"
    by (simp add: hashOf_def header_hash_def toy_head_def)
qed (simp add: toy_head_def)

lemma block_new_bool [simp]: "\<not> block_bool block_new"
  by (simp add: block_bool_def block_new_def header_new_def)

lemma nd_miner: "i \<in> {0, 1, 2} \<Longrightarrow> getIndexByMiner (rpub i) (nd j L r t fv vt ld q lp ef) = Some i"
  using rpub_distinct by (auto simp: getIndexByMiner_def nd_def upt_rec numeral_2_eq_2 numeral_3_eq_3)

lemma nd_sel [simp]:
  "m_term (nd i L r t fv vt ld q lp ef) = t" "m_state (nd i L r t fv vt ld q lp ef) = r" "m_firstVote (nd i L r t fv vt ld q lp ef) = fv"
  "m_lastLeaderTerm (nd i L r t fv vt ld q lp ef) = 0" "m_uncommittedBlock (nd i L r t fv vt ld q lp ef) = block_new"
  "m_idx (nd i L r t fv vt ld q lp ef) = i" "m_highestBlock (nd i L r t fv vt ld q lp ef) = toy_head" "world (nd i L r t fv vt ld q lp ef) = i"
  "m_msgQueue (nd i L r t fv vt ld q lp ef) = q" "r_loop (nd i L r t fv vt ld q lp ef) = lp" "m_cfgErr (nd i L r t fv vt ld q lp ef) = False"
  "m_accountType (nd i L r t fv vt ld q lp ef) = MinerAccount" "m_nodeNum (nd i L r t fv vt ld q lp ef) = 3" "m_f (nd i L r t fv vt ld q lp ef) = 1"
  by (simp_all add: nd_def)

lemma nd_upd [simp]:
  "(nd i L r t fv vt ld q lp ef)\<lparr>m_term := t'\<rparr> = nd i L r t' fv vt ld q lp ef"
  "(nd i L r t fv vt ld q lp ef)\<lparr>m_state := r'\<rparr> = nd i L r' t fv vt ld q lp ef"
  "(nd i L r t fv vt ld q lp ef)\<lparr>m_firstVote := fv'\<rparr> = nd i L r t fv' vt ld q lp ef"
  "(nd i L r t fv vt ld q lp ef)\<lparr>m_vote := vt'\<rparr> = nd i L r t fv vt' ld q lp ef"
  "(nd i L r t fv vt ld q lp ef)\<lparr>m_leader := ld'\<rparr> = nd i L r t fv vt ld' q lp ef"
  "(nd i L r t fv vt ld q lp ef)\<lparr>m_msgQueue := q'\<rparr> = nd i L r t fv vt ld q' lp ef"
  "(nd i L r t fv vt ld q lp ef)\<lparr>r_loop := lp'\<rparr> = nd i L r t fv vt ld q lp' ef"
  by (simp_all add: nd_def)

lemma nd_emit [simp]: "emit x (nd i L r t fv vt ld q lp ef) = nd i L r t fv vt ld q lp (ef @ [x])"
  by (simp add: emit_def nd_def)

section \<open>Messages\<close>

definition vreq :: "nat \<Rightarrow> nat \<Rightarrow> raft_vote_req" where
  "vreq c t = \<lparr>rm_idx = c, rm_term = t, rm_height = 0, rm_blockHash = hash_of_nat 32 1, vr_candidate = c, vr_lastLeaderTerm = 0, vr_lastBlockNumber = 0\<rparr>"

definition vresp :: "nat \<Rightarrow> nat \<Rightarrow> nat \<Rightarrow> raft_vote_resp" where
  "vresp j t f = \<lparr>rm_idx = j, rm_term = t, rm_height = 0, rm_blockHash = hash_of_nat 32 1, vp_voteFlag = f, vp_lastLeaderTerm = 0\<rparr>"

definition reqmsg :: "nat \<Rightarrow> nat \<Rightarrow> bytes" where
  "reqmsg c t = projr (transDataToMessage (vote_req_fields (vreq c t)) RaftVoteReqPacket)"

definition respmsg :: "nat \<Rightarrow> nat \<Rightarrow> nat \<Rightarrow> bytes" where
  "respmsg j t f = projr (transDataToMessage (vote_resp_fields (vresp j t f)) RaftVoteRespPacket)"

definition received :: "nat \<Rightarrow> bytes \<Rightarrow> raft_packet" where
  "received c b = (projr (raft_packet_decode b RaftMsgPacket))\<lparr>rp_nodeIdx := c, rp_nodeId := rpub c\<rparr>"

lemma received_node [simp]: "rp_nodeId (received c b) = rpub c"
  by (simp add: received_def)

lemma reqmsg_facts:
  assumes "c < 3" "t < 4"
  shows "transDataToMessage (vote_req_fields (vreq c t)) 0 = Inr (reqmsg c t)" and "reqmsg c t \<noteq> []"
    and "\<exists>p. raft_packet_decode (reqmsg c t) RaftMsgPacket = Inr p" and "rp_packetType (received c (reqmsg c t)) = 0"
    and "raft_open vote_req_populate (received c (reqmsg c t)) = Inr (vreq c t)"
proof -
  have "raft_wf (vreq c t)" "u256 (vr_candidate (vreq c t))"
    using assms by (auto simp: raft_wf_def vreq_def intro: u256_32)
  from vote_req_wire [OF this, where i = c and n = "rpub c"] assms obtain out p where
    o: "transDataToMessage (vote_req_fields (vreq c t)) RaftVoteReqPacket = Inr out" "out \<noteq> []" "raft_packet_decode out RaftMsgPacket = Inr p"
      "rp_packetType p = RaftVoteReqPacket" "raft_open vote_req_populate (p\<lparr>rp_nodeIdx := c, rp_nodeId := rpub c\<rparr>) = Inr (vreq c t)"
    by (auto simp: vreq_def)
  have "reqmsg c t = out"
    using o(1) by (simp add: reqmsg_def)
  then show "transDataToMessage (vote_req_fields (vreq c t)) 0 = Inr (reqmsg c t)" "reqmsg c t \<noteq> []"
    "\<exists>p. raft_packet_decode (reqmsg c t) RaftMsgPacket = Inr p" "rp_packetType (received c (reqmsg c t)) = 0"
    "raft_open vote_req_populate (received c (reqmsg c t)) = Inr (vreq c t)"
    using o by (simp_all add: received_def)
qed

lemma respmsg_facts:
  assumes "c < 3" "t < 4" "f < 7"
  shows "transDataToMessage (vote_resp_fields (vresp c t f)) 1 = Inr (respmsg c t f)" and "respmsg c t f \<noteq> []"
    and "\<exists>p. raft_packet_decode (respmsg c t f) RaftMsgPacket = Inr p" and "rp_packetType (received c (respmsg c t f)) = 1"
    and "raft_open vote_resp_populate (received c (respmsg c t f)) = Inr (vresp c t f)"
proof -
  have "raft_wf (vresp c t f)"
    using assms by (auto simp: raft_wf_def vresp_def intro: u256_32)
  from vote_resp_wire [OF this, where i = c and n = "rpub c"] assms obtain out p where
    o: "transDataToMessage (vote_resp_fields (vresp c t f)) RaftVoteRespPacket = Inr out" "out \<noteq> []" "raft_packet_decode out RaftMsgPacket = Inr p"
      "rp_packetType p = RaftVoteRespPacket" "raft_open vote_resp_populate (p\<lparr>rp_nodeIdx := c, rp_nodeId := rpub c\<rparr>) = Inr (vresp c t f)"
    by (auto simp: vresp_def)
  have "respmsg c t f = out"
    using o(1) by (simp add: respmsg_def)
  then show "transDataToMessage (vote_resp_fields (vresp c t f)) 1 = Inr (respmsg c t f)" "respmsg c t f \<noteq> []"
    "\<exists>p. raft_packet_decode (respmsg c t f) RaftMsgPacket = Inr p" "rp_packetType (received c (respmsg c t f)) = 1"
    "raft_open vote_resp_populate (received c (respmsg c t f)) = Inr (vresp c t f)"
    using o by (simp_all add: received_def)
qed

lemma deliver:
  assumes "i \<in> {0, 1, 2}" "c \<in> {0, 1, 2}" "c \<noteq> i" "b \<noteq> []" "\<exists>p. raft_packet_decode b RaftMsgPacket = Inr p" "rp_packetType (received c b) < 4"
  shows "onRecvRaftMessage b (rpub c) (nd i L r t fv vt ld q lp ef) = (Inr (), nd i L r t fv vt ld (q @ [received c b]) lp ef)"
proof -
  have "rpub c \<noteq> rpub i" "rpub i \<noteq> hash_zero 64"
    using assms(1-3) rpub_distinct rpub_nonzero by auto
  moreover have "getNodeIdByIndex (m_idx (nd i L r t fv vt ld q lp ef)) (nd i L r t fv vt ld q lp ef) = Some (rpub i)"
    using assms(1) rpub_nonzero by (auto simp: getNodeIdByIndex_def getMinerByIndex_def nd_def Let_def)
  ultimately have "isValidReq b (rpub c) (nd i L r t fv vt ld q lp ef) = Some c"
    using assms(2,4) by (simp add: isValidReq_def nd_miner)
  then show ?thesis
    using assms(5,6) by (auto simp: onRecvRaftMessage_def modifyM_def received_def)
qed

section \<open>Steps\<close>

lemmas step_simps = bindM_def getM_def returnM_def modifyM_def seqM_def liftM_def whenM_def updateM_def throwM_def

lemma not_timeout: "now < L + int (rto i) * 1000000 \<Longrightarrow> \<not> checkElectTimeout now (nd i L r t fv vt ld q lp ef)"
  by (simp add: checkElectTimeout_def nd_def)

lemma timeout: "now \<ge> L + int (rto i) * 1000000 \<Longrightarrow> checkElectTimeout now (nd i L r t fv vt ld q lp ef)"
  by (simp add: checkElectTimeout_def nd_def)

lemma step_top: "engine_step toy_raft_env now (nd i L EN_STATE_FOLLOWER t fv vt ld q AtTop ef) = (Inr (), nd i L EN_STATE_FOLLOWER t fv vt ld q InFollower ef)"
  by (simp add: engine_step_def step_simps)

lemma reset_timeout: "resetElectTimeout toy_raft_env now (nd i L r t fv vt ld q lp ef) = nd i now r t fv vt ld q lp ef"
  by (simp add: resetElectTimeout_def nd_def rto_def sub32_def)

lemma switch_candidate:
  "t < 4 \<Longrightarrow> switchToCandidate toy_raft_env now (nd i L r t fv vt ld q lp ef) = nd i now EN_STATE_CANDIDATE (Suc t) fv vt Invalid256 q lp ef"
  by (simp add: switchToCandidate_def inc64_def reset_timeout)

lemma step_timeout_follower:
  "t < 4 \<Longrightarrow> now \<ge> L + int (rto i) * 1000000 \<Longrightarrow> engine_step toy_raft_env now (nd i L EN_STATE_FOLLOWER t fv vt ld q InFollower ef)
     = (Inr (), nd i now EN_STATE_CANDIDATE (Suc t) fv vt Invalid256 q AtTop ef)"
  by (simp add: engine_step_def runAsFollowerImp_def timeout switch_candidate step_simps)

lemma step_timeout_candidate:
  "t < 4 \<Longrightarrow> totalVoteCount v \<ge> 2 \<Longrightarrow> now \<ge> L + int (rto i) * 1000000
     \<Longrightarrow> engine_step toy_raft_env now (nd i L EN_STATE_CANDIDATE t fv vt ld q (InCandidate v) ef)
     = (Inr (), nd i now EN_STATE_CANDIDATE (Suc t) fv vt Invalid256 q AtTop ef)"
  by (simp add: engine_step_def runAsCandidateImp_def timeout isMajorityVote_def switch_candidate step_simps)

lemma send_one:
  assumes "j \<in> {0, 1, 2}" "i \<in> {0, 1, 2}" "j \<noteq> i" "transDataToMessage fs ty = Inr b"
  shows "sendResponse toy_raft_env (rpub j) ty fs (nd i L r t fv vt ld q lp ef) = (Inr True, nd i L r t fv vt ld q lp (ef @ [Send (rpub j) b]))"
proof -
  have "rpub j \<in> set (sessions toy_raft_env i)"
    using assms(1-3) by auto
  then show ?thesis
    using assms(4) nd_miner [OF assms(1)] by (simp add: sendResponse_def step_simps del: toy_env_sel(4))
qed

text \<open>The messages of a broadcast.\<close>

definition to_others :: "nat \<Rightarrow> bytes \<Rightarrow> effect list" where
  "to_others i b = map (\<lambda>j. Send (rpub j) b) (filter (\<lambda>j. j \<noteq> i) [0, 1, 2])"

lemma broadcast:
  "i \<in> {0, 1, 2} \<Longrightarrow> broadcastMsg toy_raft_env b (nd i L r t fv vt ld q lp ef) = (Inr (), nd i L r t fv vt ld q lp (ef @ to_others i b))"
  by (auto simp: broadcastMsg_def to_others_def step_simps nd_miner)

lemma step_enter:
  assumes "i \<in> {0, 1, 2}" "t < 4"
  shows "engine_step toy_raft_env now (nd i L EN_STATE_CANDIDATE t fv vt ld q AtTop ef)
    = (Inr (), nd i L EN_STATE_CANDIDATE t i i ld q (InCandidate (VoteState\<lparr>vs_vote := 1\<rparr>)) (ef @ to_others i (reqmsg i t)))"
proof -
  have "generateVoteReq toy_raft_env (nd i L r t fv vt ld q lp ef) = vreq i t" for r fv vt ld q lp ef
    by (simp add: generateVoteReq_def vreq_def)
  moreover have "transDataToMessage (vote_req_fields (vreq i t)) 0 = Inr (reqmsg i t)"
    using assms by (intro reqmsg_facts) auto
  ultimately have "broadcastVoteReq toy_raft_env (nd i L EN_STATE_CANDIDATE t fv vt ld q AtTop ef)
      = (Inr (), nd i L EN_STATE_CANDIDATE t fv vt ld q AtTop (ef @ to_others i (reqmsg i t)))"
    using broadcast [OF assms(1)] by (simp add: broadcastVoteReq_def step_simps)
  then show ?thesis
    by (simp add: engine_step_def enterCandidate_def wonElection_def step_simps)
qed

text \<open>A vote request at a node that is no leader, by the flag of the response.\<close>

lemma vote_resp_nd: "vote_resp toy_raft_env (nd i L r t fv vt ld q lp ef) f = vresp i t f"
  by (simp add: vote_resp_def vresp_def)

lemma send_vote_nd:
  assumes "i \<in> {0, 1, 2}" "c \<in> {0, 1, 2}" "c \<noteq> i" "t' < 4" "f < 7"
  shows "send_vote toy_raft_env (rpub c) (vresp i t' f) (nd i L r t fv vt ld q lp ef)
    = (Inr (), nd i L r t fv vt ld q lp (ef @ [Send (rpub c) (respmsg i t' f)]))"
proof -
  have "transDataToMessage (vote_resp_fields (vresp i t' f)) 1 = Inr (respmsg i t' f)"
    using assms by (intro respmsg_facts) auto
  from send_one [OF assms(2,1,3) this] show ?thesis
    by (simp add: send_vote_def step_simps)
qed

lemma vreq_sel [simp]: "rm_term (vreq c t) = t" "vr_candidate (vreq c t) = c" "vr_lastLeaderTerm (vreq c t) = 0" "vr_lastBlockNumber (vreq c t) = 0"
  by (simp_all add: vreq_def)

lemma vote_discarded:
  assumes "i \<in> {0, 1, 2}" "c \<in> {0, 1, 2}" "c \<noteq> i" "t < 4" "r \<noteq> EN_STATE_LEADER"
  shows "handleVoteRequest toy_raft_env now (rpub c) (vreq c t) (nd i L r t fv vt ld q lp ef)
    = (Inr False, nd i L r t fv vt ld q lp (ef @ [Send (rpub c) (respmsg i t 5)]))"
  using assms(4,5) send_vote_nd [OF assms(1-4), of 5] by (simp add: handleVoteRequest_def vote_resp_nd step_simps)

lemma vote_first:
  assumes "i \<in> {0, 1, 2}" "c \<in> {0, 1, 2}" "c \<noteq> i" "t < 4" "t < t'" "r \<noteq> EN_STATE_LEADER"
  shows "handleVoteRequest toy_raft_env now (rpub c) (vreq c t') (nd i L r t Invalid256 vt ld q lp ef)
    = (Inr False, nd i L r t c vt ld q lp (ef @ [Send (rpub c) (respmsg i t 4)]))"
  using assms(4-6) send_vote_nd [OF assms(1-4), of 4] by (simp add: handleVoteRequest_def vote_resp_nd step_simps)

lemma vote_granted:
  assumes "i \<in> {0, 1, 2}" "c \<in> {0, 1, 2}" "c \<noteq> i" "t' < 4" "t < t'" "r \<noteq> EN_STATE_LEADER" "fv < 3"
  shows "handleVoteRequest toy_raft_env now (rpub c) (vreq c t') (nd i L r t fv vt ld q lp ef)
    = (Inr True, nd i now r t' c c Invalid256 q lp (ef @ [Send (rpub c) (respmsg i t' 6)]))"
proof -
  have "(vresp i t f)\<lparr>rm_term := t'\<rparr> = vresp i t' f" for f
    by (simp add: vresp_def)
  moreover have "fv \<noteq> Invalid256"
    using assms(7) by (simp add: Invalid256_def)
  ultimately show ?thesis
    using assms(4-6) send_vote_nd [OF assms(1-4), of 6] by (simp add: handleVoteRequest_def vote_resp_nd step_simps reset_timeout)
qed

text \<open>A pass of the follower loop that answers a vote request, and the passes of the candidate loop.\<close>

lemma follower_answers:
  assumes "c \<in> {0, 1, 2}" "t' < 4" "now < L + int (rto i) * 1000000"
    and "handleVoteRequest toy_raft_env now (rpub c) (vreq c t') (nd i L EN_STATE_FOLLOWER t fv vt ld q InFollower ef) = (Inr b, s)"
  shows "engine_step toy_raft_env now (nd i L EN_STATE_FOLLOWER t fv vt ld (received c (reqmsg c t') # q) InFollower ef)
    = (Inr (), s\<lparr>r_loop := if b then AtTop else InFollower\<rparr>)"
proof -
  have "c < 3"
    using assms(1) by auto
  then show ?thesis
    using assms(2-4) reqmsg_facts(4,5) [of c t']
    by (simp add: engine_step_def runAsFollowerImp_def not_timeout tryPop_def liftPacket_def step_simps)
qed

lemma candidate_discards:
  assumes "i \<in> {0, 1, 2}" "c \<in> {0, 1, 2}" "c \<noteq> i" "t < 4" "now < L + int (rto i) * 1000000"
  shows "engine_step toy_raft_env now (nd i L EN_STATE_CANDIDATE t fv vt ld (received c (reqmsg c t) # q) (InCandidate v) ef)
    = (Inr (), nd i L EN_STATE_CANDIDATE t fv vt ld q (InCandidate v) (ef @ [Send (rpub c) (respmsg i t 5)]))"
proof -
  have "c < 3"
    using assms(2) by auto
  then show ?thesis
    using assms(4,5) vote_discarded [OF assms(1-4)] reqmsg_facts(4,5) [of c t]
    by (simp add: engine_step_def runAsCandidateImp_def not_timeout tryPop_def liftPacket_def step_simps)
qed

lemma vresp_sel [simp]: "rm_term (vresp c t f) = t" "vp_voteFlag (vresp c t f) = f"
  by (simp_all add: vresp_def)

lemma dec64_pos: "0 < t \<Longrightarrow> t < 4 \<Longrightarrow> dec64 t = t - 1"
  by (auto simp: dec64_def nat_diff_distrib)

lemma candidate_counts:
  assumes "c \<in> {0, 1, 2}" "0 < t" "t < 4" "now < L + int (rto i) * 1000000"
  shows "engine_step toy_raft_env now (nd i L EN_STATE_CANDIDATE t fv vt ld (received c (respmsg c t 5) # q) (InCandidate v) ef)
    = (Inr (), nd i L EN_STATE_CANDIDATE t fv vt ld q (InCandidate (v\<lparr>vs_discardedVote := vs_discardedVote v + 1\<rparr>)) ef)"
proof -
  have "c < 3"
    using assms(1) by auto
  then show ?thesis
    using assms(2-4) respmsg_facts(4,5) [of c t 5]
    by (simp add: engine_step_def runAsCandidateImp_def not_timeout tryPop_def liftPacket_def step_simps handleVoteResponse_def dec64_pos)
qed

lemma candidate_elected:
  assumes "c \<in> {0, 1, 2}" "0 < t" "t < 4" "t' < 4" "t \<le> Suc t'" "vs_vote v = 1" "now < L + int (rto i) * 1000000"
  shows "engine_step toy_raft_env now (nd i L EN_STATE_CANDIDATE t fv vt ld (received c (respmsg c t' 6) # q) (InCandidate v) ef)
    = (Inr (), nd i L EN_STATE_LEADER t fv vt i q AtTop ef)"
proof -
  have "recoverElectTime (nd i L r t fv vt ld q lp ef) = nd i L r t fv vt ld q lp ef" for r ld lp
    by (simp add: recoverElectTime_def nd_def)
  moreover have "c < 3" "\<not> t' < t - 1"
    using assms(1,5) by auto
  ultimately show ?thesis
    using assms(2-4,6,7) respmsg_facts(4,5) [of c t' 6]
    by (simp add: engine_step_def runAsCandidateImp_def not_timeout tryPop_def liftPacket_def step_simps handleVoteResponse_def dec64_pos
        isMajorityVote_def switchToLeader_def)
qed

section \<open>The run\<close>

text \<open>The nodes at the start, idle followers of term 0; the second one started half a second after the others. Times are in nanoseconds.\<close>

definition idle :: "nat \<Rightarrow> int \<Rightarrow> raft_loop \<Rightarrow> effect list \<Rightarrow> nat raft" where
  "idle i L lp = nd i L EN_STATE_FOLLOWER 0 Invalid256 0 Invalid256 [] lp"

text \<open>An engine as the constructor leaves it, after the report of a first block, and started.\<close>

definition raft_new :: "nat \<Rightarrow> nat raft" where
  "raft_new i =
     \<lparr>m_consensusBlockNumber = 0, m_highestBlock = toy_head, m_nodeNum = 0, m_f = 0, m_idx = 0, m_protocolId = 1,
      m_accountType = ObserverAccount, m_minerList = [rpub 0, rpub 1, rpub 2], m_allowFutureBlocks = True, m_startConsensusEngine = False,
      m_lastNodeList = [], m_secret = [], m_pub = rpub i, world = i, effects = [],
      m_electTimeout = 0, m_minElectTimeout = 1000, m_maxElectTimeout = 2000, m_minElectTimeoutInit = 0, m_maxElectTimeoutInit = 0,
      m_minElectTimeoutBoundary = 0, m_maxElectTimeoutBoundary = 0, m_lastElectTime = 0, m_heartbeatTimeout = 0,
      m_heartbeatInterval = 0, m_heartbeatCount = 0, m_lastHeartbeatTime = 0, m_lastHeartbeatReset = 0, m_increaseTime = 0,
      m_msgQueue = [], m_state = EN_STATE_FOLLOWER, m_firstVote = Invalid256, m_term = 0, m_lastLeaderTerm = 0, m_leader = 0, m_vote = 0,
      m_memberBlock = [], m_cfgErr = False, m_storage = False, m_lastObtainMinerNum = 0, m_lastBlockTime = 0, m_uncommittedBlock = block_new,
      m_uncommittedBlockNumber = 0, m_commitReady = False, m_waitingForCommitting = False, m_commitFingerPrint = [], r_commitLocked = False,
      r_loop = AtTop\<rparr>"

definition raft_nodes :: "nat \<Rightarrow> nat raft" where
  "raft_nodes i = snd (raft_start toy_raft_env (started i) (raft_new i))"

lemma new_miner: "i \<in> {0, 1, 2} \<Longrightarrow> m_minerList s = [rpub 0, rpub 1, rpub 2] \<Longrightarrow> getIndexByMiner (rpub i) s = Some i"
  using rpub_distinct by (auto simp: getIndexByMiner_def upt_rec numeral_2_eq_2 numeral_3_eq_3)

lemma raft_started: "i \<in> {0, 1, 2} \<Longrightarrow> raft_start toy_raft_env (started i) (raft_new i) = (Inr (), idle i (started i) AtTop [StartWorking])"
proof -
  assume i: "i \<in> {0, 1, 2}"
  let ?s = "resetElectTimeout toy_raft_env (started i) (resetElectTimeout toy_raft_env (started i)
    ((raft_new i)\<lparr>m_accountType := MinerAccount, m_nodeNum := 3, m_idx := i, m_f := 1, m_leader := Invalid256\<rparr>))"
  have sel: "m_pub (raft_new i) = rpub i" "m_minerList (raft_new i) = [rpub 0, rpub 1, rpub 2]" "m_storage (raft_new i) = False"
    "m_nodeNum (raft_new i) = 0"
    by (simp_all add: raft_new_def)
  have "resetConfig toy_raft_env (started i) (raft_new i) = (Inr (), ?s)"
    using i new_miner [OF i sel(2)]
    by (auto simp: resetConfig_def updateMinerList_def sel switchToFollower_def step_simps Let_def)
      (simp_all add: raft_new_def)
  then show ?thesis
    using i by (auto simp: raft_start_def initRaftEnv_def step_simps base_start_def emit_def Let_def)
      (simp_all add: raft_new_def resetElectTimeout_def toy_raft_env_def idle_def nd_def sub32_def rto_def started_def)
qed

text \<open>A system is described by its nodes up to their effects, the time, and messages that are on their way, perhaps among others.\<close>

type_synonym view = "effect list \<Rightarrow> nat raft"

definition three :: "view \<Rightarrow> view \<Rightarrow> view \<Rightarrow> nat \<Rightarrow> view" where
  "three a b c = (\<lambda>i _. raft_nodes i)(0 := a, 1 := b, 2 := c)"

definition reach :: "(nat \<Rightarrow> view) \<Rightarrow> int \<Rightarrow> (nat \<times> nat \<times> bytes) multiset \<Rightarrow> bool" where
  "reach V T M \<longleftrightarrow> (\<exists>EF ms. raft_net toy_raft_env (raft_nodes, 500000000, []) ((\<lambda>i. V i (EF i)), T, ms)
     \<and> image_mset (\<lambda>(i, j, b). (rpub i, rpub j, b)) M \<subseteq># mset ms)"

lemma three_sel [simp]: "three a b c 0 = a" "three a b c (Suc 0) = b" "three a b c 2 = c"
  by (simp_all add: three_def)

lemma three_upd [simp]: "(three a b c)(0 := a') = three a' b c" "(three a b c)(Suc 0 := b') = three a b' c" "(three a b c)(2 := c') = three a b c'"
  by (auto simp: three_def)

lemma reach_step:
  assumes "reach V T M" "T \<le> now" "V i = nd i L r t fv vt ld q lp"
    and st: "\<And>ef. engine_step toy_raft_env now (nd i L r t fv vt ld q lp ef)
      = (Inr (), nd i L' r' t' fv' vt' ld' q' lp' (ef @ map (\<lambda>(j, b). Send (rpub j) b) xs))"
  shows "reach (V(i := nd i L' r' t' fv' vt' ld' q' lp')) now (M + mset (map (\<lambda>(j, b). (i, j, b)) xs))"
proof -
  obtain EF ms where net: "raft_net toy_raft_env (raft_nodes, 500000000, []) ((\<lambda>i. V i (EF i)), T, ms)"
    and sub: "image_mset (\<lambda>(i, j, b). (rpub i, rpub j, b)) M \<subseteq># mset ms"
    using assms(1) by (auto simp: reach_def)
  let ?s = "nd i L' r' t' fv' vt' ld' q' lp' (EF i @ map (\<lambda>(j, b). Send (rpub j) b) xs)"
  have "sent_by (V i (EF i)) ?s = map (\<lambda>(j, b). (rpub i, rpub j, b)) xs"
    by (simp add: assms(3) sent_by_def nd_def comp_def case_prod_beta)
  moreover have "raft_net toy_raft_env (raft_nodes, 500000000, []) ((\<lambda>i. V i (EF i))(i := ?s), now, ms @ sent_by (V i (EF i)) ?s)"
    using net assms(2) st [of "EF i"] by (intro net_engine) (simp_all add: assms(3))
  moreover have "(\<lambda>i. V i (EF i))(i := ?s)
      = (\<lambda>j. (V(i := nd i L' r' t' fv' vt' ld' q' lp')) j ((EF(i := EF i @ map (\<lambda>(j, b). Send (rpub j) b) xs)) j))"
    by auto
  moreover have "image_mset (\<lambda>(i, j, b). (rpub i, rpub j, b)) (mset (map (\<lambda>(j, b). (i, j, b)) xs)) = mset (map (\<lambda>(j, b). (rpub i, rpub j, b)) xs)"
    by (induction xs) auto
  then have "image_mset (\<lambda>(i, j, b). (rpub i, rpub j, b)) (M + mset (map (\<lambda>(j, b). (i, j, b)) xs))
      \<subseteq># mset (ms @ map (\<lambda>(j, b). (rpub i, rpub j, b)) xs)"
    using sub by (simp add: subset_mset.add_mono del: mset_map)
  ultimately show ?thesis
    unfolding reach_def by (simp only: ) blast
qed

lemma reach_quiet:
  assumes "reach V T M" "T \<le> now" "V i = nd i L r t fv vt ld q lp"
    and "\<And>ef. engine_step toy_raft_env now (nd i L r t fv vt ld q lp ef) = (Inr (), nd i L' r' t' fv' vt' ld' q' lp' ef)"
  shows "reach (V(i := nd i L' r' t' fv' vt' ld' q' lp')) now M"
  using reach_step [OF assms(1-3), of L' r' t' fv' vt' ld' q' lp' "[]"] assms(4) by simp

lemma reach_deliver:
  assumes "reach V T (add_mset (c, i, b) M)" "V i = nd i L r t fv vt ld q lp"
    and "i \<in> {0, 1, 2}" "c \<in> {0, 1, 2}" "c \<noteq> i" "b \<noteq> []" "\<exists>p. raft_packet_decode b RaftMsgPacket = Inr p" "rp_packetType (received c b) < 4"
  shows "reach (V(i := nd i L r t fv vt ld (q @ [received c b]) lp)) T M"
proof -
  obtain EF ms where net: "raft_net toy_raft_env (raft_nodes, 500000000, []) ((\<lambda>i. V i (EF i)), T, ms)"
    and sub: "image_mset (\<lambda>(i, j, b). (rpub i, rpub j, b)) (add_mset (c, i, b) M) \<subseteq># mset ms"
    using assms(1) by (auto simp: reach_def)
  have "(rpub c, rpub i, b) \<in> set ms"
    using mset_subset_eqD [OF sub, of "(rpub c, rpub i, b)"] by simp
  then obtain xs ys where ms: "ms = xs @ (rpub c, rpub i, b) # ys"
    by (auto simp: in_set_conv_decomp)
  let ?s = "nd i L r t fv vt ld (q @ [received c b]) lp (EF i)"
  have "raft_net toy_raft_env (raft_nodes, 500000000, []) ((\<lambda>i. V i (EF i))(i := ?s), T, xs @ ys)"
  proof (rule net_deliver [OF net [unfolded ms]])
    show "onRecvRaftMessage b (rpub c) (V i (EF i)) = (Inr (), ?s)"
      unfolding assms(2) by (rule deliver [OF assms(3-8)])
  qed (simp add: assms(2) nd_def)
  moreover have "(\<lambda>i. V i (EF i))(i := ?s) = (\<lambda>j. (V(i := nd i L r t fv vt ld (q @ [received c b]) lp)) j (EF j))"
    by auto
  moreover have "image_mset (\<lambda>(i, j, b). (rpub i, rpub j, b)) M \<subseteq># mset (xs @ ys)"
    using sub unfolding ms by simp
  ultimately show ?thesis
    unfolding reach_def by (simp only: ) blast
qed

text \<open>A candidate that has just switched, in its loop, and in its loop with one discarded vote.\<close>

definition cand :: "nat \<Rightarrow> int \<Rightarrow> nat \<Rightarrow> nat \<Rightarrow> nat \<Rightarrow> raft_packet list \<Rightarrow> view" where
  "cand i L t fv vt q = nd i L EN_STATE_CANDIDATE t fv vt Invalid256 q AtTop"

definition voting :: "nat \<Rightarrow> int \<Rightarrow> nat \<Rightarrow> nat \<Rightarrow> raft_packet list \<Rightarrow> view" where
  "voting i L t d q = nd i L EN_STATE_CANDIDATE t i i Invalid256 q (InCandidate (VoteState\<lparr>vs_vote := 1, vs_discardedVote := d\<rparr>))"

lemma others_cases: "i \<in> {0, 2} \<Longrightarrow> to_others i b = map (\<lambda>(j, b). Send (rpub j) b) [(if i = 0 then 1 else 0, b), (if i = 0 then 2 else 1, b)]"
  by (auto simp: to_others_def)

lemma run_enter:
  assumes "reach V T M" "V i = cand i L t fv vt q" "i \<in> {0, 2}" "t < 4"
  shows "reach (V(i := voting i L t 0 q)) T (add_mset (i, 1, reqmsg i t) (add_mset (i, 2 - i, reqmsg i t) M))"
proof -
  have "i \<in> {0, 1, 2}"
    using assms(3) by auto
  from reach_step [OF assms(1) order.refl assms(2) [unfolded cand_def], OF step_enter [OF this assms(4), unfolded others_cases [OF assms(3)]]]
  have "reach (V(i := nd i L EN_STATE_CANDIDATE t i i Invalid256 q (InCandidate (VoteState\<lparr>vs_vote := 1\<rparr>)))) T
    (M + {#(i, if i = 0 then 1 else 0, reqmsg i t), (i, if i = 0 then 2 else 1, reqmsg i t)#})"
    by simp
  moreover have "M + {#(i, if i = 0 then 1 else 0, reqmsg i t), (i, if i = 0 then 2 else 1, reqmsg i t)#}
      = add_mset (i, 1, reqmsg i t) (add_mset (i, 2 - i, reqmsg i t) M)"
    using assms(3) by auto
  moreover have "VoteState\<lparr>vs_vote := 1\<rparr> = VoteState\<lparr>vs_vote := 1, vs_discardedVote := 0\<rparr>"
    by (simp add: VoteState_def)
  ultimately show ?thesis
    by (simp only: voting_def)
qed

text \<open>A node that is voting hears of a request of another candidate of its term and discards it, and then hears of the discard of its own request.\<close>

lemma run_discard:
  assumes "reach V T (add_mset (c, i, reqmsg c t) M)" "V i = voting i L t d []" "i \<in> {0, 2}" "c \<in> {0, 2}" "c \<noteq> i" "t < 4" "T < L + int (rto i) * 1000000"
  shows "reach V T (add_mset (i, c, respmsg i t 5) M)"
proof -
  have ic: "i \<in> {0, 1, 2}" "c \<in> {0, 1, 2}" and c: "c < 3"
    using assms(3,4) by auto
  note f = reqmsg_facts [OF c assms(6)]
  have "reach (V(i := voting i L t d [received c (reqmsg c t)])) T M"
    using reach_deliver [OF assms(1,2) [unfolded voting_def] ic assms(5) f(2,3)] f(4) by (simp add: voting_def)
  from reach_step [OF this order.refl, of i, unfolded voting_def, OF fun_upd_same,
      of _ _ _ _ _ _ _ _ "[(c, respmsg i t 5)]", simplified, OF candidate_discards [OF ic assms(5,6,7), simplified]]
  show ?thesis
    using assms(2) fun_upd_idem_iff [of V i "voting i L t d []"] by (simp add: voting_def)
qed

lemma run_counts:
  assumes "reach V T (add_mset (c, i, respmsg c t 5) M)" "V i = voting i L t d []" "i \<in> {0, 2}" "c \<in> {0, 2}" "c \<noteq> i" "0 < t" "t < 4"
    "T < L + int (rto i) * 1000000"
  shows "reach (V(i := voting i L t (d + 1) [])) T M"
proof -
  have ic: "i \<in> {0, 1, 2}" "c \<in> {0, 1, 2}" and c: "c < 3"
    using assms(3,4) by auto
  note f = respmsg_facts [OF c assms(7), of 5]
  have "reach (V(i := voting i L t d [received c (respmsg c t 5)])) T M"
    using reach_deliver [OF assms(1,2) [unfolded voting_def] ic assms(5) f(2,3)] f(4) by (simp add: voting_def)
  from reach_quiet [OF this order.refl, of i, unfolded voting_def, OF fun_upd_same, OF candidate_counts [OF ic(2) assms(6,7,8)]]
  show ?thesis
    by (simp add: voting_def)
qed

text \<open>The first and the third node are candidates of one term and discard each other's request.\<close>

lemma rto_sel [simp]: "rto 0 = 1000" "rto (Suc 0) = 1900" "rto 2 = 1000"
  by (simp_all add: rto_def)

lemma run_split:
  assumes "reach (three (cand 0 T t x x' []) b (cand 2 T t y y' [])) T M" "0 < t" "t < 4"
  shows "reach (three (voting 0 T t 1 []) b (voting 2 T t 1 [])) T (add_mset (0, 1, reqmsg 0 t) (add_mset (2, 1, reqmsg 2 t) M))"
proof -
  let ?r0 = "(0, 1, reqmsg 0 t)" and ?r2 = "(2, 1, reqmsg 2 t)"
  have "reach (three (voting 0 T t 0 []) b (cand 2 T t y y' [])) T (add_mset ?r0 (add_mset (0, 2, reqmsg 0 t) M))"
    using run_enter [OF assms(1), of 0] assms(3) by simp
  then have "reach (three (voting 0 T t 0 []) b (voting 2 T t 0 [])) T
      (add_mset ?r2 (add_mset (2, 0, reqmsg 2 t) (add_mset ?r0 (add_mset (0, 2, reqmsg 0 t) M))))"
    using run_enter [of "three (voting 0 T t 0 []) b (cand 2 T t y y' [])" T _ 2] assms(3) by fastforce
  then have 1: "reach (three (voting 0 T t 0 []) b (voting 2 T t 0 [])) T (add_mset (2, 0, reqmsg 2 t) (add_mset (0, 2, reqmsg 0 t) (add_mset ?r0 (add_mset ?r2 M))))"
    by (simp add: add_mset_commute)
  have 2: "reach (three (voting 0 T t 0 []) b (voting 2 T t 0 [])) T (add_mset (0, 2, respmsg 0 t 5) (add_mset (0, 2, reqmsg 0 t) (add_mset ?r0 (add_mset ?r2 M))))"
    by (rule run_discard [OF 1]) (use assms in auto)
  have 3: "reach (three (voting 0 T t 0 []) b (voting 2 T t 1 [])) T (add_mset (0, 2, reqmsg 0 t) (add_mset ?r0 (add_mset ?r2 M)))"
    using run_counts [OF 2, of T 0] assms(2,3) by simp
  have 4: "reach (three (voting 0 T t 0 []) b (voting 2 T t 1 [])) T (add_mset (2, 0, respmsg 2 t 5) (add_mset ?r0 (add_mset ?r2 M)))"
    by (rule run_discard [OF 3]) (use assms in auto)
  show ?thesis
    using run_counts [OF 4, of T 0] assms(2,3) by simp
qed

lemma run_start: "reach (three (idle 0 0 InFollower) (idle 1 500000000 InFollower) (idle 2 0 InFollower)) 500000000 {#}"
proof -
  have "raft_nodes = (\<lambda>i. three (idle 0 0 AtTop) (idle 1 500000000 AtTop) (idle 2 0 AtTop) i [StartWorking])"
    using raft_started [of 0] raft_started [of 1] raft_started [of 2] by (auto simp: raft_nodes_def three_def started_def)
  then have "reach (three (idle 0 0 AtTop) (idle 1 500000000 AtTop) (idle 2 0 AtTop)) 500000000 {#}"
    unfolding reach_def by (intro exI [of _ "\<lambda>_. [StartWorking]"] exI [of _ "[]"]) (simp add: net_refl)
  from reach_quiet [OF this order.refl, of 0, simplified, OF idle_def step_top]
  have "reach (three (idle 0 0 InFollower) (idle 1 500000000 AtTop) (idle 2 0 AtTop)) 500000000 {#}"
    by (simp add: idle_def)
  from reach_quiet [OF this order.refl, of "Suc 0", simplified, OF idle_def [of 1, simplified] step_top]
  have "reach (three (idle 0 0 InFollower) (idle 1 500000000 InFollower) (idle 2 0 AtTop)) 500000000 {#}"
    by (simp add: idle_def)
  from reach_quiet [OF this order.refl, of 2, simplified, OF idle_def step_top]
  show ?thesis
    by (simp add: idle_def)
qed

text \<open>At one and at two seconds both candidates time out.\<close>

lemma run_timeout:
  assumes "reach V T M" "V i = voting i L t 1 []" "i \<in> {0, 2}" "t < 4" "now \<ge> L + 1000000000" "T \<le> now"
  shows "reach (V(i := cand i now (Suc t) i i [])) now M"
proof -
  have "totalVoteCount (VoteState\<lparr>vs_vote := 1, vs_discardedVote := 1\<rparr>) \<ge> 2" "now \<ge> L + int (rto i) * 1000000"
    using assms(3,5) by (auto simp: totalVoteCount_def VoteState_def)
  from reach_quiet [OF assms(1,6) assms(2) [unfolded voting_def], OF step_timeout_candidate [OF assms(4) this]]
  show ?thesis
    by (simp add: cand_def)
qed

lemma run_timeouts:
  assumes "reach (three (voting 0 L t 1 []) b (voting 2 L t 1 [])) L M" "t < 4"
  shows "reach (three (cand 0 (L + 1000000000) (Suc t) 0 0 []) b (cand 2 (L + 1000000000) (Suc t) 2 2 [])) (L + 1000000000) M"
proof -
  have 1: "reach (three (cand 0 (L + 1000000000) (Suc t) 0 0 []) b (voting 2 L t 1 [])) (L + 1000000000) M"
    using run_timeout [OF assms(1), where i = 0 and L = L and now = "L + 1000000000"] assms(2) by simp
  show ?thesis
    using run_timeout [OF 1, where i = 2 and L = L and now = "L + 1000000000"] assms(2) by simp
qed

lemma run_idle_timeout:
  assumes "reach V T M" "V i = idle i 0 InFollower" "i \<in> {0, 2}" "T \<le> 1000000000"
  shows "reach (V(i := cand i 1000000000 1 Invalid256 0 [])) 1000000000 M"
proof -
  have "(1000000000 :: int) \<ge> 0 + int (rto i) * 1000000"
    using assms(3) by auto
  from reach_quiet [OF assms(1,4) assms(2) [unfolded idle_def], OF step_timeout_follower [OF _ this]]
  show ?thesis
    by (simp add: cand_def)
qed

text \<open>The second node answers a request of the first or the third one.\<close>

lemma run_answer:
  assumes "reach V T (add_mset (c, 1, reqmsg c t') M)" "V 1 = nd 1 L EN_STATE_FOLLOWER t fv vt ld [] InFollower" "c \<in> {0, 2}" "t' < 4"
    "T < L + 1900000000"
    and "\<And>ef. handleVoteRequest toy_raft_env T (rpub c) (vreq c t') (nd 1 L EN_STATE_FOLLOWER t fv vt ld [] InFollower ef)
      = (Inr b, nd 1 L' EN_STATE_FOLLOWER u fv' vt' ld' [] InFollower (ef @ [Send (rpub c) (respmsg 1 u f)]))"
  shows "reach (V(1 := nd 1 L' EN_STATE_FOLLOWER u fv' vt' ld' [] InFollower)) T (add_mset (1, c, respmsg 1 u f) M)"
proof -
  let ?v = "\<lambda>lp. nd 1 L' EN_STATE_FOLLOWER u fv' vt' ld' [] lp"
  have ic: "1 \<in> {0, 1, 2 :: nat}" "c \<in> {0, 1, 2}" "c \<noteq> 1" and c: "c < 3" and T: "T < L + int (rto 1) * 1000000"
    using assms(3,5) by auto
  note q = reqmsg_facts [OF c assms(4)]
  have d: "reach (V(1 := nd 1 L EN_STATE_FOLLOWER t fv vt ld [received c (reqmsg c t')] InFollower)) T M"
    using reach_deliver [OF assms(1,2) ic q(2,3)] q(4) by simp
  have "engine_step toy_raft_env T (nd 1 L EN_STATE_FOLLOWER t fv vt ld [received c (reqmsg c t')] InFollower ef)
      = (Inr (), ?v (if b then AtTop else InFollower) (ef @ map (\<lambda>(j, b). Send (rpub j) b) [(c, respmsg 1 u f)]))" for ef
    using follower_answers [OF ic(2) assms(4) T assms(6)] by simp
  from reach_step [OF d order.refl, of 1, OF fun_upd_same this]
  have e: "reach (V(1 := ?v (if b then AtTop else InFollower))) T (add_mset (1, c, respmsg 1 u f) M)"
    by simp
  show ?thesis
  proof (cases b)
    case True
    with e have "reach (V(1 := ?v AtTop)) T (add_mset (1, c, respmsg 1 u f) M)"
      by simp
    from reach_quiet [OF this order.refl, of 1, OF fun_upd_same step_top] show ?thesis
      by simp
  qed (use e in simp)
qed

text \<open>A vote of the same term or of the one before makes the voter's candidate a leader.\<close>

lemma run_elected:
  assumes "reach V T (add_mset (1, i, respmsg 1 t' 6) M)" "V i = voting i L t 0 []" "i \<in> {0, 2}"
    "0 < t" "t < 4" "t' < 4" "t \<le> Suc t'" "T < L + 1000000000"
  shows "reach (V(i := nd i L EN_STATE_LEADER t i i i [] AtTop)) T M"
proof -
  have ic: "i \<in> {0, 1, 2}" "1 \<in> {0, 1, 2 :: nat}" "1 \<noteq> i" and T: "T < L + int (rto i) * 1000000"
    using assms(3,8) by auto
  note f = respmsg_facts [of 1, OF _ assms(6), of 6]
  have "reach (V(i := voting i L t 0 [received 1 (respmsg 1 t' 6)])) T M"
    using reach_deliver [OF assms(1,2) [unfolded voting_def] ic f(2,3)] f(4) by (simp add: voting_def)
  from reach_quiet [OF this order.refl, of i, unfolded voting_def, OF fun_upd_same, OF candidate_elected [OF ic(2) assms(4-7) _ T]]
  show ?thesis
    by simp
qed

lemma reach_drop: "reach V T (add_mset m M) \<Longrightarrow> reach V T M"
  unfolding reach_def by (auto dest: mset_subset_eq_insertD subset_mset.less_imp_le)

text \<open>Until one second nobody is elected; the second node remembers the first candidate.\<close>

lemma run_one_term:
  "reach (three (voting 0 1000000000 1 1 []) (nd 1 500000000 EN_STATE_FOLLOWER 0 0 0 Invalid256 [] InFollower) (voting 2 1000000000 1 1 []))
     1000000000 {#}"
proof -
  let ?b = "idle 1 500000000 InFollower"
  have "reach (three (cand 0 1000000000 1 Invalid256 0 []) ?b (idle 2 0 InFollower)) 1000000000 {#}"
    using run_idle_timeout [OF run_start, of 0] by simp
  from run_idle_timeout [OF this, of 2]
  have "reach (three (cand 0 1000000000 1 Invalid256 0 []) ?b (cand 2 1000000000 1 Invalid256 0 [])) 1000000000 {#}"
    by simp
  from run_split [OF this] have "reach (three (voting 0 1000000000 1 1 []) ?b (voting 2 1000000000 1 1 [])) 1000000000 {#(2, 1, reqmsg 2 1), (0, 1, reqmsg 0 1)#}"
    by (subst add_mset_commute) simp
  from reach_drop [OF this] have r: "reach (three (voting 0 1000000000 1 1 []) ?b (voting 2 1000000000 1 1 [])) 1000000000 {#(0, 1, reqmsg 0 1)#}" .
  have "reach (three (voting 0 1000000000 1 1 []) (nd 1 500000000 EN_STATE_FOLLOWER 0 0 0 Invalid256 [] InFollower) (voting 2 1000000000 1 1 []))
     1000000000 {#(1, 0, respmsg 1 0 4)#}"
    using run_answer [OF r _ _ _ _ vote_first [of 1 0 0 1], where L = 500000000] by (simp add: idle_def)
  then show ?thesis
    by (rule reach_drop)
qed

text \<open>At two seconds the second node votes for the first one, whose request has the second term, and the vote is delayed.\<close>

lemma run_two_terms:
  "reach (three (cand 0 3000000000 3 0 0 []) (nd 1 2000000000 EN_STATE_FOLLOWER 2 0 0 Invalid256 [] InFollower) (cand 2 3000000000 3 2 2 []))
     3000000000 {#(1, 0, respmsg 1 2 6)#}"
proof -
  let ?b1 = "nd 1 500000000 EN_STATE_FOLLOWER 0 0 0 Invalid256 [] InFollower"
    and ?b2 = "nd 1 2000000000 EN_STATE_FOLLOWER 2 0 0 Invalid256 [] InFollower"
  have "reach (three (cand 0 2000000000 2 0 0 []) ?b1 (cand 2 2000000000 2 2 2 [])) 2000000000 {#}"
    using run_timeouts [OF run_one_term] by (simp add: numeral_2_eq_2 [symmetric])
  from run_split [OF this] have "reach (three (voting 0 2000000000 2 1 []) ?b1 (voting 2 2000000000 2 1 [])) 2000000000 {#(2, 1, reqmsg 2 2), (0, 1, reqmsg 0 2)#}"
    by (subst add_mset_commute) simp
  from reach_drop [OF this] have r: "reach (three (voting 0 2000000000 2 1 []) ?b1 (voting 2 2000000000 2 1 [])) 2000000000 {#(0, 1, reqmsg 0 2)#}" .
  from run_answer [OF r _ _ _ _ vote_granted [of 1 0 2 0]]
  have "reach (three (voting 0 2000000000 2 1 []) ?b2 (voting 2 2000000000 2 1 [])) 2000000000 {#(1, 0, respmsg 1 2 6)#}"
    by simp
  from run_timeouts [OF this] show ?thesis
    by (simp add: numeral_3_eq_3 [symmetric] numeral_2_eq_2 [symmetric])
qed

text \<open>At three seconds the second node votes for the third one, and the first one receives the vote of the second term.\<close>

lemma run_leaders:
  "\<exists>b. reach (three (nd 0 3000000000 EN_STATE_LEADER 3 0 0 0 [] AtTop) b (nd 2 3000000000 EN_STATE_LEADER 3 2 2 2 [] AtTop)) 3000000000 {#}"
proof -
  let ?b2 = "nd 1 2000000000 EN_STATE_FOLLOWER 2 0 0 Invalid256 [] InFollower" and ?b3 = "nd 1 3000000000 EN_STATE_FOLLOWER 3 2 2 Invalid256 [] InFollower"
    and ?g = "(1, 0, respmsg 1 2 6) :: nat \<times> nat \<times> bytes"
  have "reach (three (cand 0 3000000000 3 0 0 []) ?b2 (voting 2 3000000000 3 0 [])) 3000000000 {#(2, 0, reqmsg 2 3), (2, 1, reqmsg 2 3), ?g#}"
    using run_enter [OF run_two_terms, where i = 2 and L = 3000000000 and t = 3 and fv = 2 and vt = 2 and q = "[]"] by (subst add_mset_commute) simp
  from reach_drop [OF this] have r: "reach (three (cand 0 3000000000 3 0 0 []) ?b2 (voting 2 3000000000 3 0 [])) 3000000000 {#(2, 1, reqmsg 2 3), ?g#}" .
  from run_answer [OF r _ _ _ _ vote_granted [of 1 2 3 2]]
  have "reach (three (cand 0 3000000000 3 0 0 []) ?b3 (voting 2 3000000000 3 0 [])) 3000000000 {#(1, 2, respmsg 1 3 6), ?g#}"
    by simp
  from run_elected [OF this, where L = 3000000000 and t = 3]
  have "reach (three (cand 0 3000000000 3 0 0 []) ?b3 (nd 2 3000000000 EN_STATE_LEADER 3 2 2 2 [] AtTop)) 3000000000 {#?g#}"
    by simp
  from run_enter [OF this, where i = 0 and L = 3000000000 and t = 3 and fv = 0 and vt = 0 and q = "[]"]
  have "reach (three (voting 0 3000000000 3 0 []) ?b3 (nd 2 3000000000 EN_STATE_LEADER 3 2 2 2 [] AtTop)) 3000000000 {#(0, 1, reqmsg 0 3), (0, 2, reqmsg 0 3), ?g#}"
    by simp
  from reach_drop [OF reach_drop [OF this]]
  have "reach (three (voting 0 3000000000 3 0 []) ?b3 (nd 2 3000000000 EN_STATE_LEADER 3 2 2 2 [] AtTop)) 3000000000 {#?g#}" .
  from run_elected [OF this, where L = 3000000000 and t = 3] show ?thesis
    by auto
qed

text \<open>C12. Three nodes start as followers of term 0, with three clocks that agree and the election timeouts 1000, 1900 and 1000 ms. The engine and the
  network can then come to a state in which the first and the third node are both leaders of term 3: the first one has counted the second node's
  vote of term 2 for an election of term 3, in which the second node voted for the third one.\<close>

theorem raft_two_leaders:
  "\<exists>N T ms. raft_net toy_raft_env (raft_nodes, 500000000, []) (N, T, ms)
     \<and> m_state (N 0) = EN_STATE_LEADER \<and> m_state (N 2) = EN_STATE_LEADER \<and> m_term (N 0) = 3 \<and> m_term (N 2) = 3"
proof -
  from run_leaders obtain b EF ms where
    "raft_net toy_raft_env (raft_nodes, 500000000, []) ((\<lambda>i. three (nd 0 3000000000 EN_STATE_LEADER 3 0 0 0 [] AtTop) b
       (nd 2 3000000000 EN_STATE_LEADER 3 2 2 2 [] AtTop) i (EF i)), 3000000000, ms)"
    unfolding reach_def by (elim exE conjE)
  then show ?thesis
    by (intro exI conjI) (assumption, simp_all)
qed

section \<open>Instances\<close>

theorem election_timeout_bounds_witness:
  "1000 \<le> m_electTimeout (raft_run toy_raft_env [RStep 0, RStep 1000000000, RRecv [] (rpub 1), RStep 1000000000] (raft_nodes 0))
   \<and> m_electTimeout (raft_run toy_raft_env [RStep 0, RStep 1000000000, RRecv [] (rpub 1), RStep 1000000000] (raft_nodes 0)) \<le> 2500"
proof -
  have "raft_start toy_raft_env (started 0) (raft_new 0) = (Inr (), raft_nodes 0)"
    using raft_started [of 0] by (simp add: raft_nodes_def)
  moreover have "m_minElectTimeout (raft_new 0) = 1000" "m_maxElectTimeout (raft_new 0) = 2000"
    by (simp_all add: raft_new_def)
  ultimately show ?thesis
    using election_timeout_bounds [of "raft_new 0" toy_raft_env "started 0" "raft_nodes 0"] by simp
qed

text \<open>A leader whose sealer waits for its block, with the acknowledgement of the second node.\<close>

definition sealed_block :: block where
  "sealed_block = block_new\<lparr>m_blockHeader := header_new\<lparr>m_number := 1, m_timestamp := 1, m_hash := hash_of_nat 32 2\<rparr>\<rparr>"

definition ack :: raft_heartbeat_resp where
  "ack = \<lparr>rm_idx = 1, rm_term = 3, rm_height = 0, rm_blockHash = hash_of_nat 32 1, hr_uncommitedBlockHash = hash_of_nat 32 2\<rparr>"

definition ack_packet :: raft_packet where
  "ack_packet = received 1 (projr (transDataToMessage (heartbeat_resp_fields ack) RaftHeartBeatRespPacket))"

definition waiting_leader :: "nat raft" where
  "waiting_leader = (nd 0 0 EN_STATE_LEADER 3 Invalid256 0 0 [ack_packet] (InLeader []) [])\<lparr>m_uncommittedBlock := sealed_block, m_waitingForCommitting := True\<rparr>"

lemma ack_packet_facts: "rp_packetType ack_packet = 3" "raft_open heartbeat_resp_populate ack_packet = Inr ack" "rp_nodeId ack_packet = rpub 1"
proof -
  have "raft_wf ack" "length (hr_uncommitedBlockHash ack) = 32"
    by (auto simp: raft_wf_def ack_def intro: u256_32)
  from heartbeat_resp_wire [OF this, where i = 1 and n = "rpub 1"]
  show "rp_packetType ack_packet = 3" "raft_open heartbeat_resp_populate ack_packet = Inr ack" "rp_nodeId ack_packet = rpub 1"
    by (auto simp: ack_packet_def received_def)
qed

lemma sealed_facts: "block_bool sealed_block" "hashOf toy_crypto (m_blockHeader sealed_block) = hash_of_nat 32 2"
proof -
  have "hash_of_nat 32 2 \<noteq> hash_zero 32"
    by code_simp
  then show "block_bool sealed_block" "hashOf toy_crypto (m_blockHeader sealed_block) = hash_of_nat 32 2"
    by (simp_all add: block_bool_def sealed_block_def hashOf_def header_hash_def UINT64_MAX_def)
qed

lemma waiting_leader_step:
  "\<exists>s. engine_step toy_raft_env 0 waiting_leader = (Inr (), s) \<and> m_commitReady s \<and> m_state s = EN_STATE_LEADER"
  using ack_packet_facts sealed_facts
  by (simp add: engine_step_def runAsLeaderImp_def leader_packet_def step_simps waiting_leader_def nd_def checkHeartbeatTimeout_def
      broadcastHeartbeat_def millis_def tryPop_def liftPacket_def note_ack_def note_fingerprint_def ack_def Let_def started_def)


end
