(* ===== verification/Spec2Isabelle.thy ===== *)
theory Spec2Isabelle
  imports PBFTQuorum PBFTGossip BlockCommit TxPoolSafety RaftElection
begin

text \<open>
  A verification library for the FISCO BCOS node in \<open>src/\<close>.

  \<^bold>\<open>The program.\<close> A node receives transactions, seals them into blocks, agrees on a block with the other miners by PBFT or Raft, executes it
  and stores it. \<open>libdevcore\<close> has the byte, hex, hash and RLP codecs and the trie root; \<open>libethcore\<close> has transactions, receipts, block headers
  and blocks; \<open>libconsensus/pbft\<close> is the consensus engine, \<open>libconsensus/raft\<close> an alternative to it; an engine calls the chain (\<open>libblockchain\<close>), the executor (\<open>libblockverifier\<close>), the transaction
  pool (\<open>libtxpool\<close>), the synchronisation module and the P2P service through interfaces; \<open>libblockchain\<close> keeps the chain in system tables; \<open>libstorage\<close> has
  the tables, their factory with its change log, and the state storage on LevelDB.

  \<^bold>\<open>How the code is modelled.\<close> A class is a record of its fields, an enumeration a datatype, and a method a function from the object to
  a result and the new object. A method that may throw is an \<open>action\<close> (theory \<open>Effects\<close>) or returns a sum whose left side is the exception; an exception keeps
  the changes made before it. \<open>std::map\<close> is a sorted association list (\<open>smap_set\<close>, \<open>smap_insert\<close>), \<open>std::unordered_map\<close> an association list (\<open>amap\<close>). Integers
  are \<open>int\<close> or \<open>nat\<close> with the reduction to their width written out where the code can leave it, bytes are \<open>8 word\<close>. Mutexes are left out, except where
  a failure to take one is a result (\<open>commitMutex\<close> of the chain, \<open>m_commitMutex\<close> of Raft); each method is one step, and a pass of Raft's engine thread is one step. Logging is left out.

  \<^bold>\<open>Theories, in the order of the code.\<close>
  \<^item> \<open>BcosPrelude\<close>: results, association lists, the collections of simplification rules. \<open>Effects\<close>: methods with state and exceptions and the rules by
    which a handler is shown to keep an invariant.
  \<^item> \<open>CommonData\<close>, \<open>RLP\<close>, \<open>TrieHash\<close>, \<open>FixedHash\<close> (\<open>libdevcore/CommonData\<close>, \<open>RLP\<close>, \<open>TrieHash\<close>, \<open>TrieCommon\<close>, \<open>FixedHash\<close>): codecs, the RLP reader with its index cache and
    iterator, the writer with its list stack. Round trips, canonicity, termination of iteration, transparency of the cache.
  \<^item> \<open>Transaction\<close>, \<open>Block\<close> (\<open>libethcore\<close>): encoding, hashing, sender recovery, receipts and blooms; headers with the memoised hash, blocks with their encoding caches, verification.
    Round trips, the hash is never stale, the sealer's transaction root passes the verifier.
  \<^item> \<open>PBFTMsg\<close>, \<open>PBFTMsgCache\<close>, \<open>PBFTReqCache\<close>, \<open>TimeManager\<close>, \<open>ConsensusBase\<close>, \<open>PBFTEngine\<close> (\<open>libconsensus\<close>): messages and their wire format, the cache of seen packets (interface
    \<open>fifo_set\<close>), the request caches, the timers with floating-point rounding, block checks and membership, and every handler, timer and entry point of the engine
    over an environment record \<open>env\<close> that stands for the other modules.
  \<^item> \<open>PBFTSafety\<close>, \<open>PBFTQuorum\<close>, \<open>PBFTGossip\<close>: properties of all runs of the engine (relation \<open>pbft_step\<close>): the commit lock, authenticity of counted votes, the certificate of a committed
    block and its acceptance by other nodes, intersection of quorums (interface \<open>vote_quorum\<close>), leader rotation, broadcasting and forwarding.
  \<^item> \<open>MemoryTable\<close>, \<open>TableFactory\<close>, \<open>TableClient\<close> (\<open>libstorage\<close>): rows, conditions, cached tables with their change records (interface \<open>row_table\<close>), the factory with access control, rollback,
    hash and commit, and the LevelDB storage. A table refines a list of rows per key; committed rows are read back; rollback restores updates and is undefined
    after inserts; a factory stays well formed under every sequence of calls.
  \<^item> \<open>BlockChain\<close>, \<open>BlockCommit\<close> (\<open>libblockchain/BlockChainImp.cpp\<close>): reads, look-ups, members, configuration, genesis block and \<open>commitBlock\<close>. A committed block becomes the head and is found
    again by number, hash and transaction hash; error codes leave no trace; an exception during the writes leaves the lock held.
  \<^item> \<open>TxPool\<close>, \<open>TxPoolSafety\<close> (\<open>libtxpool\<close>): the pool with its queue, hash index and nonce caches. The indices stay consistent under every sequence of calls; \<open>topTransactions\<close> returns the
    oldest valid transactions; the incremental nonce cache equals a rebuild; the transactions of a dropped block cannot be imported again.
  \<^item> \<open>RaftEngine\<close>, \<open>RaftSafety\<close>, \<open>RaftElection\<close> (\<open>libconsensus/raft\<close>): messages, timers, election, heartbeats and commit; \<open>engine_step\<close> is a pass of the loop of the current role, \<open>raft_net\<close>
    a network of nodes with delayed messages. The election timeout stays within its bounds, a commit needs a majority of acknowledgements, and a run of
    three nodes ends with two leaders of one term.

  \<^bold>\<open>Parameters.\<close> Code outside \<open>src/\<close> is an argument: the hash function and the signature scheme (record \<open>crypto\<close>), \<open>boost::lexical_cast\<close> and \<open>split\<close>, SHA-256 (record \<open>boost\<close>), LevelDB and JsonCpp
    (record \<open>leveldb\<close>), \<open>std::rand\<close> (in \<open>raft_env\<close>). What the pool asks of the chain is the record \<open>pool_chain\<close>. What is relied on is a named hypothesis: \<open>leveldb_ok\<close> (a successful write is visible, a printed document is parsed back), \<open>numbers_ok\<close> (printed
    numbers are read back), hashes have 32 bytes. The examples instantiate all of them with concrete functions.

  \<^bold>\<open>Bounds.\<close> No definition uses fuel: loops are structural recursions or have a termination proof (\<open>rlp_foreach\<close> is a partial function, shown to return on
    exactly sized views). Sizes of encoded data are bounded by the RLP length field (\<open>rlp_size_ok\<close>), as in the writer.

  \<^bold>\<open>Not modelled.\<close> The virtual machine and its drivers (\<open>libinterpreter\<close>, \<open>libevm\<close>, \<open>libexecutive\<close>), the trie data base and the account state on it (\<open>libdevcore/TrieDB.h\<close>, \<open>libmptstate\<close>), the
    account state on tables (\<open>libstoragestate\<close>), the sealer threads, the synchronisation module (\<open>libsync\<close>), the block verifier, the precompiled contracts, networking, RPC and channel servers, encryption at rest and start-up
    code; \<open>easylogging\<close> and \<open>http_parser\<close> are copies of libraries. The components of the manifest give the reasons. The map of the manifest leaves out one-line constants
    and the inner loops of methods that are mapped.
\<close>

end
